(* ===== verification/Prelude.thy ===== *)
theory Prelude
  imports Main "HOL-Library.Word" "HOL-Library.Sublist"
begin

text \<open>
  Shared vocabulary of the development: how a C++ call can end (\<open>outcome\<close>), the
  conversions between \<open>std::size_t\<close> and \<open>int\<close> the sources perform, the operations of
  \<open>std::string_view\<close> they use (\<open>find\<close>, \<open>substr\<close>, \<open>find_first_not_of\<close>),
  \<open>std::tolower\<close> in the "C" locale, decimal and hexadecimal printing, and the contract
  between a step relation and its invariant (locale \<open>guarded_machine\<close>).
  Strings are lists of bytes (\<open>char\<close>).
\<close>

named_theorems outcome_simps \<open>equations of the outcome monad\<close>
named_theorems cpp_int \<open>conversions between size_t and int on small values\<close>

section \<open>Outcomes of a call\<close>

text \<open>
  A call returns, throws, ends the process through \<open>std::terminate\<close>, or does not return
  within the fuel of the model (\<open>Diverge\<close>).
\<close>

datatype exn =
    Out_of_range            \<comment> \<open>\<open>std::out_of_range\<close>, thrown by \<open>substr\<close>\<close>
  | Runtime_error string    \<comment> \<open>\<open>std::runtime_error\<close>\<close>
  | System_error            \<comment> \<open>\<open>std::system_error\<close>\<close>
  | Json_exception          \<comment> \<open>an exception of \<open>nlohmann::json\<close> that is not a \<open>parse_error\<close>\<close>
  | Handler_exception       \<comment> \<open>whatever a registered handler throws\<close>

datatype 'a outcome = Ret 'a | Raise exn | Terminate | Diverge

fun obind :: "'a outcome \<Rightarrow> ('a \<Rightarrow> 'b outcome) \<Rightarrow> 'b outcome" where
  "obind (Ret x) f = f x"
| "obind (Raise e) f = Raise e"
| "obind Terminate f = Terminate"
| "obind Diverge f = Diverge"

text \<open>An exception that leaves a \<open>noexcept\<close> function ends the process.\<close>

fun noexcept :: "'a outcome \<Rightarrow> 'a outcome" where
  "noexcept (Raise e) = Terminate"
| "noexcept r = r"

lemmas [outcome_simps] = obind.simps noexcept.simps

lemma obind_Ret_iff [outcome_simps]:
  "obind m f = Ret y \<longleftrightarrow> (\<exists>x. m = Ret x \<and> f x = Ret y)"
  by (cases m) auto

lemma noexcept_Ret_iff [outcome_simps]: "noexcept m = Ret x \<longleftrightarrow> m = Ret x"
  by (cases m) auto

lemma noexcept_not_Raise [simp]: "noexcept m \<noteq> Raise e"
  by (cases m) auto

lemma obind_assoc: "obind (obind m f) g = obind m (\<lambda>x. obind (f x) g)"
  by (cases m) auto

section \<open>Integer conversions\<close>

text \<open>
  \<open>std::size_t\<close> has 64 bits and is a \<open>nat\<close> here; \<open>npos\<close> is its largest value.
  \<open>int i = s.find(...)\<close> narrows a \<open>size_t\<close> to 32 bits (two's complement);
  comparing an \<open>int\<close> with \<open>npos\<close>, or passing it as a position or a count, converts it
  back modulo \<open>2 ^ 64\<close>.
\<close>

definition npos :: nat where
  "npos = 2 ^ 64 - 1"

definition int32 :: "nat \<Rightarrow> int" where
  "int32 n = signed_take_bit 31 (int n)"

definition sizet :: "int \<Rightarrow> nat" where
  "sizet i = nat (i mod 2 ^ 64)"

lemma int32_small [cpp_int]: "n < 2 ^ 31 \<Longrightarrow> int32 n = int n"
  unfolding int32_def by (rule signed_take_bit_int_eq_self) auto

lemma int32_npos [cpp_int]: "int32 npos = -1"
  unfolding int32_def npos_def by simp

lemma sizet_minus1 [cpp_int]: "sizet (- 1) = npos"
  unfolding sizet_def npos_def by simp

lemma sizet_int [cpp_int]: "n < 2 ^ 64 \<Longrightarrow> sizet (int n) = n"
  unfolding sizet_def by (simp add: nat_mod_distrib)

lemma sizet_nonneg [cpp_int]: "0 \<le> i \<Longrightarrow> i < 2 ^ 64 \<Longrightarrow> sizet i = nat i"
  unfolding sizet_def by simp

lemma sizet_neg [cpp_int]: "i < 0 \<Longrightarrow> - (2 ^ 64) \<le> i \<Longrightarrow> sizet i = nat (i + 2 ^ 64)"
proof -
  assume i: "i < 0" "- (2 ^ 64) \<le> i"
  then have "(i + 2 ^ 64) mod 2 ^ 64 = i + 2 ^ 64"
    by (intro mod_pos_pos_trivial) auto
  then have "i mod 2 ^ 64 = i + 2 ^ 64" by (simp only: mod_add_self2)
  then show ?thesis by (simp add: sizet_def)
qed


section \<open>std::string_view\<close>

definition crlf :: string where
  "crlf = [CHR 0x0D, CHR 0x0A]"

text \<open>
  \<open>first_match p s\<close> is the least position of \<open>s\<close> at which \<open>p\<close> occurs;
  \<open>sv_find\<close> is \<open>find(p, pos)\<close>, with \<open>npos\<close> when there is none.
\<close>

fun first_match :: "string \<Rightarrow> string \<Rightarrow> nat option" where
  "first_match p [] = (if p = [] then Some 0 else None)"
| "first_match p (c # cs) =
     (if prefix p (c # cs) then Some 0 else map_option Suc (first_match p cs))"

definition sv_find :: "string \<Rightarrow> string \<Rightarrow> nat \<Rightarrow> nat" where
  "sv_find s p pos =
     (if pos \<le> length s
      then (case first_match p (drop pos s) of None \<Rightarrow> npos | Some k \<Rightarrow> pos + k)
      else npos)"

definition sv_substr :: "string \<Rightarrow> nat \<Rightarrow> nat \<Rightarrow> string outcome" where
  "sv_substr s pos n =
     (if pos \<le> length s then Ret (take n (drop pos s)) else Raise Out_of_range)"

definition find_first_not_of :: "string \<Rightarrow> string \<Rightarrow> nat" where
  "find_first_not_of s cs =
     (let k = length (takeWhile (\<lambda>c. c \<in> set cs) s) in if k < length s then k else npos)"

text \<open>\<open>std::find\<close> on the characters of a string: the end position when there is none.\<close>

definition char_find :: "string \<Rightarrow> nat \<Rightarrow> char \<Rightarrow> nat" where
  "char_find s pos c = pos + length (takeWhile (\<lambda>x. x \<noteq> c) (drop pos s))"

lemma first_match_Some_decomp:
  "first_match p s = Some k \<Longrightarrow> s = take k s @ p @ drop (k + length p) s"
proof (induction s arbitrary: k)
  case Nil
  then show ?case by (simp split: if_splits)
next
  case (Cons c s)
  show ?case
  proof (cases "prefix p (c # s)")
    case True
    with Cons.prems show ?thesis by (auto elim!: prefixE)
  next
    case False
    with Cons.prems obtain j where "first_match p s = Some j" "k = Suc j" by auto
    with Cons.IH [of j] show ?thesis by simp
  qed
qed

lemma first_match_bound: "first_match p s = Some k \<Longrightarrow> k + length p \<le> length s"
proof (induction s arbitrary: k)
  case Nil
  then show ?case by (simp split: if_splits)
next
  case (Cons c s)
  then show ?case by (fastforce split: if_splits dest: prefix_length_le)
qed

lemma first_match_prefix_None:
  "first_match p s = None \<Longrightarrow> \<not> prefix p (drop i s)"
proof (induction s arbitrary: i)
  case Nil
  then show ?case by (auto split: if_splits)
next
  case (Cons c s)
  then show ?case by (cases i) (auto split: if_splits)
qed

lemma first_match_least:
  "first_match p s = Some k \<Longrightarrow> i < k \<Longrightarrow> \<not> prefix p (drop i s)"
proof (induction s arbitrary: k i)
  case Nil
  then show ?case by (auto split: if_splits)
next
  case (Cons c s)
  then show ?case by (cases i) (auto split: if_splits)
qed

lemma first_matchI:
  "prefix p (drop k s) \<Longrightarrow> k \<le> length s \<Longrightarrow> (\<And>i. i < k \<Longrightarrow> \<not> prefix p (drop i s)) \<Longrightarrow>
   first_match p s = Some k"
proof (induction s arbitrary: k)
  case Nil
  then show ?case by auto
next
  case (Cons c s)
  show ?case
  proof (cases k)
    case 0
    with Cons.prems show ?thesis by simp
  next
    case (Suc j)
    have "first_match p s = Some j"
    proof (rule Cons.IH)
      show "prefix p (drop j s)" "j \<le> length s" using Cons.prems Suc by auto
      show "\<not> prefix p (drop i s)" if "i < j" for i
        using Cons.prems(3) [of "Suc i"] that Suc by simp
    qed
    moreover have "\<not> prefix p (c # s)" using Cons.prems(3) [of 0] Suc by simp
    ultimately show ?thesis using Suc by simp
  qed
qed

lemma first_match_single:
  "first_match [c] s = (if c \<in> set s then Some (length (takeWhile (\<lambda>x. x \<noteq> c) s)) else None)"
  by (induction s) auto

text \<open>A match of CRLF in front of which there is no carriage return.\<close>

lemma first_match_crlf_append:
  assumes "CHR 0x0D \<notin> set s"
  shows "first_match crlf (s @ crlf @ t) = Some (length s)"
  using assms by (induction s) (auto simp: crlf_def)

lemma first_match_crlf_None: "CHR 0x0D \<notin> set s \<Longrightarrow> first_match crlf s = None"
  by (induction s) (auto simp: crlf_def)

lemma takeWhile_append_neq [simp]:
  "c \<notin> set s \<Longrightarrow> takeWhile (\<lambda>x. x \<noteq> c) (s @ c # t) = s"
  by (induction s) auto

lemma dropWhile_append_neq [simp]:
  "c \<notin> set s \<Longrightarrow> dropWhile (\<lambda>x. x \<noteq> c) (s @ c # t) = c # t"
  by (induction s) auto

section \<open>Characters and numbers\<close>

text \<open>\<open>std::tolower\<close> in the "C" locale: the program never calls \<open>setlocale\<close>.\<close>

definition tolower :: "char \<Rightarrow> char" where
  "tolower c = (let n = of_char c :: nat in if 65 \<le> n \<and> n \<le> 90 then char_of (n + 32) else c)"

lemma tolower_idem [simp]: "tolower (tolower c) = tolower c"
proof -
  have "of_char c < (256 :: nat)" by simp
  then show ?thesis by (simp add: tolower_def Let_def)
qed

definition digit_char :: "nat \<Rightarrow> char" where
  "digit_char d = ''0123456789abcdef'' ! d"

text \<open>Printing in base \<open>b\<close> without leading zeros: \<open>std::to_string\<close>, \<open>fmt\<close> and \<open>std::hex\<close>.\<close>

fun show_base :: "nat \<Rightarrow> nat \<Rightarrow> string" where
  "show_base b n =
     (if b < 2 \<or> n < b then [digit_char n]
      else show_base b (n div b) @ [digit_char (n mod b)])"

declare show_base.simps [simp del]

definition dec :: "nat \<Rightarrow> string" where
  "dec n = show_base 10 n"

text \<open>\<open>std::setw(w)\<close> with \<open>std::setfill('0')\<close>.\<close>

definition pad0 :: "nat \<Rightarrow> string \<Rightarrow> string" where
  "pad0 w s = replicate (w - length s) CHR ''0'' @ s"

definition hexw :: "nat \<Rightarrow> nat \<Rightarrow> string" where
  "hexw w n = pad0 w (show_base 16 n)"

text \<open>The reader the round trips use: the value of a numeral.\<close>

definition digit_val :: "char \<Rightarrow> nat" where
  "digit_val c = length (takeWhile (\<lambda>x. x \<noteq> c) ''0123456789abcdef'')"

definition read_base :: "nat \<Rightarrow> string \<Rightarrow> nat" where
  "read_base b s = foldl (\<lambda>n c. b * n + digit_val c) 0 s"

lemma digit_val_char [simp]: "d < 16 \<Longrightarrow> digit_val (digit_char d) = d"
proof -
  assume "d < 16"
  moreover have "\<forall>d \<in> set [0..<16]. digit_val (digit_char d) = d" by code_simp
  ultimately show ?thesis by simp
qed

lemma digit_char_in: "d < 16 \<Longrightarrow> digit_char d \<in> set ''0123456789abcdef''"
  unfolding digit_char_def by (rule nth_mem) simp

lemma digit_char_dec: "d < 10 \<Longrightarrow> digit_char d \<in> set ''0123456789''"
proof -
  assume "d < 10"
  moreover have "\<forall>d \<in> set [0..<10]. digit_char d \<in> set ''0123456789''" by code_simp
  ultimately show ?thesis by (simp del: list.set)
qed

lemma read_base_append:
  "read_base b (s @ [c]) = b * read_base b s + digit_val c"
  by (simp add: read_base_def)

lemma read_show_base: "2 \<le> b \<Longrightarrow> b \<le> 16 \<Longrightarrow> read_base b (show_base b n) = n"
proof (induction b n rule: show_base.induct)
  case (1 b n)
  show ?case
  proof (cases "n < b")
    case True
    with 1 have "n < 16" by simp
    then have "read_base b [digit_char n] = n"
      by (simp add: read_base_def)
    with True show ?thesis by (subst show_base.simps) simp
  next
    case False
    with 1 have "read_base b (show_base b (n div b)) = n div b" by simp
    moreover have "n mod b < 16" using "1.prems" by (intro less_le_trans [OF mod_less_divisor]) auto
    ultimately show ?thesis using False "1.prems"
      by (subst show_base.simps) (simp add: read_base_append)
  qed
qed

lemma show_base_digits:
  assumes "2 \<le> b" "b \<le> 16"
  shows "set (show_base b n) \<subseteq> digit_char ` {..<b}"
  using assms
proof (induction b n rule: show_base.induct)
  case (1 b n)
  then show ?case by (subst show_base.simps) auto
qed

lemma show_base_nonempty [simp]: "show_base b n \<noteq> []"
  by (subst show_base.simps) simp

lemma length_show_base:
  "2 \<le> b \<Longrightarrow> 0 < w \<Longrightarrow> n < b ^ w \<Longrightarrow> length (show_base b n) \<le> w"
proof (induction w arbitrary: n)
  case 0
  then show ?case by simp
next
  case (Suc w)
  show ?case
  proof (cases "n < b")
    case True
    then show ?thesis by (subst show_base.simps) simp
  next
    case False
    then have "w \<noteq> 0" using Suc.prems by (intro notI) simp
    moreover have "n div b < b ^ w" using Suc.prems by (simp add: less_mult_imp_div_less mult.commute)
    ultimately have "length (show_base b (n div b)) \<le> w" using Suc by simp
    with False Suc.prems show ?thesis by (subst show_base.simps) simp
  qed
qed

lemma read_base_pad0: "read_base b (pad0 w s) = read_base b s"
proof -
  have "foldl (\<lambda>n c. b * n + digit_val c) 0 (replicate k CHR ''0'' @ s) =
      foldl (\<lambda>n c. b * n + digit_val c) 0 s" for k
    by (induction k) (simp_all add: digit_val_def)
  then show ?thesis by (simp only: pad0_def read_base_def)
qed

lemma length_hexw: "0 < w \<Longrightarrow> n < 16 ^ w \<Longrightarrow> length (hexw w n) = w"
  using length_show_base [of 16 w n] by (simp add: hexw_def pad0_def)

lemma read_hexw: "read_base 16 (hexw w n) = n"
  by (simp add: hexw_def read_base_pad0 read_show_base)

lemma read_dec: "read_base 10 (dec n) = n"
  by (simp add: dec_def read_show_base)

lemma hexw_digits: "set (hexw w n) \<subseteq> set ''0123456789abcdef''"
proof -
  have "set (show_base 16 n) \<subseteq> set ''0123456789abcdef''"
    using show_base_digits [of 16 n] digit_char_in by fastforce
  then show ?thesis by (auto simp: hexw_def pad0_def)
qed

lemma dec_digits: "set (dec n) \<subseteq> set ''0123456789''"
proof -
  have "set (show_base 10 n) \<subseteq> digit_char ` {..<10}" by (rule show_base_digits) auto
  also have "\<dots> \<subseteq> set ''0123456789''" using digit_char_dec by blast
  finally show ?thesis by (simp only: dec_def)
qed

section \<open>Machines and their invariants\<close>

locale guarded_machine =
  fixes init :: "'s \<Rightarrow> bool" and step :: "'s \<Rightarrow> 's \<Rightarrow> bool" and inv :: "'s \<Rightarrow> bool"
  assumes inv_init: "init s \<Longrightarrow> inv s"
    and inv_step: "step s s' \<Longrightarrow> inv s \<Longrightarrow> inv s'"
begin

lemma reachable_inv:
  assumes "init s" "step\<^sup>*\<^sup>* s s'"
  shows "inv s'"
  using assms(2) by induction (auto intro: inv_init [OF assms(1)] inv_step)

end

end
