(* ===== verification/Status.thy ===== *)
theory Status
  imports Prelude
begin

text \<open>
  The status vocabulary of \<open>src/src/common\<close>: HTTP status codes
  (\<open>status/http.h\<close>, \<open>status/http.cc\<close>), application result codes
  (\<open>status/retcode.h\<close>) and log levels (\<open>status/log.h\<close>, \<open>status/log.cc\<close>).
  The three code families are datatypes with the source's enumerators; a companion
  function gives the number each enumerator is declared with.
\<close>

section \<open>HTTP status codes\<close>

datatype (plugins only: code size) http =
    unknown | continue | switching_protocols | processing | early_hints | ok | created |
    accepted | non_authoritative_information | no_content | reset_content |
    partial_content | multi_status | already_reported | im_used | multiple_choices |
    moved_permanently | found | see_other | not_modified | use_proxy | temporary_redirect |
    permanent_redirect | bad_request | unauthorized | payment_required | forbidden |
    not_found | method_not_allowed | not_acceptable | proxy_authentication_required |
    request_timeout | conflict | gone | length_required | precondition_failed |
    payload_too_large | uri_too_long | unsupported_media_type | range_not_satisfiable |
    expectation_failed | i_am_a_teapot | misdirected_request | unprocessable_entity |
    locked | failed_dependency | too_early | upgrade_required | precondition_required |
    too_many_requests | request_header_fields_too_large | unavailable_for_legal_reasons |
    internal_server_error | not_implemented | bad_gateway | service_unavailable |
    gateway_timeout | http_version_not_supported | variant_also_negotiates |
    insufficient_storage | loop_detected | not_extended | network_authentication_required

primrec http_code :: "http \<Rightarrow> nat" where
  "http_code unknown = 0"
| "http_code continue = 100"
| "http_code switching_protocols = 101"
| "http_code processing = 102"
| "http_code early_hints = 103"
| "http_code ok = 200"
| "http_code created = 201"
| "http_code accepted = 202"
| "http_code non_authoritative_information = 203"
| "http_code no_content = 204"
| "http_code reset_content = 205"
| "http_code partial_content = 206"
| "http_code multi_status = 207"
| "http_code already_reported = 208"
| "http_code im_used = 226"
| "http_code multiple_choices = 300"
| "http_code moved_permanently = 301"
| "http_code found = 302"
| "http_code see_other = 303"
| "http_code not_modified = 304"
| "http_code use_proxy = 305"
| "http_code temporary_redirect = 307"
| "http_code permanent_redirect = 308"
| "http_code bad_request = 400"
| "http_code unauthorized = 401"
| "http_code payment_required = 402"
| "http_code forbidden = 403"
| "http_code not_found = 404"
| "http_code method_not_allowed = 405"
| "http_code not_acceptable = 406"
| "http_code proxy_authentication_required = 407"
| "http_code request_timeout = 408"
| "http_code conflict = 409"
| "http_code gone = 410"
| "http_code length_required = 411"
| "http_code precondition_failed = 412"
| "http_code payload_too_large = 413"
| "http_code uri_too_long = 414"
| "http_code unsupported_media_type = 415"
| "http_code range_not_satisfiable = 416"
| "http_code expectation_failed = 417"
| "http_code i_am_a_teapot = 418"
| "http_code misdirected_request = 421"
| "http_code unprocessable_entity = 422"
| "http_code locked = 423"
| "http_code failed_dependency = 424"
| "http_code too_early = 425"
| "http_code upgrade_required = 426"
| "http_code precondition_required = 428"
| "http_code too_many_requests = 429"
| "http_code request_header_fields_too_large = 431"
| "http_code unavailable_for_legal_reasons = 451"
| "http_code internal_server_error = 500"
| "http_code not_implemented = 501"
| "http_code bad_gateway = 502"
| "http_code service_unavailable = 503"
| "http_code gateway_timeout = 504"
| "http_code http_version_not_supported = 505"
| "http_code variant_also_negotiates = 506"
| "http_code insufficient_storage = 507"
| "http_code loop_detected = 508"
| "http_code not_extended = 510"
| "http_code network_authentication_required = 511"

text \<open>The case labels of the switch in \<open>int_to_status\<close>, in its order.\<close>

definition known_status :: "http list" where
  "known_status = [
     continue, switching_protocols, processing, early_hints, ok, created, accepted,
     non_authoritative_information, no_content, reset_content, partial_content,
     multi_status, already_reported, im_used, multiple_choices, moved_permanently, found,
     see_other, not_modified, use_proxy, temporary_redirect, permanent_redirect,
     bad_request, unauthorized, payment_required, forbidden, not_found, method_not_allowed,
     not_acceptable, proxy_authentication_required, request_timeout, conflict, gone,
     length_required, precondition_failed, payload_too_large, uri_too_long,
     unsupported_media_type, range_not_satisfiable, expectation_failed, i_am_a_teapot,
     misdirected_request, unprocessable_entity, locked, failed_dependency, too_early,
     upgrade_required, precondition_required, too_many_requests,
     request_header_fields_too_large, unavailable_for_legal_reasons, internal_server_error,
     not_implemented, bad_gateway, service_unavailable, gateway_timeout,
     http_version_not_supported, variant_also_negotiates, insufficient_storage,
     loop_detected, not_extended, network_authentication_required]"

definition int_to_status :: "nat \<Rightarrow> http" where
  "int_to_status v =
     (case find (\<lambda>s. http_code s = v) known_status of Some s \<Rightarrow> s | None \<Rightarrow> http.unknown)"

datatype status_class =
    unknown_class | informational | successful | redirection | client_error | server_error

definition int_to_status_class :: "nat \<Rightarrow> status_class" where
  "int_to_status_class v =
     (let c = v div 100 in
      if c = 1 then informational
      else if c = 2 then successful
      else if c = 3 then redirection
      else if c = 4 then client_error
      else if c = 5 then server_error
      else unknown_class)"

definition to_status_class :: "http \<Rightarrow> status_class" where
  "to_status_class v = int_to_status_class (http_code v)"

primrec obsolete_reason :: "http \<Rightarrow> string" where
  "obsolete_reason continue = ''Continue''"
| "obsolete_reason switching_protocols = ''Switching Protocols''"
| "obsolete_reason processing = ''Processing''"
| "obsolete_reason early_hints = ''Early Hints''"
| "obsolete_reason ok = ''OK''"
| "obsolete_reason created = ''Created''"
| "obsolete_reason accepted = ''Accepted''"
| "obsolete_reason non_authoritative_information = ''Non-Authoritative Information''"
| "obsolete_reason no_content = ''No Content''"
| "obsolete_reason reset_content = ''Reset Content''"
| "obsolete_reason partial_content = ''Partial Content''"
| "obsolete_reason multi_status = ''Multi-Status''"
| "obsolete_reason already_reported = ''Already Reported''"
| "obsolete_reason im_used = ''IM Used''"
| "obsolete_reason multiple_choices = ''Multiple Choices''"
| "obsolete_reason moved_permanently = ''Moved Permanently''"
| "obsolete_reason found = ''Found''"
| "obsolete_reason see_other = ''See Other''"
| "obsolete_reason not_modified = ''Not Modified''"
| "obsolete_reason use_proxy = ''Use Proxy''"
| "obsolete_reason temporary_redirect = ''Temporary Redirect''"
| "obsolete_reason permanent_redirect = ''Permanent Redirect''"
| "obsolete_reason bad_request = ''Bad Request''"
| "obsolete_reason unauthorized = ''Unauthorized''"
| "obsolete_reason payment_required = ''Payment Required''"
| "obsolete_reason forbidden = ''Forbidden''"
| "obsolete_reason not_found = ''Not Found''"
| "obsolete_reason method_not_allowed = ''Method Not Allowed''"
| "obsolete_reason not_acceptable = ''Not Acceptable''"
| "obsolete_reason proxy_authentication_required = ''Proxy Authentication Required''"
| "obsolete_reason request_timeout = ''Request Timeout''"
| "obsolete_reason conflict = ''Conflict''"
| "obsolete_reason gone = ''Gone''"
| "obsolete_reason length_required = ''Length Required''"
| "obsolete_reason precondition_failed = ''Precondition Failed''"
| "obsolete_reason payload_too_large = ''Payload Too Large''"
| "obsolete_reason uri_too_long = ''URI Too Long''"
| "obsolete_reason unsupported_media_type = ''Unsupported Media Type''"
| "obsolete_reason range_not_satisfiable = ''Range Not Satisfiable''"
| "obsolete_reason expectation_failed = ''Expectation Failed''"
| "obsolete_reason i_am_a_teapot = ''I'' @ CHR 0x27 # ''m a teapot''"
| "obsolete_reason misdirected_request = ''Misdirected Request''"
| "obsolete_reason unprocessable_entity = ''Unprocessable Entity''"
| "obsolete_reason locked = ''Locked''"
| "obsolete_reason failed_dependency = ''Failed Dependency''"
| "obsolete_reason too_early = ''Too Early''"
| "obsolete_reason upgrade_required = ''Upgrade Required''"
| "obsolete_reason precondition_required = ''Precondition Required''"
| "obsolete_reason too_many_requests = ''Too Many Requests''"
| "obsolete_reason request_header_fields_too_large = ''Request Header Fields Too Large''"
| "obsolete_reason unavailable_for_legal_reasons = ''Unavailable For Legal Reasons''"
| "obsolete_reason internal_server_error = ''Internal Server Error''"
| "obsolete_reason not_implemented = ''Not Implemented''"
| "obsolete_reason bad_gateway = ''Bad Gateway''"
| "obsolete_reason service_unavailable = ''Service Unavailable''"
| "obsolete_reason gateway_timeout = ''Gateway Timeout''"
| "obsolete_reason http_version_not_supported = ''HTTP Version Not Supported''"
| "obsolete_reason variant_also_negotiates = ''Variant Also Negotiates''"
| "obsolete_reason insufficient_storage = ''Insufficient Storage''"
| "obsolete_reason loop_detected = ''Loop Detected''"
| "obsolete_reason not_extended = ''Not Extended''"
| "obsolete_reason network_authentication_required = ''Network Authentication Required''"
| "obsolete_reason http.unknown = ''<unknown-status>''"

section \<open>Application result codes\<close>

datatype (plugins only: code size) retCode =
    Success | InvalidJsonOrParams | AuthError | Forbidden | NotFound |
    ConflictDuplicateClientOrderId | InvalidSimulationState | RateLimitExceeded |
    InternalError | InsufficientBalance | PriceOrQtyNotAligned |
    PositionOrOrderLimitExceeded | UnknownSymbolOrDataset | SimulationNotRunning |
    ClientOrderIdAlreadyUsed | SessionOrSignatureExpired | InvalidSignature |
    ClockSkewExceedsRecvWindow | PostOnlyWouldCross | RequestBufferOverflow |
    MethodNotAllowed | NotAcceptable | RequestTimeout | UnsupportedMediaType |
    MissingContentLength | UriTooLong | PreconditionFailed | ExpectationFailed |
    ResourceGone | TooManyOpenOrders | RequestHeaderFieldsTooLarge |
    UnavailableForLegalReasons | NotImplemented | BadGateway | ServiceUnavailable |
    GatewayTimeout | InsufficientStorage

primrec retcode_num :: "retCode \<Rightarrow> nat" where
  "retcode_num Success = 20000"
| "retcode_num InvalidJsonOrParams = 40000"
| "retcode_num AuthError = 40100"
| "retcode_num Forbidden = 40300"
| "retcode_num NotFound = 40400"
| "retcode_num ConflictDuplicateClientOrderId = 40900"
| "retcode_num InvalidSimulationState = 42200"
| "retcode_num RateLimitExceeded = 42900"
| "retcode_num InternalError = 50000"
| "retcode_num InsufficientBalance = 40001"
| "retcode_num PriceOrQtyNotAligned = 40002"
| "retcode_num PositionOrOrderLimitExceeded = 42201"
| "retcode_num UnknownSymbolOrDataset = 40401"
| "retcode_num SimulationNotRunning = 42202"
| "retcode_num ClientOrderIdAlreadyUsed = 40901"
| "retcode_num SessionOrSignatureExpired = 40101"
| "retcode_num InvalidSignature = 40102"
| "retcode_num ClockSkewExceedsRecvWindow = 40103"
| "retcode_num PostOnlyWouldCross = 42203"
| "retcode_num RequestBufferOverflow = 41300"
| "retcode_num MethodNotAllowed = 40500"
| "retcode_num NotAcceptable = 40600"
| "retcode_num RequestTimeout = 40800"
| "retcode_num UnsupportedMediaType = 41500"
| "retcode_num MissingContentLength = 41100"
| "retcode_num UriTooLong = 41400"
| "retcode_num PreconditionFailed = 41200"
| "retcode_num ExpectationFailed = 41700"
| "retcode_num ResourceGone = 41000"
| "retcode_num TooManyOpenOrders = 42901"
| "retcode_num RequestHeaderFieldsTooLarge = 43100"
| "retcode_num UnavailableForLegalReasons = 45100"
| "retcode_num NotImplemented = 50100"
| "retcode_num BadGateway = 50200"
| "retcode_num ServiceUnavailable = 50300"
| "retcode_num GatewayTimeout = 50400"
| "retcode_num InsufficientStorage = 50700"

definition to_http_status :: "retCode \<Rightarrow> http" where
  "to_http_status code = int_to_status (retcode_num code div 100)"

primrec retMesg :: "retCode \<Rightarrow> string" where
  "retMesg Success = ''Success''"
| "retMesg InvalidJsonOrParams = ''Invalid JSON or parameters''"
| "retMesg AuthError = ''Authorization error''"
| "retMesg Forbidden = ''Forbidden (insufficient scope)''"
| "retMesg NotFound = ''Resource not found''"
| "retMesg ConflictDuplicateClientOrderId = ''Conflict or duplicated clientOrderId''"
| "retMesg InvalidSimulationState = ''Command not valid for current simulation state''"
| "retMesg RateLimitExceeded = ''Rate limit exceeded''"
| "retMesg InternalError = ''Internal error''"
| "retMesg InsufficientBalance = ''Insufficient balance''"
| "retMesg PriceOrQtyNotAligned = ''Price/quantity not aligned with tickSize/qtyStep''"
| "retMesg PositionOrOrderLimitExceeded = ''Position or order size limit exceeded''"
| "retMesg UnknownSymbolOrDataset = ''Unknown symbol or dataset''"
| "retMesg SimulationNotRunning = ''Simulation is not in Running state''"
| "retMesg ClientOrderIdAlreadyUsed = ''clientOrderId already used in this simulation''"
| "retMesg SessionOrSignatureExpired = ''Session/signature expired''"
| "retMesg InvalidSignature = ''Invalid signature''"
| "retMesg ClockSkewExceedsRecvWindow = ''Clock skew exceeds recvWindow''"
| "retMesg PostOnlyWouldCross = ''PostOnly order would cross the book (WouldCross)''"
| "retMesg RequestBufferOverflow = ''Request exceeded receive buffer size''"
| "retMesg MethodNotAllowed = ''HTTP method not allowed for this endpoint''"
| "retMesg NotAcceptable = ''Requested representation not available (Accept header)''"
| "retMesg RequestTimeout = ''Client took too long to send the request''"
| "retMesg UnsupportedMediaType = ''Unsupported Content-Type (expected application/json)''"
| "retMesg MissingContentLength = ''Content-Length header is required''"
| "retMesg UriTooLong = ''Request URI too long''"
| "retMesg PreconditionFailed = ''Precondition failed''"
| "retMesg ExpectationFailed = ''Expectation failed''"
| "retMesg ResourceGone = ''Resource permanently removed''"
| "retMesg TooManyOpenOrders = ''Too many open orders for this account/symbol''"
| "retMesg RequestHeaderFieldsTooLarge = ''Request header fields too large''"
| "retMesg UnavailableForLegalReasons = ''Unavailable for legal reasons''"
| "retMesg NotImplemented = ''Not implemented''"
| "retMesg BadGateway = ''Upstream matching engine/data feed error''"
| "retMesg ServiceUnavailable = ''Service temporarily unavailable''"
| "retMesg GatewayTimeout = ''Upstream matching engine/data feed timeout''"
| "retMesg InsufficientStorage = ''Insufficient storage''"

text \<open>The HTTP code that the comment beside each enumerator of \<open>retCode\<close> documents.\<close>

primrec documented_status :: "retCode \<Rightarrow> nat" where
  "documented_status Success = 200"
| "documented_status InvalidJsonOrParams = 400"
| "documented_status AuthError = 401"
| "documented_status Forbidden = 403"
| "documented_status NotFound = 404"
| "documented_status ConflictDuplicateClientOrderId = 409"
| "documented_status InvalidSimulationState = 422"
| "documented_status RateLimitExceeded = 429"
| "documented_status InternalError = 500"
| "documented_status InsufficientBalance = 400"
| "documented_status PriceOrQtyNotAligned = 400"
| "documented_status PositionOrOrderLimitExceeded = 422"
| "documented_status UnknownSymbolOrDataset = 404"
| "documented_status SimulationNotRunning = 422"
| "documented_status ClientOrderIdAlreadyUsed = 409"
| "documented_status SessionOrSignatureExpired = 401"
| "documented_status InvalidSignature = 401"
| "documented_status ClockSkewExceedsRecvWindow = 401"
| "documented_status PostOnlyWouldCross = 422"
| "documented_status RequestBufferOverflow = 413"
| "documented_status MethodNotAllowed = 405"
| "documented_status NotAcceptable = 406"
| "documented_status RequestTimeout = 408"
| "documented_status UnsupportedMediaType = 415"
| "documented_status MissingContentLength = 411"
| "documented_status UriTooLong = 414"
| "documented_status PreconditionFailed = 412"
| "documented_status ExpectationFailed = 417"
| "documented_status ResourceGone = 410"
| "documented_status TooManyOpenOrders = 429"
| "documented_status RequestHeaderFieldsTooLarge = 431"
| "documented_status UnavailableForLegalReasons = 451"
| "documented_status NotImplemented = 501"
| "documented_status BadGateway = 502"
| "documented_status ServiceUnavailable = 503"
| "documented_status GatewayTimeout = 504"
| "documented_status InsufficientStorage = 507"

section \<open>Log levels\<close>

datatype log = unknown | trace | debug | info | warning | error | critical

fun log_num :: "log \<Rightarrow> nat" where
  "log_num log.unknown = 0"
| "log_num trace = 1"
| "log_num debug = 2"
| "log_num info = 3"
| "log_num warning = 4"
| "log_num error = 5"
| "log_num critical = 6"

text \<open>The sources compare levels by their enumerator values.\<close>

lemma log_num_inject: "log_num a = log_num b \<longleftrightarrow> a = b"
  by (cases a; cases b; simp)

instantiation log :: linorder
begin

definition less_eq_log :: "log \<Rightarrow> log \<Rightarrow> bool" where
  "less_eq_log a b \<longleftrightarrow> log_num a \<le> log_num b"

definition less_log :: "log \<Rightarrow> log \<Rightarrow> bool" where
  "less_log a b \<longleftrightarrow> log_num a < log_num b"

instance
  by intro_classes (auto simp: less_eq_log_def less_log_def log_num_inject)

end

lemma log_least: "log.unknown \<le> l" "l \<noteq> log.unknown \<longleftrightarrow> 0 < log_num l"
  by (cases l; simp add: less_eq_log_def)+

definition string_to_log :: "string \<Rightarrow> log" where
  "string_to_log v =
     (if v = ''info'' then info
      else if v = ''error'' then error
      else if v = ''warning'' then warning
      else if v = ''debug'' then debug
      else if v = ''trace'' then trace
      else if v = ''critical'' then critical
      else log.unknown)"

definition int_to_log :: "int \<Rightarrow> log" where
  "int_to_log v =
     (if v = 1 then trace
      else if v = 2 then debug
      else if v = 3 then info
      else if v = 4 then warning
      else if v = 5 then error
      else if v = 6 then critical
      else log.unknown)"

definition http_to_log :: "http \<Rightarrow> log" where
  "http_to_log v =
     (let c = http_code v div 100 in
      if c = 1 then info
      else if c = 2 then info
      else if c = 3 then info
      else if c = 4 then warning
      else if c = 5 then error
      else log.unknown)"

definition retcode_to_log :: "retCode \<Rightarrow> log" where
  "retcode_to_log v =
     (let c = retcode_num v div 10000 in
      if c = 1 then info
      else if c = 2 then info
      else if c = 3 then info
      else if c = 4 then warning
      else if c = 5 then error
      else log.unknown)"

fun log_reason :: "log \<Rightarrow> string" where
  "log_reason trace = ''TRACE''"
| "log_reason debug = ''DEBUG''"
| "log_reason info = ''INFO''"
| "log_reason warning = ''WARN''"
| "log_reason error = ''ERROR''"
| "log_reason critical = ''CRIT''"
| "log_reason log.unknown = ''<unknown-log>''"

fun log_color :: "log \<Rightarrow> string" where
  "log_color trace = CHR 0x1B # ''[90m''"
| "log_color debug = CHR 0x1B # ''[36m''"
| "log_color info = CHR 0x1B # ''[32m''"
| "log_color warning = CHR 0x1B # ''[33m''"
| "log_color error = CHR 0x1B # ''[31m''"
| "log_color critical = CHR 0x1B # ''[1;31m''"
| "log_color log.unknown = CHR 0x1B # ''[0m''"

definition log_reset :: string where
  "log_reset = CHR 0x1B # ''[0m''"

definition colored_reason :: "log \<Rightarrow> string" where
  "colored_reason v = log_color v @ log_reason v @ log_reset"

fun important_log :: "log \<Rightarrow> bool" where
  "important_log info = False"
| "important_log trace = False"
| "important_log debug = False"
| "important_log _ = True"

section \<open>Facts about the code families\<close>

lemma http_cases: "s = http.unknown \<or> s \<in> set known_status"
  by (cases s) (simp_all add: known_status_def)

lemma int_to_status_code [simp]: "int_to_status (http_code s) = s"
  by (cases s) (simp_all add: int_to_status_def known_status_def)

lemma http_code_inject [simp]: "http_code s = http_code t \<longleftrightarrow> s = t"
  by (metis int_to_status_code)

lemma int_to_status_unknown:
  "v \<notin> http_code ` set known_status \<Longrightarrow> int_to_status v = http.unknown"
proof -
  assume "v \<notin> http_code ` set known_status"
  then have "find (\<lambda>s. http_code s = v) known_status = None"
    by (force simp: find_None_iff)
  then show ?thesis by (simp add: int_to_status_def)
qed

lemma http_code_to_http_status [simp]: "http_code (to_http_status c) = documented_status c"
  by (cases c) (simp_all add: to_http_status_def int_to_status_def known_status_def)

lemma retcode_class:
  "documented_status c div 100 = retcode_num c div 10000"
  "documented_status c div 100 \<in> {2, 4, 5}"
  by (cases c; simp)+

lemma distinct_reasons:
  "distinct (map obsolete_reason (http.unknown # known_status))"
  by (simp add: known_status_def)

text \<open>
  \<open>int_to_status\<close> is the exact inverse of the enumeration: it returns the
  enumerator whose number is its argument, and \<open>unknown\<close> for every other integer.
\<close>
theorem int_to_status_exact:
  "int_to_status v = s \<longleftrightarrow>
     http_code s = v \<or> (s = http.unknown \<and> v \<notin> http_code ` set known_status)"
proof (cases "v \<in> http_code ` set known_status")
  case True
  then obtain t where "v = http_code t" "t \<in> set known_status" by blast
  with True show ?thesis by auto
next
  case False
  then have "http_code s = v \<Longrightarrow> s = http.unknown" using http_cases [of s] by blast
  with False show ?thesis by (auto simp: int_to_status_unknown)
qed

text \<open>
  Every application result code maps to the HTTP status its comment documents, never
  to \<open>unknown\<close>; the class of that status is success or error, and the log level
  chosen from the result code is the one chosen from the HTTP status.
\<close>
theorem retcode_status_documented:
  "http_code (to_http_status c) = documented_status c \<and>
   to_http_status c \<noteq> http.unknown \<and>
   to_status_class (to_http_status c) \<in> {successful, client_error, server_error} \<and>
   retcode_to_log c = http_to_log (to_http_status c)"
proof -
  have "to_http_status c \<noteq> http.unknown"
  proof
    assume "to_http_status c = http.unknown"
    then have "documented_status c = 0" using http_code_to_http_status [of c] by simp
    then show False using retcode_class(2) [of c] by simp
  qed
  then show ?thesis
    using retcode_class [of c]
    by (auto simp: to_status_class_def int_to_status_class_def Let_def
        retcode_to_log_def http_to_log_def)
qed

text \<open>
  Reason phrases identify statuses: two status codes with the same phrase are equal,
  so a client can recover the status from the phrase of the status line.
\<close>
theorem obsolete_reason_inject:
  "obsolete_reason s = obsolete_reason t \<longleftrightarrow> s = t"
proof
  assume "obsolete_reason s = obsolete_reason t"
  moreover have "inj_on obsolete_reason (set (http.unknown # known_status))"
    using distinct_reasons by (simp only: distinct_map)
  moreover have "s \<in> set (http.unknown # known_status)" "t \<in> set (http.unknown # known_status)"
    using http_cases [of s] http_cases [of t] by auto
  ultimately show "s = t" by (meson inj_onD)
qed simp

end
