(* ===== verification/Uuid.thy ===== *)
theory Uuid
  imports Prelude
begin

unbundle bit_operations_syntax

text \<open>
  \<open>src/src/common/src/uuid.cc\<close>: version 4 UUIDs. The two 64-bit draws of the
  generator (\<open>std::mt19937_64\<close>) are the arguments; everything after the draws is
  modelled on \<open>64 word\<close>.
\<close>

definition stamp_version :: "64 word \<Rightarrow> 64 word" where
  "stamp_version a = (a AND 0xFFFFFFFFFFFF0FFF) OR 0x0000000000004000"

definition stamp_variant :: "64 word \<Rightarrow> 64 word" where
  "stamp_variant b = (b AND 0x3FFFFFFFFFFFFFFF) OR 0x8000000000000000"

text \<open>A field of the output: \<open>std::setw(w) << ((x >> s) & m)\<close>.\<close>

definition uuid_field :: "nat \<Rightarrow> nat \<Rightarrow> 64 word \<Rightarrow> 64 word \<Rightarrow> string" where
  "uuid_field w s m x = hexw w (unat (drop_bit s x AND m))"

definition generate_uuid_v4 :: "64 word \<Rightarrow> 64 word \<Rightarrow> string" where
  "generate_uuid_v4 a0 b0 =
     (let a = stamp_version a0; b = stamp_variant b0 in
      uuid_field 8 32 0xFFFFFFFF a @ ''-'' @
      uuid_field 4 16 0xFFFF a @ ''-'' @
      uuid_field 4 0 0xFFFF a @ ''-'' @
      uuid_field 4 48 0xFFFF b @ ''-'' @
      uuid_field 12 0 0xFFFFFFFFFFFF b)"

section \<open>Fields\<close>

text \<open>The masks of the code are the low \<open>4 * w\<close> bits.\<close>

lemma field_value:
  fixes x :: "64 word"
  assumes "4 * w \<le> 64"
  shows "unat (drop_bit s x AND mask (4 * w)) < 16 ^ w"
proof -
  have "unat (take_bit (4 * w) (drop_bit s x)) < 2 ^ (4 * w)"
    by (simp add: unsigned_take_bit_eq)
  then show ?thesis
    by (simp add: take_bit_eq_mask power_mult)
qed

lemma mask_fields:
  "(0xFFFFFFFF :: 64 word) = mask (4 * 8)"
  "(0xFFFF :: 64 word) = mask (4 * 4)"
  "(0xFFFFFFFFFFFF :: 64 word) = mask (4 * 12)"
  by (simp_all add: mask_numeral mask_eq_exp_minus_1)

lemma length_uuid_field:
  "0 < w \<Longrightarrow> 4 * w \<le> 64 \<Longrightarrow> length (uuid_field w s (mask (4 * w)) x) = w"
  unfolding uuid_field_def by (intro length_hexw field_value)

lemma read_uuid_field: "read_base 16 (uuid_field w s m x) = unat (drop_bit s x AND m)"
  by (simp add: uuid_field_def read_hexw)

lemma uuid_field_inject:
  "uuid_field w s m x = uuid_field w s m y \<longleftrightarrow> drop_bit s x AND m = drop_bit s y AND m"
  by (metis read_uuid_field uuid_field_def word_unat_eq_iff)

lemma uuid_field_digits: "set (uuid_field w s m x) \<subseteq> set ''0123456789abcdef''"
  unfolding uuid_field_def by (rule hexw_digits)

text \<open>A padded field, digit by digit.\<close>

lemma hexw_Suc:
  assumes "0 < w"
  shows "hexw (Suc w) n = hexw w (n div 16) @ [digit_char (n mod 16)]"
proof (cases "n < 16")
  case True
  then have "show_base 16 n = [digit_char n]" "show_base 16 (n div 16) = [digit_char 0]"
    by (simp_all add: show_base.simps [of 16 n] show_base.simps [of 16 0])
  with True assms show ?thesis
    by (cases w) (auto simp: hexw_def pad0_def digit_char_def replicate_append_same)
next
  case False
  then show ?thesis
    by (simp add: hexw_def pad0_def show_base.simps [of 16 n])
qed

lemma hexw_1: "n < 16 \<Longrightarrow> hexw (Suc 0) n = [digit_char n]"
  by (simp add: hexw_def pad0_def show_base.simps [of 16 n])

lemma hexw_4:
  assumes "n < 16 ^ 4"
  shows "hexw 4 n = [digit_char (n div 4096), digit_char (n div 256 mod 16),
    digit_char (n div 16 mod 16), digit_char (n mod 16)]"
proof -
  have "hexw 4 n = hexw (Suc (Suc (Suc (Suc 0)))) n" by (simp add: eval_nat_numeral)
  moreover have "n div 16 div 16 div 16 < 16" using assms by simp
  ultimately show ?thesis by (simp add: hexw_Suc hexw_1 div_mult2_eq [symmetric])
qed

text \<open>The constants of the code, bit by bit.\<close>

lemma uuid_masks:
  "(0xFFFFFFFFFFFF0FFF :: 64 word) = NOT (push_bit 12 (mask 4))"
  "(0x3FFFFFFFFFFFFFFF :: 64 word) = mask 62"
  by (simp_all add: mask_eq_exp_minus_1)

lemma bit_two_power:
  fixes c :: int
  assumes "c = 2 ^ k"
  shows "bit c n \<longleftrightarrow> n = k"
  using assms by (auto simp: bit_exp_iff)

lemma uuid_bits:
  "bit (0x4000 :: int) n \<longleftrightarrow> n = 14"
  "bit (0x8000000000000000 :: int) n \<longleftrightarrow> n = 63"
  "bit (4 :: int) n \<longleftrightarrow> n = 2"
  "bit (2 :: int) n \<longleftrightarrow> n = 1"
  by (rule bit_two_power; simp)+

lemma version_bits: "drop_bit 12 (stamp_version a AND mask 16) = 4"
  unfolding stamp_version_def uuid_masks
  by (rule bit_word_eqI) (auto simp: bit_simps uuid_bits)

lemma variant_bits: "drop_bit 14 (drop_bit 48 (stamp_variant b) AND mask 16) = 2"
  unfolding stamp_variant_def uuid_masks
  by (rule bit_word_eqI) (auto simp: bit_simps uuid_bits)

lemma bits_of_low:
  fixes x y :: "64 word"
  assumes "drop_bit s x AND mask m = drop_bit s y AND mask m" "s \<le> n" "n < s + m"
  shows "bit x n = bit y n"
proof -
  have "bit (drop_bit s x AND mask m) (n - s) = bit (drop_bit s y AND mask m) (n - s)"
    using assms(1) by simp
  then show ?thesis
    using assms(2,3) by (cases "n < 64") (auto simp: bit_simps dest: bit_imp_le_length)
qed

lemma word_of_fields_a:
  fixes x y :: "64 word"
  assumes "drop_bit 32 x AND mask 32 = drop_bit 32 y AND mask 32"
    and "drop_bit 16 x AND mask 16 = drop_bit 16 y AND mask 16"
    and "drop_bit 0 x AND mask 16 = drop_bit 0 y AND mask 16"
  shows "x = y"
proof (rule bit_word_eqI)
  fix n assume "n < LENGTH(64)"
  then have "n < 64" by simp
  then consider "n < 16" | "16 \<le> n" "n < 32" | "32 \<le> n" "n < 64" by linarith
  then show "bit x n = bit y n"
    using bits_of_low [OF assms(1)] bits_of_low [OF assms(2)] bits_of_low [OF assms(3)]
    by cases simp_all
qed

lemma word_of_fields_b:
  fixes x y :: "64 word"
  assumes "drop_bit 48 x AND mask 16 = drop_bit 48 y AND mask 16"
    and "drop_bit 0 x AND mask 48 = drop_bit 0 y AND mask 48"
  shows "x = y"
proof (rule bit_word_eqI)
  fix n assume "n < LENGTH(64)"
  then have "n < 64" by simp
  then consider "n < 48" | "48 \<le> n" "n < 64" by linarith
  then show "bit x n = bit y n"
    using bits_of_low [OF assms(1)] bits_of_low [OF assms(2)] by cases simp_all
qed

lemma stamp_version_inject:
  "stamp_version a = stamp_version a' \<longleftrightarrow> a AND 0xFFFFFFFFFFFF0FFF = a' AND 0xFFFFFFFFFFFF0FFF"
proof
  assume eq: "stamp_version a = stamp_version a'"
  show "a AND 0xFFFFFFFFFFFF0FFF = a' AND 0xFFFFFFFFFFFF0FFF"
  proof (rule bit_word_eqI)
    fix n
    have "bit (stamp_version a) n = bit (stamp_version a') n" using eq by simp
    then show "bit (a AND 0xFFFFFFFFFFFF0FFF) n = bit (a' AND 0xFFFFFFFFFFFF0FFF) n"
      unfolding stamp_version_def uuid_masks by (auto simp: bit_simps uuid_bits)
  qed
qed (simp add: stamp_version_def)

lemma stamp_variant_inject:
  "stamp_variant b = stamp_variant b' \<longleftrightarrow> b AND 0x3FFFFFFFFFFFFFFF = b' AND 0x3FFFFFFFFFFFFFFF"
proof
  assume eq: "stamp_variant b = stamp_variant b'"
  show "b AND 0x3FFFFFFFFFFFFFFF = b' AND 0x3FFFFFFFFFFFFFFF"
  proof (rule bit_word_eqI)
    fix n
    have "bit (stamp_variant b) n = bit (stamp_variant b') n" using eq by simp
    then show "bit (b AND 0x3FFFFFFFFFFFFFFF) n = bit (b' AND 0x3FFFFFFFFFFFFFFF) n"
      unfolding stamp_variant_def uuid_masks by (auto simp: bit_simps uuid_bits)
  qed
qed (simp add: stamp_variant_def)


section \<open>The printed identifier\<close>

lemma uuid_field_def16:
  "uuid_field 4 s (mask 16) x = (let n = unat (drop_bit s x AND mask 16) in
     [digit_char (n div 4096), digit_char (n div 256 mod 16),
      digit_char (n div 16 mod 16), digit_char (n mod 16)])"
  using field_value [of 4 s x] by (simp add: uuid_field_def hexw_4 Let_def)

lemma length_fields [simp]:
  "length (uuid_field 8 s (mask 32) x) = 8"
  "length (uuid_field 4 s (mask 16) x) = 4"
  "length (uuid_field 12 s (mask 48) x) = 12"
  using length_uuid_field [of 8 s x] length_uuid_field [of 4 s x] length_uuid_field [of 12 s x]
  by simp_all

lemma generate_uuid_v4_mask:
  "generate_uuid_v4 a b =
     uuid_field 8 32 (mask 32) (stamp_version a) @ ''-'' @
     uuid_field 4 16 (mask 16) (stamp_version a) @ ''-'' @
     uuid_field 4 0 (mask 16) (stamp_version a) @ ''-'' @
     uuid_field 4 48 (mask 16) (stamp_variant b) @ ''-'' @
     uuid_field 12 0 (mask 48) (stamp_variant b)"
  unfolding generate_uuid_v4_def mask_fields Let_def by simp

text \<open>The shape of a version 4 identifier, as RFC 4122 prints it.\<close>

definition uuid_v4_shape :: "string \<Rightarrow> bool" where
  "uuid_v4_shape s \<longleftrightarrow>
     length s = 36 \<and>
     s ! 14 = CHR ''4'' \<and>
     s ! 19 \<in> set ''89ab'' \<and>
     (\<forall>i < 36. if i \<in> {8, 13, 18, 23} then s ! i = CHR ''-''
              else s ! i \<in> set ''0123456789abcdef'')"

lemma version_digit:
  "unat (drop_bit 0 (stamp_version a) AND mask 16) div 4096 = 4"
proof -
  have "unat (drop_bit 12 (stamp_version a AND mask 16)) = 4" by (simp only: version_bits) simp
  then have "drop_bit 12 (unat (stamp_version a AND mask 16)) = 4"
    by (simp only: unat_drop_bit_eq)
  then show ?thesis by (simp add: drop_bit_eq_div)
qed

lemma variant_digit:
  "unat (drop_bit 48 (stamp_variant b) AND mask 16) div 4096 \<in> {8, 9, 10, 11}"
proof -
  define n where "n = unat (drop_bit 48 (stamp_variant b) AND mask 16)"
  have "unat (drop_bit 14 (drop_bit 48 (stamp_variant b) AND mask 16)) = 2"
    by (simp only: variant_bits) simp
  then have "drop_bit 14 n = 2" by (simp only: unat_drop_bit_eq n_def)
  then have "n div 16384 = 2" by (simp add: drop_bit_eq_div)
  then have "n div 4096 div 4 = 2" by (simp add: div_mult2_eq [symmetric])
  then show ?thesis unfolding n_def [symmetric] by auto
qed

lemma digits_89ab: "d \<in> {8, 9, 10, 11} \<Longrightarrow> digit_char d \<in> set ''89ab''"
  by (auto simp: digit_char_def)

text \<open>An identifier is its five fields joined by hyphens.\<close>

lemma uuid_v4_shapeI:
  assumes s: "s = f1 @ ''-'' @ f2 @ ''-'' @ f3 @ ''-'' @ f4 @ ''-'' @ f5"
    and len: "length f1 = 8" "length f2 = 4" "length f3 = 4" "length f4 = 4" "length f5 = 12"
    and hex: "set f1 \<union> set f2 \<union> set f3 \<union> set f4 \<union> set f5 \<subseteq> set ''0123456789abcdef''"
    and ver: "f3 ! 0 = CHR ''4''" and var: "f4 ! 0 \<in> set ''89ab''"
  shows "uuid_v4_shape s"
proof -
  note at = s nth_append nth_Cons' len
  have f: "i < 8 \<Longrightarrow> s ! i = f1 ! i" "s ! 8 = CHR ''-''"
    "9 \<le> i \<Longrightarrow> i < 13 \<Longrightarrow> s ! i = f2 ! (i - 9)" "s ! 13 = CHR ''-''"
    "14 \<le> i \<Longrightarrow> i < 18 \<Longrightarrow> s ! i = f3 ! (i - 14)" "s ! 18 = CHR ''-''"
    "19 \<le> i \<Longrightarrow> i < 23 \<Longrightarrow> s ! i = f4 ! (i - 19)" "s ! 23 = CHR ''-''"
    "24 \<le> i \<Longrightarrow> i < 36 \<Longrightarrow> s ! i = f5 ! (i - 24)" for i
    by (auto simp: at)
  have h: "k < length g \<Longrightarrow> set g \<subseteq> set ''0123456789abcdef'' \<Longrightarrow>
      g ! k \<in> set ''0123456789abcdef''" for g k
    using nth_mem by blast
  have "s ! i \<in> set ''0123456789abcdef''" if "i < 36" "i \<notin> {8, 13, 18, 23}" for i
  proof -
    from that consider "i < 8" | "9 \<le> i" "i < 13" | "14 \<le> i" "i < 18" | "19 \<le> i" "i < 23"
      | "24 \<le> i" "i < 36" by fastforce
    then show ?thesis
      using hex by cases (simp_all only: f Un_subset_iff, (intro h; simp add: len)+)
  qed
  then have "\<forall>i < 36. if i \<in> {8, 13, 18, 23} then s ! i = CHR ''-''
      else s ! i \<in> set ''0123456789abcdef''" using f by auto
  moreover have "length s = 36" using len by (simp add: s)
  moreover have "s ! 14 = CHR ''4''" "s ! 19 \<in> set ''89ab''"
    using ver var f(5) [of 14] f(7) [of 19] by simp_all
  ultimately show ?thesis unfolding uuid_v4_shape_def by blast
qed

lemma generate_shape: "uuid_v4_shape (generate_uuid_v4 a b)"
proof (rule uuid_v4_shapeI [OF generate_uuid_v4_mask])
  show "uuid_field 4 0 (mask 16) (stamp_version a) ! 0 = CHR ''4''"
    by (simp add: uuid_field_def16 Let_def version_digit [simplified] digit_char_def)
  show "uuid_field 4 48 (mask 16) (stamp_variant b) ! 0 \<in> set ''89ab''"
    unfolding uuid_field_def16 Let_def using variant_digit [THEN digits_89ab]
    by (simp del: list.set)
  show "set (uuid_field 8 32 (mask 32) (stamp_version a)) \<union>
      set (uuid_field 4 16 (mask 16) (stamp_version a)) \<union>
      set (uuid_field 4 0 (mask 16) (stamp_version a)) \<union>
      set (uuid_field 4 48 (mask 16) (stamp_variant b)) \<union>
      set (uuid_field 12 0 (mask 48) (stamp_variant b)) \<subseteq> set ''0123456789abcdef''"
    by (intro Un_least uuid_field_digits)
qed simp_all

text \<open>
  C39. Every identifier the generator prints has the version 4 shape: 36 characters,
  hyphens at positions 8, 13, 18 and 23, lower-case hexadecimal digits elsewhere, the
  version digit 4 and a variant digit among 8, 9, a and b, whatever the two draws are.
\<close>
theorem generate_uuid_v4_shape: "uuid_v4_shape (generate_uuid_v4 a b)"
  by (rule generate_shape)

text \<open>
  No randomness is lost in printing: two identifiers are equal exactly when the
  draws agree outside the six bits the version and the variant overwrite, so the 122
  remaining bits of the draws determine the identifier and are determined by it.
\<close>
theorem generate_uuid_v4_inject:
  "generate_uuid_v4 a b = generate_uuid_v4 a' b' \<longleftrightarrow>
     a AND 0xFFFFFFFFFFFF0FFF = a' AND 0xFFFFFFFFFFFF0FFF \<and>
     b AND 0x3FFFFFFFFFFFFFFF = b' AND 0x3FFFFFFFFFFFFFFF"
  (is "?l \<longleftrightarrow> ?r")
proof
  assume ?l
  note fields = this [unfolded generate_uuid_v4_mask, simplified, unfolded uuid_field_inject]
  have "stamp_version a = stamp_version a'"
    by (rule word_of_fields_a) (use fields in blast)+
  moreover have "stamp_variant b = stamp_variant b'"
    by (rule word_of_fields_b) (use fields in blast)+
  ultimately have "stamp_version a = stamp_version a'" "stamp_variant b = stamp_variant b'"
    by simp_all
  then show ?r by (simp only: stamp_version_inject stamp_variant_inject)
next
  assume ?r
  then have "stamp_version a = stamp_version a'" "stamp_variant b = stamp_variant b'"
    by (simp_all only: stamp_version_inject stamp_variant_inject)
  then show ?l by (simp add: generate_uuid_v4_def)
qed

end
