(* ===== verification/Containers.thy ===== *)
theory Containers
  imports Prelude
begin

text \<open>
  \<open>std::unordered_map\<close> as the sources use it: \<open>find\<close>, \<open>operator[]\<close> on the left of
  an assignment, \<open>try_emplace\<close> and \<open>count\<close>. The elements are listed in iteration order
  (which the standard leaves open); keys are compared with the container's equality
  predicate \<open>eq\<close>. The locale \<open>key_equality\<close> is the contract the equality predicate
  owes the container, \<open>hashed_keys\<close> adds the contract of the hash function, under
  which looking only into the key's bucket finds the same element.
\<close>

named_theorems umap_simps \<open>lookups after the operations of an unordered map\<close>

fun um_find :: "('k \<Rightarrow> 'k \<Rightarrow> bool) \<Rightarrow> 'k \<Rightarrow> ('k \<times> 'v) list \<Rightarrow> 'v option" where
  "um_find eq k [] = None"
| "um_find eq k ((k', v) # m) = (if eq k' k then Some v else um_find eq k m)"

text \<open>\<open>m[k] = v\<close>, also the update of an element through the iterator \<open>find\<close> returned.\<close>

fun um_assign :: "('k \<Rightarrow> 'k \<Rightarrow> bool) \<Rightarrow> 'k \<Rightarrow> 'v \<Rightarrow> ('k \<times> 'v) list \<Rightarrow> ('k \<times> 'v) list" where
  "um_assign eq k v [] = [(k, v)]"
| "um_assign eq k v ((k', v') # m) =
     (if eq k' k then (k', v) # m else (k', v') # um_assign eq k v m)"

definition um_try_emplace :: "('k \<Rightarrow> 'k \<Rightarrow> bool) \<Rightarrow> 'k \<Rightarrow> 'v \<Rightarrow> ('k \<times> 'v) list \<Rightarrow> ('k \<times> 'v) list" where
  "um_try_emplace eq k v m = (case um_find eq k m of None \<Rightarrow> m @ [(k, v)] | Some _ \<Rightarrow> m)"

definition um_count :: "('k \<Rightarrow> 'k \<Rightarrow> bool) \<Rightarrow> 'k \<Rightarrow> ('k \<times> 'v) list \<Rightarrow> nat" where
  "um_count eq k m = (case um_find eq k m of None \<Rightarrow> 0 | Some _ \<Rightarrow> 1)"

text \<open>The container invariant: no two elements with equal keys.\<close>

fun um_wf :: "('k \<Rightarrow> 'k \<Rightarrow> bool) \<Rightarrow> ('k \<times> 'v) list \<Rightarrow> bool" where
  "um_wf eq [] \<longleftrightarrow> True"
| "um_wf eq ((k, v) # m) \<longleftrightarrow> um_find eq k m = None \<and> um_wf eq m"

text \<open>Lookup restricted to the bucket of the key, in a table of \<open>n\<close> buckets.\<close>

definition um_find_hashed ::
    "('k \<Rightarrow> 'k \<Rightarrow> bool) \<Rightarrow> ('k \<Rightarrow> nat) \<Rightarrow> nat \<Rightarrow> 'k \<Rightarrow> ('k \<times> 'v) list \<Rightarrow> 'v option" where
  "um_find_hashed eq hash n k m =
     um_find eq k (filter (\<lambda>(k', _). hash k' mod n = hash k mod n) m)"

lemma um_find_append:
  "um_find eq k (m @ m') = (case um_find eq k m of None \<Rightarrow> um_find eq k m' | Some v \<Rightarrow> Some v)"
  by (induction eq k m rule: um_find.induct) auto

lemma um_wf_append: "um_wf eq (m @ m') \<Longrightarrow> um_wf eq m"
  by (induction m) (auto simp: um_find_append split: option.splits)

lemma um_count_pos: "um_count eq k m \<noteq> 0 \<longleftrightarrow> um_find eq k m \<noteq> None"
  by (simp add: um_count_def split: option.splits)

lemma um_find_in: "um_find eq k m = Some v \<Longrightarrow> \<exists>k'. eq k' k \<and> (k', v) \<in> set m"
  by (induction eq k m rule: um_find.induct) (auto split: if_splits)

lemma um_assign_in:
  "(k', v') \<in> set (um_assign eq k v m) \<Longrightarrow> v' = v \<or> (k', v') \<in> set m"
  by (induction eq k v m rule: um_assign.induct) (auto split: if_splits)

section \<open>The contract of the key equality\<close>

locale key_equality =
  fixes eq :: "'k \<Rightarrow> 'k \<Rightarrow> bool"
  assumes eq_refl: "eq a a"
    and eq_sym: "eq a b \<Longrightarrow> eq b a"
    and eq_trans: "eq a b \<Longrightarrow> eq b c \<Longrightarrow> eq a c"
begin

lemma eq_right: "eq k k' \<Longrightarrow> eq a k \<longleftrightarrow> eq a k'"
  using eq_sym eq_trans by blast

lemma eq_right_neq: "\<not> eq k k' \<Longrightarrow> eq a k \<Longrightarrow> \<not> eq a k'"
  using eq_sym eq_trans by blast

lemma find_cong: "eq k k' \<Longrightarrow> um_find eq k m = um_find eq k' m"
  by (induction m) (auto simp: eq_right)

lemma find_assign:
  "um_find eq k' (um_assign eq k v m) = (if eq k k' then Some v else um_find eq k' m)"
proof (cases "eq k k'")
  case True
  then show ?thesis by (induction m) (auto simp: eq_right [OF True])
next
  case False
  then show ?thesis by (induction m) (auto simp: eq_right_neq [OF False])
qed

lemma find_try_emplace:
  "um_find eq k' (um_try_emplace eq k v m) =
     (if eq k k' \<and> um_find eq k m = None then Some v else um_find eq k' m)"
  using find_cong [of k k' m]
  by (cases "eq k k'") (auto simp: um_try_emplace_def um_find_append split: option.splits)

lemma wf_assign: "um_wf eq m \<Longrightarrow> um_wf eq (um_assign eq k v m)"
  by (induction m) (auto simp: find_assign eq_sym)

lemma wf_append:
  "um_wf eq m \<Longrightarrow> um_find eq k m = None \<Longrightarrow> um_wf eq (m @ [(k, v)])"
  by (induction m) (auto simp: um_find_append dest: eq_sym split: if_splits)

lemma wf_snoc_absent: "um_wf eq (m @ [(k, v)]) \<Longrightarrow> um_find eq k m = None"
proof (induction m)
  case (Cons x m)
  obtain k' v' where x: "x = (k', v')" by (cases x)
  with Cons.prems have "um_find eq k' (m @ [(k, v)]) = None" "um_wf eq (m @ [(k, v)])" by auto
  then have "\<not> eq k k'" by (auto simp: um_find_append split: option.splits if_splits)
  then have "\<not> eq k' k" using eq_sym by blast
  with Cons.IH \<open>um_wf eq (m @ [(k, v)])\<close> x show ?case by simp
qed simp

lemma wf_try_emplace: "um_wf eq m \<Longrightarrow> um_wf eq (um_try_emplace eq k v m)"
  by (auto simp: um_try_emplace_def wf_append split: option.splits)

lemma assign_absent: "um_find eq k m = None \<Longrightarrow> um_assign eq k v m = m @ [(k, v)]"
  by (induction m) (auto split: if_splits)

lemma find_in_wf: "um_wf eq m \<Longrightarrow> (k, v) \<in> set m \<Longrightarrow> um_find eq k m = Some v"
proof (induction m)
  case (Cons x m)
  obtain k' v' where x: "x = (k', v')" by (cases x)
  show ?case
  proof (cases "(k, v) = x")
    case True
    then show ?thesis using x by (simp add: eq_refl)
  next
    case False
    with Cons x have "um_find eq k m = Some v" "um_find eq k' m = None" by auto
    then have "\<not> eq k' k" using find_cong [of k' k m] by auto
    with \<open>um_find eq k m = Some v\<close> x show ?thesis by simp
  qed
qed simp

end

section \<open>The contract of the hash function\<close>

locale hashed_keys = key_equality eq for eq :: "'k \<Rightarrow> 'k \<Rightarrow> bool" +
  fixes hash :: "'k \<Rightarrow> nat"
  assumes hash_eq: "eq a b \<Longrightarrow> hash a = hash b"
begin

lemma find_hashed: "um_find_hashed eq hash n k m = um_find eq k m"
  unfolding um_find_hashed_def
proof (induction m)
  case (Cons x m)
  then show ?case by (cases x) (use hash_eq in fastforce)
qed simp

end

text \<open>\<open>std::equal_to<>\<close> on strings.\<close>

interpretation str: key_equality "(=) :: string \<Rightarrow> string \<Rightarrow> bool"
  by unfold_locales auto

declare str.find_assign [umap_simps] str.find_try_emplace [umap_simps]

end
