(* ===== verification/Message.thy ===== *)
theory Message
  imports Status Uuid Containers
begin

text \<open>
  \<open>src/src/server/.../http/http_message.h\<close> and \<open>http_message.cc\<close>: the
  case-insensitive header map, the method enumeration, requests, responses and the JSON
  envelope every built-in response carries. The state a call reads from its surroundings
  (the generator behind the UUIDs and the system clock) is the record \<open>world\<close>.
\<close>

section \<open>The surroundings: random draws and the clock\<close>

record world =
  draws :: "nat \<Rightarrow> 64 word"  \<comment> \<open>the outputs of \<open>std::mt19937_64\<close>, in order\<close>
  drawn :: nat               \<comment> \<open>how many have been used\<close>
  clock :: "nat \<Rightarrow> int"      \<comment> \<open>the readings of the system clock in milliseconds\<close>
  ticks :: nat               \<comment> \<open>how many have been taken\<close>

definition fresh_uuid :: "world \<Rightarrow> string \<times> world" where
  "fresh_uuid w =
     (generate_uuid_v4 (draws w (drawn w)) (draws w (drawn w + 1)), w\<lparr>drawn := drawn w + 2\<rparr>)"

definition get_timestamp_ms :: "world \<Rightarrow> int \<times> world" where
  "get_timestamp_ms w = (clock w (ticks w), w\<lparr>ticks := ticks w + 1\<rparr>)"

text \<open>Concrete surroundings for the examples.\<close>

definition sample_world :: world where
  "sample_world = \<lparr>draws = (\<lambda>i. word_of_nat i), drawn = 0, clock = int, ticks = 0\<rparr>"

section \<open>Header maps\<close>

definition CaseInsensitiveHash :: "(string \<Rightarrow> nat) \<Rightarrow> string \<Rightarrow> nat" where
  "CaseInsensitiveHash std_hash s = std_hash (map tolower s)"

definition CaseInsensitiveEqual :: "string \<Rightarrow> string \<Rightarrow> bool" where
  "CaseInsensitiveEqual a b =
     (if length a \<noteq> length b then False
      else list_all (\<lambda>(c1, c2). tolower c1 = tolower c2) (zip a b))"

type_synonym headers = "(string \<times> string) list"

lemma CaseInsensitiveEqual_lower: "CaseInsensitiveEqual a b \<longleftrightarrow> map tolower a = map tolower b"
proof (cases "length a = length b")
  case True
  then show ?thesis
    by (induction a b rule: list_induct2) (auto simp: CaseInsensitiveEqual_def)
next
  case False
  then show ?thesis by (auto simp: CaseInsensitiveEqual_def dest: map_eq_imp_length_eq)
qed

text \<open>
  The two function objects meet the contract of \<open>std::unordered_map\<close>, for any
  \<open>std::hash\<close>: an equivalence, and equal keys have equal hashes.
\<close>

interpretation ci: hashed_keys CaseInsensitiveEqual "CaseInsensitiveHash std_hash" for std_hash
  by unfold_locales (auto simp: CaseInsensitiveEqual_lower CaseInsensitiveHash_def)

declare ci.find_assign [umap_simps]

section \<open>Methods\<close>

datatype Method = GET | POST | PUT | DELETE | PATCH | UNKNOWN

fun method_num :: "Method \<Rightarrow> nat" where
  "method_num GET = 0"
| "method_num POST = 1"
| "method_num PUT = 2"
| "method_num DELETE = 3"
| "method_num PATCH = 4"
| "method_num UNKNOWN = 5"

fun method_string :: "Method \<Rightarrow> string" where
  "method_string GET = ''GET''"
| "method_string POST = ''POST''"
| "method_string PUT = ''PUT''"
| "method_string DELETE = ''DELETE''"
| "method_string PATCH = ''PATCH''"
| "method_string UNKNOWN = ''UNKNOWN''"

definition to_method :: "string \<Rightarrow> Method" where
  "to_method s =
     (if length s > 6 then UNKNOWN
      else let lower = map tolower s in
        if lower = ''get'' then GET
        else if lower = ''post'' then POST
        else if lower = ''put'' then PUT
        else if lower = ''delete'' then DELETE
        else if lower = ''patch'' then PATCH
        else UNKNOWN)"

section \<open>Messages\<close>

text \<open>
  The values of \<open>nlohmann::ordered_json\<close> (objects keep the order of insertion). Its
  parser and printer are third-party code and appear as parameters where they are used.
\<close>

datatype json =
    JNull | JBool bool | JInt int | JFloat "64 word" | JString string
  | JArray "json list" | JObject "(string \<times> json) list"

record Request =
  req_id :: string
  req_method :: Method
  req_path :: string
  req_version :: string
  req_headers :: headers
  req_body :: json

record Response =
  resp_status :: http
  resp_headers :: headers
  resp_body :: json

text \<open>The default-constructed request.\<close>

definition empty_request :: Request where
  "empty_request = \<lparr>req_id = [], req_method = UNKNOWN, req_path = ''none'',
     req_version = ''HTTP/1.1'', req_headers = [], req_body = JNull\<rparr>"

definition makeResp :: "retCode \<Rightarrow> string \<Rightarrow> json \<Rightarrow> world \<Rightarrow> Response \<times> world" where
  "makeResp retcode rid result w =
     (let (t, w') = get_timestamp_ms w in
      (\<lparr>resp_status = to_http_status retcode,
        resp_headers = [(''X-Request-Id'', rid)],
        resp_body = JObject [
          (''retCode'', JInt (int (retcode_num retcode))),
          (''retMesg'', JString (retMesg retcode)),
          (''time'', JInt t),
          (''result'', result)]\<rparr>, w'))"

text \<open>The overload without an identifier.\<close>

definition makeResp_fresh :: "retCode \<Rightarrow> json \<Rightarrow> world \<Rightarrow> Response \<times> world" where
  "makeResp_fresh retcode result w =
     (let (rid, w') = fresh_uuid w in makeResp retcode rid result w')"

section \<open>Facts\<close>

lemma makeResp_simps [simp]:
  "resp_status (fst (makeResp c rid r w)) = to_http_status c"
  "resp_headers (fst (makeResp c rid r w)) = [(''X-Request-Id'', rid)]"
  by (simp_all add: makeResp_def get_timestamp_ms_def)

lemma makeResp_fresh_status [simp]:
  "resp_status (fst (makeResp_fresh c r w)) = to_http_status c"
  by (simp add: makeResp_fresh_def fresh_uuid_def)

lemma ci_lower_names:
  "map tolower ''GET'' = ''get''" "map tolower ''POST'' = ''post''"
  "map tolower ''PUT'' = ''put''" "map tolower ''DELETE'' = ''delete''"
  "map tolower ''PATCH'' = ''patch''"
  by code_simp+

lemma to_method_lower:
  assumes "m \<noteq> UNKNOWN"
  shows "to_method s = m \<longleftrightarrow> map tolower s = map tolower (method_string m)"
proof (cases "length s > 6")
  case True
  have "length (method_string m) \<le> 6" using assms by (cases m) simp_all
  with True have "map tolower s \<noteq> map tolower (method_string m)"
    by (metis length_map not_le)
  with True assms show ?thesis by (auto simp: to_method_def)
next
  case False
  with assms show ?thesis
    by (cases m) (simp_all only: ci_lower_names method_string.simps, auto simp: to_method_def Let_def)
qed

text \<open>
  Header lookup ignores capitalisation and an assignment is seen by every spelling of
  its name: after \<open>headers[key] = value\<close>, a lookup of any case variant of \<open>key\<close> gives
  \<open>value\<close> and every other name is unaffected, also when the container looks only into
  the bucket chosen by \<open>CaseInsensitiveHash\<close>, for every bucket count and every \<open>std::hash\<close>.
\<close>
theorem header_lookup_after_assign:
  "um_find_hashed CaseInsensitiveEqual (CaseInsensitiveHash std_hash) n name
      (um_assign CaseInsensitiveEqual key val hs) =
   (if map tolower key = map tolower name then Some val
    else um_find CaseInsensitiveEqual name hs)"
  by (simp add: ci.find_hashed ci.find_assign CaseInsensitiveEqual_lower)

text \<open>
  \<open>to_method\<close> accepts exactly the case variants of the five method names: it
  returns a supported method if and only if the token equals that method's name up to case.
\<close>
theorem to_method_exact:
  assumes "m \<noteq> UNKNOWN"
  shows "to_method s = m \<longleftrightarrow> CaseInsensitiveEqual s (method_string m)"
  using assms by (simp add: to_method_lower CaseInsensitiveEqual_lower)

theorem to_method_exact_witness:
  "to_method ''Delete'' = DELETE \<longleftrightarrow> CaseInsensitiveEqual ''Delete'' (method_string DELETE)"
  by (rule to_method_exact) simp

text \<open>
  The envelope of a built-in response: its status is the one documented for the result
  code, its \<open>X-Request-Id\<close> header (under any capitalisation) is the identifier passed
  in, and its body is the object \<open>retCode, retMesg, time, result\<close> in this order, with
  the numeric code, its text, one reading of the clock and the given result.
\<close>
theorem makeResp_envelope:
  "let (resp, w') = makeResp c rid result w in
     http_code (resp_status resp) = documented_status c \<and>
     um_find CaseInsensitiveEqual ''x-request-id'' (resp_headers resp) = Some rid \<and>
     resp_body resp = JObject [(''retCode'', JInt (int (retcode_num c))),
       (''retMesg'', JString (retMesg c)), (''time'', JInt (clock w (ticks w))),
       (''result'', result)] \<and>
     ticks w' = ticks w + 1 \<and> drawn w' = drawn w"
proof -
  have "map tolower ''X-Request-Id'' = map tolower ''x-request-id''" by code_simp
  then show ?thesis
    by (simp add: makeResp_def get_timestamp_ms_def CaseInsensitiveEqual_lower del: list.map)
qed

end
