(* ===== verification/RoutingTree.thy ===== *)
theory RoutingTree
  imports Message
begin

text \<open>
  \<open>src/src/routing/include/project/routing/routing_tree.h\<close>: the routing tree, five
  nested hash maps (one per method) whose edges are path segments. A \<open>Handler\<close> is a
  \<open>std::function\<close>, which may be empty: \<open>'h option\<close>. Positions in a path are indices,
  the end iterator is its length. The walk down the tree through \<open>target_map\<close> is a
  recursion that returns the map it updated.
\<close>

section \<open>The tree\<close>

datatype 'h rnode = RNode (node_h: "'h option") (node_hm: "(string \<times> 'h rnode) list")

type_synonym 'h hashmap = "(string \<times> 'h rnode) list"

record 'h routing_tree =
  root :: "'h hashmap list"

definition kNumHTTPMethods :: nat where
  "kNumHTTPMethods = 5"

definition make_root :: "'h hashmap list" where
  "make_root = replicate kNumHTTPMethods []"

definition rt_new :: "'h routing_tree" where
  "rt_new = \<lparr>root = make_root\<rparr>"

text \<open>The \<open>string_view\<close> between two positions.\<close>

definition slice :: "string \<Rightarrow> nat \<Rightarrow> nat \<Rightarrow> string" where
  "slice s b e = take (e - b) (drop b s)"

definition set_elem :: "'h hashmap \<Rightarrow> string \<Rightarrow> 'h option \<Rightarrow> bool \<times> 'h hashmap" where
  "set_elem m elem h =
     (case um_find (=) elem m of
        Some rnode \<Rightarrow>
          if node_h rnode \<noteq> None then (False, m)
          else (True, um_assign (=) elem (RNode h (node_hm rnode)) m)
      | None \<Rightarrow> (True, um_try_emplace (=) elem (RNode h []) m))"

text \<open>
  The \<open>while\<close> loop of \<open>add\<close> with the final \<open>set_elem\<close>: \<open>sb\<close> is \<open>slash_beg\<close>,
  \<open>se\<close> is \<open>slash_end\<close>, \<open>m\<close> is the map \<open>target_map\<close> points to.
\<close>

function add_walk :: "string \<Rightarrow> nat \<Rightarrow> nat \<Rightarrow> 'h hashmap \<Rightarrow> 'h option \<Rightarrow> bool \<times> 'h hashmap" where
  "add_walk path sb se m h =
     (if se < length path then
        let elem = slice path (sb + 1) se; se' = char_find path (se + 1) CHR ''/'' in
        case um_find (=) elem m of
          Some node \<Rightarrow>
            (let (r, m') = add_walk path se se' (node_hm node) h
             in (r, um_assign (=) elem (RNode (node_h node) m') m))
        | None \<Rightarrow>
            (let (r, m') = add_walk path se se' [] h
             in (r, um_try_emplace (=) elem (RNode None m') m))
      else set_elem m (slice path (sb + 1) se) h)"
  by pat_completeness auto
termination
  by (relation "measure (\<lambda>(path, sb, se, m, h). length path - se)") (auto simp: char_find_def)

declare add_walk.simps [simp del]

definition rt_add ::
    "'h routing_tree \<Rightarrow> Method \<Rightarrow> string \<Rightarrow> 'h option \<Rightarrow> bool \<times> 'h routing_tree" where
  "rt_add t mtd path h =
     (let idx = method_num mtd in
      if idx \<ge> length (root t) then (False, t)
      else let m = root t ! idx in
        if length path = 0 then (False, t)
        else if length path = 1 then
          (if path ! 0 \<noteq> CHR ''/'' then (False, t)
           else let (r, m') = set_elem m path h in (r, t\<lparr>root := (root t)[idx := m']\<rparr>))
        else
          (let slash_beg = char_find path 0 CHR ''/'' in
           if slash_beg = length path then (False, t)
           else let slash_end = char_find path (slash_beg + 1) CHR ''/'';
                    (r, m') = add_walk path slash_beg slash_end m h
                in (r, t\<lparr>root := (root t)[idx := m']\<rparr>)))"

text \<open>The loop of \<open>get\<close>.\<close>

function get_walk :: "string \<Rightarrow> nat \<Rightarrow> nat \<Rightarrow> 'h hashmap \<Rightarrow> 'h option" where
  "get_walk path sb se m =
     (if se < length path then
        (case um_find (=) (slice path (sb + 1) se) m of
           Some node \<Rightarrow> get_walk path se (char_find path (se + 1) CHR ''/'') (node_hm node)
         | None \<Rightarrow> None)
      else
        (case um_find (=) (slice path (sb + 1) se) m of
           None \<Rightarrow> None
         | Some node \<Rightarrow> node_h node))"
  by pat_completeness auto
termination
  by (relation "measure (\<lambda>(path, sb, se, m). length path - se)") (auto simp: char_find_def)

declare get_walk.simps [simp del]

definition rt_get :: "'h routing_tree \<Rightarrow> Method \<Rightarrow> string \<Rightarrow> 'h option" where
  "rt_get t mtd path =
     (let idx = method_num mtd in
      if idx \<ge> length (root t) then None
      else let m = root t ! idx in
        if length path = 0 then None
        else if length path = 1 then
          (case um_find (=) path m of None \<Rightarrow> None | Some node \<Rightarrow> node_h node)
        else
          (let slash_beg = char_find path 0 CHR ''/'' in
           if slash_beg = length path then None
           else get_walk path slash_beg (char_find path (slash_beg + 1) CHR ''/'') m))"

section \<open>The specification: a table keyed by segments\<close>

fun split_slash :: "string \<Rightarrow> string list" where
  "split_slash [] = [[]]"
| "split_slash (c # cs) =
     (if c = CHR ''/'' then [] # split_slash cs
      else case split_slash cs of [] \<Rightarrow> [[c]] | x # xs \<Rightarrow> (c # x) # xs)"

text \<open>
  The key of a path. A path of one character is its own key; a longer one must contain a
  slash and is keyed by the segments after its first slash.
\<close>

definition route_key :: "string \<Rightarrow> string list option" where
  "route_key path =
     (if path = [] then None
      else if length path = 1 then Some [path]
      else if CHR ''/'' \<notin> set path then None
      else Some (split_slash (tl (dropWhile (\<lambda>c. c \<noteq> CHR ''/'') path))))"

text \<open>The paths \<open>add\<close> accepts.\<close>

definition registrable :: "string \<Rightarrow> bool" where
  "registrable path \<longleftrightarrow> CHR ''/'' \<in> set path"

fun put_segs :: "string list \<Rightarrow> 'h hashmap \<Rightarrow> 'h option \<Rightarrow> bool \<times> 'h hashmap" where
  "put_segs [] m h = (False, m)"
| "put_segs [e] m h = set_elem m e h"
| "put_segs (e # es) m h =
     (case um_find (=) e m of
        Some node \<Rightarrow> (let (r, m') = put_segs es (node_hm node) h
                      in (r, um_assign (=) e (RNode (node_h node) m') m))
      | None \<Rightarrow> (let (r, m') = put_segs es [] h
                  in (r, um_try_emplace (=) e (RNode None m') m)))"

fun look_segs :: "string list \<Rightarrow> 'h hashmap \<Rightarrow> 'h option" where
  "look_segs [] m = None"
| "look_segs [e] m = (case um_find (=) e m of None \<Rightarrow> None | Some node \<Rightarrow> node_h node)"
| "look_segs (e # es) m =
     (case um_find (=) e m of None \<Rightarrow> None | Some node \<Rightarrow> look_segs es (node_hm node))"

lemma split_slash_nonempty [simp]: "split_slash s \<noteq> []"
  by (induction s) (auto split: list.splits)

lemma split_slash_segment:
  "split_slash s =
     (let k = length (takeWhile (\<lambda>c. c \<noteq> CHR ''/'') s) in
      if k < length s then take k s # split_slash (drop (k + 1) s) else [s])"
proof (induction s)
  case (Cons c s)
  then show ?case by (cases "c = CHR ''/''") (auto simp: Let_def)
qed simp

section \<open>The index walks are walks over the segments\<close>

lemma char_find_le: "pos \<le> length s \<Longrightarrow> char_find s pos c \<le> length s"
  using length_takeWhile_le [of "\<lambda>x. x \<noteq> c" "drop pos s"] by (simp add: char_find_def)

text \<open>One step of either loop: the segment before the next slash, and the rest.\<close>

lemma split_at_next_slash:
  assumes "b \<le> length path"
  shows "split_slash (drop b path) =
    (let e = char_find path b CHR ''/'' in
     if e < length path then slice path b e # split_slash (drop (e + 1) path)
     else [slice path b e])"
proof -
  let ?k = "length (takeWhile (\<lambda>c. c \<noteq> CHR ''/'') (drop b path))"
  have "?k \<le> length path - b" using length_takeWhile_le by (metis length_drop)
  with assms show ?thesis
    by (subst split_slash_segment) (auto simp: char_find_def slice_def Let_def add.commute)
qed

lemma put_segs_Cons:
  "es \<noteq> [] \<Longrightarrow> put_segs (e # es) m h =
     (case um_find (=) e m of
        Some node \<Rightarrow> (let (r, m') = put_segs es (node_hm node) h
                      in (r, um_assign (=) e (RNode (node_h node) m') m))
      | None \<Rightarrow> (let (r, m') = put_segs es [] h
                  in (r, um_try_emplace (=) e (RNode None m') m)))"
  by (cases es) auto

lemma look_segs_Cons:
  "es \<noteq> [] \<Longrightarrow> look_segs (e # es) m =
     (case um_find (=) e m of None \<Rightarrow> None | Some node \<Rightarrow> look_segs es (node_hm node))"
  by (cases es) auto

lemma look_segs_empty [simp]: "look_segs es [] = None"
  by (cases es; cases "tl es") auto

lemma add_walk_segs:
  assumes "sb < length path" "se = char_find path (sb + 1) CHR ''/''"
  shows "add_walk path sb se m h = put_segs (split_slash (drop (sb + 1) path)) m h"
  using assms
proof (induction path sb se m h rule: add_walk.induct)
  case (1 path sb se m h)
  then have split: "split_slash (drop (sb + 1) path) =
      (if se < length path then slice path (sb + 1) se # split_slash (drop (se + 1) path)
       else [slice path (sb + 1) se])"
    using split_at_next_slash [of "sb + 1" path] by (simp add: Let_def)
  show ?case
  proof (cases "se < length path")
    case True
    let ?s = "char_find path (se + 1) CHR ''/''" and ?es = "split_slash (drop (se + 1) path)"
    have "add_walk path se ?s (node_hm node) h = put_segs ?es (node_hm node) h"
      if "um_find (=) (slice path (sb + 1) se) m = Some node" for node
      using "1.IH" True that by simp
    moreover have "add_walk path se ?s [] h = put_segs ?es [] h"
      if "um_find (=) (slice path (sb + 1) se) m = None"
      using "1.IH" True that by simp
    ultimately show ?thesis
      using True by (subst add_walk.simps) (simp add: split [simplified] put_segs_Cons Let_def split: option.split)
  next
    case False
    then show ?thesis by (subst add_walk.simps) (simp add: split [simplified])
  qed
qed

lemma get_walk_segs:
  assumes "sb < length path" "se = char_find path (sb + 1) CHR ''/''"
  shows "get_walk path sb se m = look_segs (split_slash (drop (sb + 1) path)) m"
  using assms
proof (induction path sb se m rule: get_walk.induct)
  case (1 path sb se m)
  then have split: "split_slash (drop (sb + 1) path) =
      (if se < length path then slice path (sb + 1) se # split_slash (drop (se + 1) path)
       else [slice path (sb + 1) se])"
    using split_at_next_slash [of "sb + 1" path] by (simp add: Let_def)
  show ?case
  proof (cases "se < length path")
    case True
    then have "get_walk path se (char_find path (se + 1) CHR ''/'') (node_hm node) =
        look_segs (split_slash (drop (se + 1) path)) (node_hm node)"
      if "um_find (=) (slice path (sb + 1) se) m = Some node" for node
      using "1.IH" that by simp
    with True show ?thesis
      by (subst get_walk.simps) (simp add: split [simplified] look_segs_Cons split: option.split)
  next
    case False
    then show ?thesis by (subst get_walk.simps) (simp add: split [simplified])
  qed
qed

lemma char_find_slash:
  "char_find path 0 c = length path \<longleftrightarrow> c \<notin> set path"
  by (induction path) (auto simp: char_find_def)

lemma drop_after_slash:
  "drop (char_find path 0 c + 1) path = tl (dropWhile (\<lambda>x. x \<noteq> c) path)"
  by (simp add: char_find_def dropWhile_eq_drop drop_Suc tl_drop)

text \<open>\<open>get\<close> and \<open>add\<close> by key.\<close>

definition supported :: "'h routing_tree \<Rightarrow> Method \<Rightarrow> bool" where
  "supported t mtd \<longleftrightarrow> method_num mtd < length (root t)"

lemma rt_get_key:
  "rt_get t mtd path =
     (case route_key path of
        Some k \<Rightarrow> if supported t mtd then look_segs k (root t ! method_num mtd) else None
      | None \<Rightarrow> None)"
proof -
  have "char_find path 0 CHR ''/'' < length path" if "CHR ''/'' \<in> set path"
    using that by (metis char_find_slash char_find_le le0 le_neq_implies_less)
  then show ?thesis
    using get_walk_segs [OF _ refl, of "char_find path 0 CHR ''/''" path "root t ! method_num mtd"]
    by (auto simp: rt_get_def route_key_def supported_def Let_def char_find_slash
        drop_after_slash [simplified] split: option.splits)
qed

lemma registrable_key: "registrable path \<Longrightarrow> \<exists>k. route_key path = Some k \<and> k \<noteq> []"
  by (auto simp: registrable_def route_key_def)

lemma rt_add_key:
  "rt_add t mtd path h =
     (if registrable path \<and> supported t mtd then
        let (r, m') = put_segs (the (route_key path)) (root t ! method_num mtd) h
        in (r, t\<lparr>root := (root t)[method_num mtd := m']\<rparr>)
      else (False, t))"
proof -
  have "char_find path 0 CHR ''/'' < length path" if "CHR ''/'' \<in> set path"
    using that by (metis char_find_slash char_find_le le0 le_neq_implies_less)
  moreover have "path ! 0 = CHR ''/'' \<longleftrightarrow> CHR ''/'' \<in> set path" if "length path = 1"
    using that by (cases path) auto
  ultimately show ?thesis
    using add_walk_segs [OF _ refl, of "char_find path 0 CHR ''/''" path "root t ! method_num mtd" h]
    by (auto simp: rt_add_def route_key_def supported_def registrable_def Let_def char_find_slash
        drop_after_slash [simplified] split: option.splits)
qed

section \<open>Laws of the segment walks\<close>

lemma um_assign_same:
  "um_find (=) e m = Some v \<Longrightarrow> um_assign (=) e v m = m"
  by (induction m) (auto split: if_splits)

lemma set_elem_fst:
  "fst (set_elem m e h) \<longleftrightarrow> (case um_find (=) e m of None \<Rightarrow> True | Some n \<Rightarrow> node_h n = None)"
  by (auto simp: set_elem_def split: option.splits)

lemma set_elem_result: "fst (set_elem m e h) \<longleftrightarrow> look_segs [e] m = None"
  by (auto simp: set_elem_def split: option.splits)

lemma set_elem_fail: "\<not> fst (set_elem m e h) \<Longrightarrow> snd (set_elem m e h) = m"
  by (auto simp: set_elem_def split: option.splits if_splits)

lemma find_set_elem:
  "um_find (=) e' (snd (set_elem m e h)) =
     (if fst (set_elem m e h) \<and> e = e'
      then Some (RNode h (case um_find (=) e m of None \<Rightarrow> [] | Some n \<Rightarrow> node_hm n))
      else um_find (=) e' m)"
  by (auto simp: set_elem_def umap_simps split: option.splits)

lemma put_segs_result: "es \<noteq> [] \<Longrightarrow> fst (put_segs es m h) \<longleftrightarrow> look_segs es m = None"
  by (induction es m h rule: put_segs.induct)
     (auto simp: set_elem_result Let_def split: option.splits prod.splits)

lemma put_segs_fail: "\<not> fst (put_segs es m h) \<Longrightarrow> snd (put_segs es m h) = m"
proof (induction es m h rule: put_segs.induct)
  case (3 e e' es m h)
  show ?case
  proof (cases "um_find (=) e m")
    case None
    with 3 show ?thesis
      using put_segs_result [of "e' # es" "[]" h] by (auto simp: Let_def split: prod.splits)
  next
    case (Some node)
    with 3 have "snd (put_segs (e' # es) (node_hm node) h) = node_hm node"
      by (auto simp: Let_def split: prod.splits)
    with Some show ?thesis by (auto simp: Let_def um_assign_same split: prod.splits)
  qed
qed (simp_all add: set_elem_fail)

text \<open>The node a walk leaves at the first segment.\<close>

lemma find_put_segs_Cons:
  assumes "es \<noteq> []"
  shows "um_find (=) e' (snd (put_segs (e # es) m h)) =
    (if e = e' then Some (case um_find (=) e m of
        Some node \<Rightarrow> RNode (node_h node) (snd (put_segs es (node_hm node) h))
      | None \<Rightarrow> RNode None (snd (put_segs es [] h)))
     else um_find (=) e' m)"
  using assms by (auto simp: put_segs_Cons umap_simps Let_def split: option.splits prod.splits)

lemma look_put_segs:
  "es \<noteq> [] \<Longrightarrow> look_segs fs (snd (put_segs es m h)) =
     (if fst (put_segs es m h) \<and> fs = es then h else look_segs fs m)"
proof (induction es m h arbitrary: fs rule: put_segs.induct)
  case (2 e m h)
  show ?case
    by (cases fs; cases "tl fs")
       (auto simp: find_set_elem set_elem_fst look_segs_Cons split: option.splits)
next
  case (3 e e' es m h)
  show ?case
  proof (cases fs)
    case (Cons f fs')
    have IH: "look_segs gs (snd (put_segs (e' # es) (case um_find (=) e m of Some n \<Rightarrow> node_hm n | None \<Rightarrow> []) h)) =
      (if fst (put_segs (e # e' # es) m h) \<and> gs = e' # es then h
       else look_segs gs (case um_find (=) e m of Some n \<Rightarrow> node_hm n | None \<Rightarrow> []))" for gs
      using 3 by (auto simp: Let_def split: option.splits prod.splits)
    show ?thesis
      using IH [of fs'] Cons
      by (cases fs') (auto simp del: put_segs.simps simp: find_put_segs_Cons look_segs_Cons
            split: option.splits)
  qed simp
qed simp

section \<open>The tree's invariant\<close>

text \<open>Every map of the tree has distinct keys, and the root has one map per method.\<close>

fun node_wf :: "'h rnode \<Rightarrow> bool" where
  "node_wf (RNode h m) \<longleftrightarrow> um_wf (=) m \<and> (\<forall>x \<in> set m. node_wf (snd x))"

definition map_wf :: "'h hashmap \<Rightarrow> bool" where
  "map_wf m \<longleftrightarrow> um_wf (=) m \<and> (\<forall>x \<in> set m. node_wf (snd x))"

definition rt_wf :: "'h routing_tree \<Rightarrow> bool" where
  "rt_wf t \<longleftrightarrow> length (root t) = kNumHTTPMethods \<and> (\<forall>m \<in> set (root t). map_wf m)"

lemma node_wf_map: "node_wf (RNode h m) \<longleftrightarrow> map_wf m"
  by (simp add: map_wf_def)

lemma map_wf_find: "map_wf m \<Longrightarrow> um_find (=) e m = Some n \<Longrightarrow> map_wf (node_hm n)"
  by (cases n) (force simp: map_wf_def dest!: um_find_in)

lemma map_wf_assign: "map_wf m \<Longrightarrow> map_wf m' \<Longrightarrow> map_wf (um_assign (=) e (RNode h m') m)"
  by (fastforce simp: map_wf_def str.wf_assign dest: um_assign_in)

lemma map_wf_emplace: "map_wf m \<Longrightarrow> map_wf m' \<Longrightarrow> map_wf (um_try_emplace (=) e (RNode h m') m)"
  using str.wf_try_emplace [of m e "RNode h m'"]
  by (auto simp: map_wf_def um_try_emplace_def split: option.splits)

lemma map_wf_empty [simp]: "map_wf []"
  by (simp add: map_wf_def)

lemma set_elem_wf: "map_wf m \<Longrightarrow> map_wf (snd (set_elem m e h))"
  by (auto simp: set_elem_def map_wf_emplace intro!: map_wf_assign dest: map_wf_find split: option.splits)

lemma put_segs_wf: "map_wf m \<Longrightarrow> map_wf (snd (put_segs es m h))"
proof (induction es m h rule: put_segs.induct)
  case (3 e e' es m h)
  show ?case
  proof (cases "um_find (=) e m")
    case None
    with 3 show ?thesis by (auto simp: Let_def map_wf_emplace split: prod.splits)
  next
    case (Some node)
    with "3.prems" have "map_wf (node_hm node)" by (rule map_wf_find)
    with 3 Some show ?thesis by (auto simp: Let_def map_wf_assign split: prod.splits)
  qed
qed (simp_all add: set_elem_wf)

lemma method_num_inject [simp]: "method_num a = method_num b \<longleftrightarrow> a = b"
  by (cases a; cases b) simp_all

lemma supported_wf: "rt_wf t \<Longrightarrow> supported t mtd \<longleftrightarrow> mtd \<noteq> UNKNOWN"
  by (cases mtd) (simp_all add: supported_def rt_wf_def kNumHTTPMethods_def)

lemma rt_wf_new: "rt_wf rt_new"
  by (simp add: rt_wf_def rt_new_def make_root_def)

lemma rt_add_wf: "rt_wf t \<Longrightarrow> rt_wf (snd (rt_add t mtd path h))"
  by (auto simp: rt_add_key rt_wf_def supported_def Let_def split: prod.splits
      dest!: set_update_subset_insert [THEN subsetD] intro: put_segs_wf [of _ _ h] dest: nth_mem)
     (metis nth_mem put_segs_wf snd_conv)

section \<open>The interface of a route registry\<close>

text \<open>
  What the rest of the program relies on (\<open>RouterBase\<close> in \<open>router.h\<close>): registrations
  that report success, lookups, and a notion of when two paths name the same route.
\<close>

fun add_all :: "('t \<Rightarrow> Method \<Rightarrow> string \<Rightarrow> 'h option \<Rightarrow> bool \<times> 't) \<Rightarrow> 't \<Rightarrow>
    (Method \<times> string \<times> 'h option) list \<Rightarrow> bool list \<times> 't" where
  "add_all add t [] = ([], t)"
| "add_all add t ((m, p, h) # rs) =
     (let (r, t') = add t m p h; (bs, t'') = add_all add t' rs in (r # bs, t''))"

text \<open>The handler of the first acceptable registration of a route.\<close>

definition first_handler ::
    "(Method \<Rightarrow> string \<Rightarrow> bool) \<Rightarrow> (string \<Rightarrow> 'k option) \<Rightarrow> (Method \<times> string \<times> 'h option) list \<Rightarrow>
     Method \<Rightarrow> string \<Rightarrow> 'h option" where
  "first_handler acc key rs m p =
     (case find (\<lambda>(m', p', h). h \<noteq> None \<and> acc m' p' \<and> m' = m \<and> key p' = key p) rs of
        None \<Rightarrow> None | Some (_, _, h) \<Rightarrow> h)"

locale route_registry =
  fixes add :: "'t \<Rightarrow> Method \<Rightarrow> string \<Rightarrow> 'h option \<Rightarrow> bool \<times> 't"
    and get :: "'t \<Rightarrow> Method \<Rightarrow> string \<Rightarrow> 'h option"
    and key :: "string \<Rightarrow> 'k option"
    and acc :: "Method \<Rightarrow> string \<Rightarrow> bool"
    and inv :: "'t \<Rightarrow> bool"
  assumes inv_add: "inv t \<Longrightarrow> inv (snd (add t m p h))"
    and add_result: "inv t \<Longrightarrow> fst (add t m p h) \<longleftrightarrow> acc m p \<and> get t m p = None"
    and get_add: "inv t \<Longrightarrow> get (snd (add t m p h)) m' p' =
      (if fst (add t m p h) \<and> m' = m \<and> key p' = key p then h else get t m' p')"
    and add_failed: "inv t \<Longrightarrow> \<not> fst (add t m p h) \<Longrightarrow> snd (add t m p h) = t"
    and get_key: "key p = key p' \<Longrightarrow> get t m p = get t m p'"
begin

lemma registered_stays:
  "inv t \<Longrightarrow> get t m p = Some h \<Longrightarrow> get (snd (add t m' p' h')) m p = Some h"
  using get_key [of p p' t m] by (auto simp: get_add add_result)

lemma snd_add_all_Cons:
  "snd (add_all add t ((m, p, h) # rs)) = snd (add_all add (snd (add t m p h)) rs)"
  by (auto split: prod.splits)

lemma inv_add_all: "inv t \<Longrightarrow> inv (snd (add_all add t rs))"
proof (induction rs arbitrary: t)
  case (Cons r rs)
  obtain m p h where "r = (m, p, h)" by (cases r)
  with Cons show ?case by (simp only: snd_add_all_Cons inv_add)
qed simp

lemma add_all_stays:
  "inv t \<Longrightarrow> get t m p = Some h \<Longrightarrow> get (snd (add_all add t rs)) m p = Some h"
proof (induction rs arbitrary: t)
  case (Cons r rs)
  obtain m' p' h' where "r = (m', p', h')" by (cases r)
  with Cons show ?case by (simp only: snd_add_all_Cons inv_add registered_stays)
qed simp

lemma first_registration_wins:
  "inv t \<Longrightarrow> get t m p = None \<Longrightarrow>
   get (snd (add_all add t rs)) m p = first_handler acc key rs m p"
proof (induction rs arbitrary: t)
  case Nil
  then show ?case by (simp add: first_handler_def)
next
  case (Cons r rs)
  obtain m' p' h' where r: "r = (m', p', h')" by (cases r)
  let ?t = "snd (add t m' p' h')"
  have inv: "inv ?t" using Cons.prems(1) by (rule inv_add)
  show ?case
  proof (cases "acc m' p' \<and> m' = m \<and> key p' = key p")
    case True
    then have got: "get ?t m p = h'"
      using Cons.prems get_key [of p' p t m] by (auto simp: get_add add_result)
    show ?thesis
    proof (cases h')
      case None
      with got inv Cons.IH have "get (snd (add_all add ?t rs)) m p = first_handler acc key rs m p"
        by simp
      with None r show ?thesis by (simp only: snd_add_all_Cons) (simp add: first_handler_def)
    next
      case (Some h)
      with got inv have "get (snd (add_all add ?t rs)) m p = Some h" by (simp add: add_all_stays)
      with Some True r show ?thesis
        by (simp only: snd_add_all_Cons) (auto simp: first_handler_def)
    qed
  next
    case False
    then have "get ?t m p = None"
      using Cons.prems by (auto simp: get_add add_result)
    with inv Cons.IH have "get (snd (add_all add ?t rs)) m p = first_handler acc key rs m p"
      by simp
    with False r show ?thesis by (simp only: snd_add_all_Cons) (auto simp: first_handler_def)
  qed
qed

end

text \<open>The routing tree is such a registry, keyed by the segments of the path.\<close>

definition rt_accepts :: "Method \<Rightarrow> string \<Rightarrow> bool" where
  "rt_accepts mtd path \<longleftrightarrow> registrable path \<and> mtd \<noteq> UNKNOWN"

lemma rt_add_fst:
  "rt_wf t \<Longrightarrow> fst (rt_add t mtd path h) \<longleftrightarrow> rt_accepts mtd path \<and> rt_get t mtd path = None"
  using registrable_key [of path]
  by (auto simp: rt_add_key rt_get_key rt_accepts_def supported_wf put_segs_result split: prod.splits)
     (metis fst_conv put_segs_result)+

lemma rt_get_add:
  assumes "rt_wf t"
  shows "rt_get (snd (rt_add t mtd path h)) mtd' path' =
    (if fst (rt_add t mtd path h) \<and> mtd' = mtd \<and> route_key path' = route_key path then h
     else rt_get t mtd' path')"
proof (cases "registrable path \<and> supported t mtd")
  case False
  then show ?thesis by (auto simp: rt_add_key)
next
  case True
  then obtain k where k: "route_key path = Some k" "k \<noteq> []" using registrable_key by blast
  let ?m = "root t ! method_num mtd"
  have t': "rt_add t mtd path h = (fst (put_segs k ?m h),
      t\<lparr>root := (root t)[method_num mtd := snd (put_segs k ?m h)]\<rparr>)"
    using True k by (simp add: rt_add_key split: prod.splits)
  show ?thesis
    using True k look_put_segs [OF k(2), of _ ?m h]
    by (auto simp: t' rt_get_key supported_def nth_list_update split: option.splits)
qed

interpretation rt: route_registry rt_add rt_get route_key rt_accepts rt_wf
proof unfold_locales
  fix t :: "'h routing_tree" and mtd path h
  show "\<not> fst (rt_add t mtd path h) \<Longrightarrow> snd (rt_add t mtd path h) = t"
    using put_segs_fail [of "the (route_key path)" "root t ! method_num mtd" h]
    by (auto simp: rt_add_key supported_def split: prod.splits if_splits)
next
  fix p p' and t :: "'h routing_tree" and m
  show "route_key p = route_key p' \<Longrightarrow> rt_get t m p = rt_get t m p'"
    by (simp add: rt_get_key)
qed (simp_all only: rt_add_wf rt_add_fst rt_get_add)

section \<open>Properties\<close>

text \<open>The abstract table behind a tree.\<close>

definition rt_table :: "'h routing_tree \<Rightarrow> Method \<times> string list \<Rightarrow> 'h option" where
  "rt_table t = (\<lambda>(mtd, k). if supported t mtd then look_segs k (root t ! method_num mtd) else None)"

lemma rt_get_table:
  "rt_get t mtd path = (case route_key path of None \<Rightarrow> None | Some k \<Rightarrow> rt_table t (mtd, k))"
  by (simp add: rt_get_key rt_table_def split: option.splits)

lemma rt_table_add:
  "rt_table (snd (rt_add t mtd path h)) =
     (if fst (rt_add t mtd path h) then (rt_table t)((mtd, the (route_key path)) := h)
      else rt_table t)"
proof (cases "registrable path \<and> supported t mtd")
  case False
  then show ?thesis by (auto simp: rt_add_key)
next
  case True
  then obtain k where k: "route_key path = Some k" "k \<noteq> []" using registrable_key by blast
  show ?thesis
  proof (rule ext)
    fix x :: "Method \<times> string list"
    obtain mtd' k' where x: "x = (mtd', k')" by (cases x)
    show "rt_table (snd (rt_add t mtd path h)) x =
      (if fst (rt_add t mtd path h) then (rt_table t)((mtd, the (route_key path)) := h)
       else rt_table t) x"
      using True k look_put_segs [OF k(2), of k' "root t ! method_num mtd" h]
      by (auto simp: x rt_add_key rt_table_def supported_def nth_list_update split: prod.splits)
  qed
qed

text \<open>
  C3. The tree refines a table from (method, segments) to handlers. A lookup is the table
  at the path's key; a registration succeeds exactly when the path holds a slash, the
  method is one of the five and the table has no handler there, and then it updates the
  table at that key and nowhere else; otherwise the tree is left as it was.
\<close>
theorem routing_tree_refines_table:
  assumes "rt_wf t"
  shows "rt_get t mtd path = (case route_key path of None \<Rightarrow> None | Some k \<Rightarrow> rt_table t (mtd, k)) \<and>
    (fst (rt_add t mtd path h) \<longleftrightarrow>
       CHR ''/'' \<in> set path \<and> mtd \<noteq> UNKNOWN \<and> rt_table t (mtd, the (route_key path)) = None) \<and>
    (if fst (rt_add t mtd path h)
     then rt_table (snd (rt_add t mtd path h)) = (rt_table t)((mtd, the (route_key path)) := h)
     else snd (rt_add t mtd path h) = t)"
proof -
  have "fst (rt_add t mtd path h) \<longleftrightarrow>
      CHR ''/'' \<in> set path \<and> mtd \<noteq> UNKNOWN \<and> rt_table t (mtd, the (route_key path)) = None"
    using registrable_key [of path] rt.add_result [OF assms, of mtd path h]
    by (auto simp: rt_accepts_def rt_get_table registrable_def)
  then show ?thesis
    using rt.add_failed [OF assms] by (simp add: rt_get_table rt_table_add)
qed

text \<open>A tree with one route, for the witnesses.\<close>

definition uni_tree :: "nat routing_tree" where
  "uni_tree = snd (rt_add rt_new GET ''/uni/v1'' (Some 7))"

lemma uni_tree_wf: "rt_wf uni_tree"
  by (simp add: uni_tree_def rt_add_wf rt_wf_new)

theorem routing_tree_refines_table_witness:
  "rt_wf uni_tree \<and> rt_get uni_tree GET ''/uni/v1'' = rt_table uni_tree (GET, [''uni'', ''v1''])"
proof -
  have "route_key ''/uni/v1'' = Some [''uni'', ''v1'']" by code_simp
  then show ?thesis
    using routing_tree_refines_table [OF uni_tree_wf, of GET "''/uni/v1''" None] uni_tree_wf
    by simp
qed

text \<open>
  Every map at every level of the tree keeps distinct keys, and the tree keeps its five
  roots: the invariant holds of a new tree and every registration preserves it.
\<close>
theorem rt_invariant:
  "rt_wf (rt_new :: 'h routing_tree) \<and>
   (\<forall>(t :: 'h routing_tree) mtd path h. rt_wf t \<longrightarrow> rt_wf (snd (rt_add t mtd path h)))"
  using rt_wf_new rt_add_wf by blast

theorem rt_invariant_witness: "rt_wf (snd (rt_add uni_tree POST ''/uni'' (Some 1)))"
  using rt_invariant uni_tree_wf by blast

text \<open>
  The first registration of a route wins: after any sequence of registrations on a new
  tree, a lookup gives the handler of the first registration in the sequence that is
  non-empty, has a slash, a supported method, this method and a path with the same
  segments; later registrations of the route neither replace nor disturb it.
\<close>
theorem first_registered_handler_wins:
  "rt_get (snd (add_all rt_add rt_new rs)) mtd path =
     first_handler rt_accepts route_key rs mtd path"
proof -
  have "rt_get rt_new mtd path = None"
    by (cases mtd) (simp_all add: rt_get_key rt_new_def make_root_def kNumHTTPMethods_def
        supported_def split: option.split)
  then show ?thesis by (intro rt.first_registration_wins rt_wf_new)
qed

text \<open>
  Characters before the first slash of a path do not matter: a request target such as
  \<open>anything/x\<close> is looked up, and registered, as \<open>/x\<close> is.
\<close>
theorem prefix_before_slash_ignored:
  assumes "CHR ''/'' \<notin> set junk" and "p \<noteq> []"
  shows "rt_get t mtd (junk @ CHR ''/'' # p) = rt_get t mtd (CHR ''/'' # p) \<and>
    rt_add t mtd (junk @ CHR ''/'' # p) h = rt_add t mtd (CHR ''/'' # p) h"
proof -
  have "dropWhile (\<lambda>c. c \<noteq> CHR ''/'') (junk @ CHR ''/'' # p) = CHR ''/'' # p"
    using assms(1) by (induction junk) auto
  then have "route_key (junk @ CHR ''/'' # p) = route_key (CHR ''/'' # p)"
    using assms(2) by (simp add: route_key_def)
  then show ?thesis by (simp add: rt_get_key rt_add_key registrable_def)
qed

theorem prefix_before_slash_ignored_witness:
  "rt_get uni_tree GET ''http:/uni/v1'' = rt_get uni_tree GET ''/uni/v1''"
  using prefix_before_slash_ignored [of "''http:''" "''uni/v1''" uni_tree GET None] by simp

text \<open>
  A path of one character other than a slash can never be registered as such, yet a
  request for it is served by the handler of the route \<open>/c\<close>: the lookup, unlike the
  registration, does not check that the single character is a slash.
\<close>
theorem single_character_target:
  assumes "c \<noteq> CHR ''/''"
  shows "rt_get t mtd [c] = rt_get t mtd [CHR ''/'', c] \<and> \<not> fst (rt_add t mtd [c] h)"
  using assms by (simp add: rt_get_key rt_add_key route_key_def registrable_def split: option.splits)

theorem single_character_target_witness:
  "rt_get (snd (rt_add rt_new GET ''/x'' (Some (3 :: nat)))) GET ''x'' = Some 3"
proof -
  have "rt_get (snd (rt_add rt_new GET ''/x'' (Some (3 :: nat)))) GET ''/x'' = Some 3"
    by code_simp
  then show ?thesis
    using single_character_target [of "CHR ''x''"
        "snd (rt_add rt_new GET ''/x'' (Some (3 :: nat)))" GET None] by simp
qed

end
