(* ===== verification/Router.thy ===== *)
theory Router
  imports RoutingTree
begin

text \<open>
  \<open>src/src/routing/.../router.h\<close> and \<open>router.cc\<close>: the router over a routing tree and
  the static \<open>RouterManager\<close>, whose state is the pointer \<open>router_\<close> (\<open>None\<close> is
  \<open>nullptr\<close>). A handler may throw; it reads and advances the surroundings. The
  \<open>LOG_*\<close> calls do not influence the control flow and are left out.
\<close>

type_synonym handler = "Request \<Rightarrow> world \<Rightarrow> (Response \<times> world) outcome"

section \<open>Router\<close>

type_synonym router = "handler routing_tree"

definition Router_get :: "router \<Rightarrow> string \<Rightarrow> handler option \<Rightarrow> bool \<times> router" where
  "Router_get t path h = rt_add t GET path h"

definition Router_post :: "router \<Rightarrow> string \<Rightarrow> handler option \<Rightarrow> bool \<times> router" where
  "Router_post t path h = rt_add t POST path h"

definition Router_put :: "router \<Rightarrow> string \<Rightarrow> handler option \<Rightarrow> bool \<times> router" where
  "Router_put t path h = rt_add t PUT path h"

definition Router_del :: "router \<Rightarrow> string \<Rightarrow> handler option \<Rightarrow> bool \<times> router" where
  "Router_del t path h = rt_add t DELETE path h"

definition Router_patch :: "router \<Rightarrow> string \<Rightarrow> handler option \<Rightarrow> bool \<times> router" where
  "Router_patch t path h = rt_add t PATCH path h"

definition Router_route :: "router \<Rightarrow> Request \<Rightarrow> world \<Rightarrow> (Response option \<times> world) outcome" where
  "Router_route t req w =
     (case rt_get t (req_method req) (req_path req) of
        None \<Rightarrow> Ret (None, w)
      | Some h \<Rightarrow> noexcept (obind (h req w) (\<lambda>(resp, w'). Ret (Some resp, w'))))"

section \<open>RouterManager\<close>

type_synonym manager = "router option"

definition RouterManager_Init :: "manager \<Rightarrow> manager" where
  "RouterManager_Init m = Some rt_new"

definition RouterManager_Clear :: "manager \<Rightarrow> manager" where
  "RouterManager_Clear m = None"

definition RouterManager_Get ::
    "string \<Rightarrow> handler option \<Rightarrow> manager \<Rightarrow> (bool \<times> manager) outcome" where
  "RouterManager_Get path h m =
     (case m of
        None \<Rightarrow> Raise (Runtime_error ''Router not initialized'')
      | Some t \<Rightarrow> (let (result, t') = Router_get t path h in Ret (result, Some t')))"

definition RouterManager_Post ::
    "string \<Rightarrow> handler option \<Rightarrow> manager \<Rightarrow> (bool \<times> manager) outcome" where
  "RouterManager_Post path h m =
     (case m of
        None \<Rightarrow> Raise (Runtime_error ''Router not initialized'')
      | Some t \<Rightarrow> (let (result, t') = Router_post t path h in Ret (result, Some t')))"

definition RouterManager_Put ::
    "string \<Rightarrow> handler option \<Rightarrow> manager \<Rightarrow> (bool \<times> manager) outcome" where
  "RouterManager_Put path h m =
     (case m of
        None \<Rightarrow> Raise (Runtime_error ''Router not initialized'')
      | Some t \<Rightarrow> (let (result, t') = Router_put t path h in Ret (result, Some t')))"

definition RouterManager_Del ::
    "string \<Rightarrow> handler option \<Rightarrow> manager \<Rightarrow> (bool \<times> manager) outcome" where
  "RouterManager_Del path h m =
     (case m of
        None \<Rightarrow> Raise (Runtime_error ''Router not initialized'')
      | Some t \<Rightarrow> (let (result, t') = Router_del t path h in Ret (result, Some t')))"

definition RouterManager_Patch ::
    "string \<Rightarrow> handler option \<Rightarrow> manager \<Rightarrow> (bool \<times> manager) outcome" where
  "RouterManager_Patch path h m =
     (case m of
        None \<Rightarrow> Raise (Runtime_error ''Router not initialized'')
      | Some t \<Rightarrow> (let (result, t') = Router_patch t path h in Ret (result, Some t')))"

definition RouterManager_Route ::
    "manager \<Rightarrow> Request \<Rightarrow> world \<Rightarrow> (Response option \<times> world) outcome" where
  "RouterManager_Route m req w =
     (case m of
        None \<Rightarrow> Ret (None, w)
      | Some t \<Rightarrow> noexcept (obind (Router_route t req w) (\<lambda>(response, w').
          case response of
            None \<Rightarrow> (let (resp, w'') = makeResp NotFound (req_id req) (JObject []) w'
                     in Ret (Some resp, w''))
          | Some resp \<Rightarrow> Ret (Some resp, w'))))"

section \<open>Registration through the manager\<close>

datatype registration =
    Reg_Get string "handler option" | Reg_Post string "handler option"
  | Reg_Put string "handler option" | Reg_Del string "handler option"
  | Reg_Patch string "handler option"

fun run_registration :: "registration \<Rightarrow> manager \<Rightarrow> (bool \<times> manager) outcome" where
  "run_registration (Reg_Get p h) = RouterManager_Get p h"
| "run_registration (Reg_Post p h) = RouterManager_Post p h"
| "run_registration (Reg_Put p h) = RouterManager_Put p h"
| "run_registration (Reg_Del p h) = RouterManager_Del p h"
| "run_registration (Reg_Patch p h) = RouterManager_Patch p h"

fun reg_entry :: "registration \<Rightarrow> Method \<times> string \<times> handler option" where
  "reg_entry (Reg_Get p h) = (GET, p, h)"
| "reg_entry (Reg_Post p h) = (POST, p, h)"
| "reg_entry (Reg_Put p h) = (PUT, p, h)"
| "reg_entry (Reg_Del p h) = (DELETE, p, h)"
| "reg_entry (Reg_Patch p h) = (PATCH, p, h)"

fun run_registrations :: "registration list \<Rightarrow> manager \<Rightarrow> (bool list \<times> manager) outcome" where
  "run_registrations [] m = Ret ([], m)"
| "run_registrations (r # rs) m =
     obind (run_registration r m) (\<lambda>(b, m').
     obind (run_registrations rs m') (\<lambda>(bs, m''). Ret (b # bs, m'')))"

lemmas manager_defs = RouterManager_Get_def RouterManager_Post_def RouterManager_Put_def
  RouterManager_Del_def RouterManager_Patch_def
  Router_get_def Router_post_def Router_put_def Router_del_def Router_patch_def

lemma run_registration_Some:
  "run_registration r (Some t) =
     (case reg_entry r of (mtd, p, h) \<Rightarrow>
        Ret (fst (rt_add t mtd p h), Some (snd (rt_add t mtd p h))))"
  by (cases r) (simp_all add: manager_defs Let_def split_beta)

lemma run_registration_None:
  "run_registration r None = Raise (Runtime_error ''Router not initialized'')"
  by (cases r) (simp_all add: manager_defs)

lemma run_registrations_Some:
  "run_registrations rs (Some t) =
     Ret (fst (add_all rt_add t (map reg_entry rs)),
          Some (snd (add_all rt_add t (map reg_entry rs))))"
proof (induction rs arbitrary: t)
  case (Cons r rs)
  obtain mtd p h where "reg_entry r = (mtd, p, h)" by (cases "reg_entry r")
  then show ?case by (simp add: run_registration_Some Cons.IH Let_def split_beta)
qed simp

lemma reg_entry_method: "fst (reg_entry r) \<noteq> UNKNOWN"
  by (cases r) simp_all

section \<open>Properties\<close>

text \<open>What a manager built by registrations answers.\<close>

definition route_answer :: "registration list \<Rightarrow> Request \<Rightarrow> world \<Rightarrow> (Response \<times> world) outcome" where
  "route_answer rs req w =
     (case first_handler rt_accepts route_key (map reg_entry rs) (req_method req) (req_path req) of
        None \<Rightarrow> Ret (makeResp NotFound (req_id req) (JObject []) w)
      | Some h \<Rightarrow> noexcept (h req w))"

lemma get_registered:
  "rt_get (snd (add_all rt_add rt_new (map reg_entry rs))) mtd path =
   first_handler rt_accepts route_key (map reg_entry rs) mtd path"
proof -
  have "rt_get rt_new mtd path = (None :: handler option)"
    by (cases mtd) (simp_all add: rt_get_key rt_new_def
        make_root_def kNumHTTPMethods_def supported_def split: option.split)
  then show ?thesis by (intro rt.first_registration_wins rt_wf_new)
qed

lemma registered_manager:
  "run_registrations rs (RouterManager_Init m0) =
     Ret (fst (add_all rt_add rt_new (map reg_entry rs)),
          Some (snd (add_all rt_add rt_new (map reg_entry rs))))"
  by (simp add: RouterManager_Init_def run_registrations_Some)

lemma route_registered:
  assumes "run_registrations rs (RouterManager_Init m0) = Ret (bs, m)"
  shows "RouterManager_Route m req w =
    obind (route_answer rs req w) (\<lambda>(resp, w'). Ret (Some resp, w'))"
proof -
  have m: "m = Some (snd (add_all rt_add rt_new (map reg_entry rs)))"
    using assms by (simp add: registered_manager)
  show ?thesis
  proof (cases "first_handler rt_accepts route_key (map reg_entry rs) (req_method req) (req_path req)")
    case None
    then show ?thesis
      by (simp add: m RouterManager_Route_def Router_route_def route_answer_def get_registered
          Let_def split_beta)
  next
    case (Some h)
    then show ?thesis
      by (cases "h req w")
         (simp_all add: m RouterManager_Route_def Router_route_def route_answer_def get_registered
           split_beta)
  qed
qed

text \<open>
  C20. Serving a registered application: after \<open>Init\<close>, no registration throws, and a
  request is answered by the first non-empty handler registered for its method and
  segments, applied once to the request; when there is none the answer is the built-in
  404 response that carries the request's identifier; an exception of the handler ends
  the process, because the routing functions are \<open>noexcept\<close>.
\<close>
theorem manager_serves_first_handler:
  "\<exists>bs m. run_registrations rs (RouterManager_Init m0) = Ret (bs, m) \<and>
    RouterManager_Route m req w =
      (case first_handler rt_accepts route_key (map reg_entry rs) (req_method req) (req_path req) of
         None \<Rightarrow> (let (resp, w') = makeResp NotFound (req_id req) (JObject []) w
                  in Ret (Some resp, w'))
       | Some h \<Rightarrow> (case h req w of
           Ret (resp, w') \<Rightarrow> Ret (Some resp, w')
         | Raise e \<Rightarrow> Terminate
         | Terminate \<Rightarrow> Terminate
         | Diverge \<Rightarrow> Diverge))"
  by (auto simp: registered_manager route_registered [OF registered_manager] route_answer_def
      Let_def split_beta split: option.split outcome.split)

text \<open>
  Without a router (before \<open>Init\<close>, or after \<open>Clear\<close>) every registration throws
  \<open>std::runtime_error\<close> and routing returns no response, leaving the surroundings alone.
\<close>
theorem manager_uninitialised:
  "run_registration r (RouterManager_Clear m) = Raise (Runtime_error ''Router not initialized'') \<and>
   RouterManager_Route (RouterManager_Clear m) req w = Ret (None, w)"
  by (simp add: RouterManager_Clear_def run_registration_None RouterManager_Route_def)

end
