(* ===== verification/Codec.thy ===== *)
theory Codec
  imports Router
begin

text \<open>
  \<open>src/src/server/.../http/http_codec.h\<close> and \<open>http_codec.cc\<close>: parsing a request,
  serialising a response, and the round trip through the router. Positions and lengths
  are narrowed to \<open>int\<close> and back exactly where the source does it. The JSON library is
  the parameters \<open>jparse\<close> and \<open>jdump\<close>: \<open>nlohmann::json::parse\<close> yields a value, a
  \<open>parse_error\<close>, or another exception (\<open>out_of_range\<close> for a number it cannot store);
  \<open>dump\<close> yields text or throws \<open>type_error\<close> on invalid UTF-8.
\<close>

datatype json_parse = Parsed json | Parse_error | Parse_exception

type_synonym json_parser = "string \<Rightarrow> json_parse"
type_synonym json_dumper = "json \<Rightarrow> string option"

section \<open>Parsing\<close>

text \<open>The target line.\<close>

definition parse_target :: "string \<Rightarrow> (Method \<times> string \<times> string) option outcome" where
  "parse_target targets =
     (let first_space = int32 (sv_find targets '' '' 0);
          second_space = int32 (sv_find targets '' '' (sizet (first_space + 1))) in
      obind (sv_substr targets 0 (sizet first_space)) (\<lambda>m.
      if to_method m = UNKNOWN then Ret None
      else
      obind (sv_substr targets (sizet (first_space + 1))
               (sizet (second_space - first_space - 1))) (\<lambda>path.
      obind (sv_substr targets (sizet (second_space + 1)) npos) (\<lambda>version.
      Ret (Some (to_method m, path, version))))))"

text \<open>
  The header loop. Each turn takes the line from \<open>beg\<close> to \<open>en\<close> (\<open>end\<close> in the
  source) and moves past its CRLF; the fuel bounds the number of lines.
\<close>

definition trim_value :: "string \<Rightarrow> string outcome" where
  "trim_value value =
     (let val_start = find_first_not_of value [CHR 0x20, CHR 0x09] in
      if val_start \<noteq> npos then sv_substr value val_start npos else Ret value)"

fun header_loop :: "nat \<Rightarrow> string \<Rightarrow> int \<Rightarrow> int \<Rightarrow> headers \<Rightarrow> headers outcome" where
  "header_loop 0 headers beg en hs = Diverge"
| "header_loop (Suc fuel) headers beg en hs =
     (let colon = int32 (sv_find headers '':'' (sizet beg)) in
      if sizet colon = npos \<or> colon > en then
        (let beg' = en + 2;
             en' = int32 (sv_find headers crlf (sizet beg')) in
         if sizet en' = npos then Ret hs
         else header_loop fuel headers beg' en' hs)
      else
        obind (sv_substr headers (sizet beg) (sizet (colon - beg))) (\<lambda>key.
        obind (sv_substr headers (sizet (colon + 1)) (sizet (en - colon - 1))) (\<lambda>value0.
        obind (trim_value value0) (\<lambda>value.
        let hs' = um_assign CaseInsensitiveEqual key value hs;
            beg' = en + 2;
            en' = int32 (sv_find headers crlf (sizet beg')) in
        if sizet en' = npos then Ret hs'
        else header_loop fuel headers beg' en' hs'))))"

definition parse_headers :: "string \<Rightarrow> headers option outcome" where
  "parse_headers headers =
     (let en = int32 (sv_find headers crlf 0) in
      if sizet en = npos then Ret None
      else obind (header_loop (Suc (length headers)) headers 0 en []) (\<lambda>hs. Ret (Some hs)))"

definition parse_body :: "json_parser \<Rightarrow> string \<Rightarrow> int \<Rightarrow> json option outcome" where
  "parse_body jparse raw_req end_headers =
     (if sizet end_headers \<noteq> npos then
        obind (sv_substr raw_req (sizet (end_headers + 4)) npos) (\<lambda>body.
        if body \<noteq> [] then
          (case jparse body of
             Parsed j \<Rightarrow> Ret (Some j)
           | Parse_error \<Rightarrow> Ret None
           | Parse_exception \<Rightarrow> Raise Json_exception)
        else Ret (Some JNull))
      else Ret (Some JNull))"

definition parse :: "json_parser \<Rightarrow> string \<Rightarrow> world \<Rightarrow> (Request option \<times> world) outcome" where
  "parse jparse raw_req w =
     (let end_targets = int32 (sv_find raw_req crlf 0);
          end_headers = int32 (sv_find raw_req (crlf @ crlf) 0) in
      if sizet end_targets = npos then Ret (None, w)
      else
      obind (sv_substr raw_req 0 (sizet end_targets)) (\<lambda>targets.
      obind (parse_target targets) (\<lambda>target.
      case target of None \<Rightarrow> Ret (None, w) | Some (mtd, path, version) \<Rightarrow>
      obind (sv_substr raw_req (sizet (end_targets + 2)) (sizet end_headers)) (\<lambda>headers.
      obind (parse_headers headers) (\<lambda>fields.
      case fields of None \<Rightarrow> Ret (None, w) | Some hs \<Rightarrow>
      if um_count CaseInsensitiveEqual ''Host'' hs = 0 then Ret (None, w)
      else
      obind (parse_body jparse raw_req end_headers) (\<lambda>body.
      case body of None \<Rightarrow> Ret (None, w) | Some j \<Rightarrow>
      (let (rid, w') = fresh_uuid w in
       Ret (Some \<lparr>req_id = rid, req_method = mtd, req_path = path, req_version = version,
                  req_headers = hs, req_body = j\<rparr>, w'))))))))"

section \<open>Serialising\<close>

definition response_line :: "Response \<Rightarrow> string" where
  "response_line resp =
     ''HTTP/1.1 '' @ dec (http_code (resp_status resp)) @ '' '' @
     obsolete_reason (resp_status resp) @ crlf"

definition header_lines :: "headers \<Rightarrow> string" where
  "header_lines hs = concat (map (\<lambda>(k, v). k @ '': '' @ v @ crlf) hs)"

definition serialize :: "json_dumper \<Rightarrow> Response \<Rightarrow> string outcome" where
  "serialize jdump resp =
     (case jdump (resp_body resp) of
        None \<Rightarrow> noexcept (Raise Json_exception)
      | Some body \<Rightarrow>
          Ret (response_line resp @
               ''Content-Type: application/json'' @ crlf @
               ''Content-Length: '' @ dec (length body) @ crlf @
               header_lines (resp_headers resp) @ crlf @ body))"

section \<open>The codec object\<close>

text \<open>The member \<open>req_\<close> holds the last request parsed.\<close>

record HttpCodec =
  codec_req :: Request

definition new_codec :: HttpCodec where
  "new_codec = \<lparr>codec_req = empty_request\<rparr>"

definition parse_w ::
    "json_parser \<Rightarrow> HttpCodec \<Rightarrow> string \<Rightarrow> world \<Rightarrow> (bool \<times> HttpCodec \<times> world) outcome" where
  "parse_w jparse c raw_req w =
     obind (parse jparse raw_req w) (\<lambda>(req, w').
     case req of
       None \<Rightarrow> Ret (False, c, w')
     | Some r \<Rightarrow> Ret (True, c\<lparr>codec_req := r\<rparr>, w'))"

definition process ::
    "json_parser \<Rightarrow> json_dumper \<Rightarrow> manager \<Rightarrow> HttpCodec \<Rightarrow> string \<Rightarrow> world \<Rightarrow>
     (string \<times> HttpCodec \<times> world) outcome" where
  "process jparse jdump mgr c raw_req w =
     obind (parse_w jparse c raw_req w) (\<lambda>(good, c', w1).
     obind
       (if \<not> good then Ret (makeResp_fresh InvalidJsonOrParams (JObject []) w1)
        else obind (RouterManager_Route mgr (codec_req c') w1) (\<lambda>(resp, w2).
          case resp of
            None \<Rightarrow> Ret (makeResp_fresh InternalError (JObject []) w2)
          | Some r \<Rightarrow> Ret (r, w2)))
       (\<lambda>(resp, w3).
     obind (serialize jdump resp) (\<lambda>out. Ret (out, c', w3))))"

section \<open>What the header loop computes\<close>

text \<open>The complete lines of a text, and the field a line holds.\<close>

function crlf_lines :: "string \<Rightarrow> string list" where
  "crlf_lines s =
     (case first_match crlf s of None \<Rightarrow> [] | Some k \<Rightarrow> take k s # crlf_lines (drop (k + 2) s))"
  by pat_completeness auto
termination
proof (relation "measure length")
  fix s k assume "first_match crlf s = Some k"
  then have "k + 2 \<le> length s" using first_match_bound [of crlf s k] by (simp add: crlf_def)
  then show "(drop (k + 2) s, s) \<in> measure length" by simp
qed simp

declare crlf_lines.simps [simp del]

definition skip_blank :: "string \<Rightarrow> string" where
  "skip_blank v = (let r = dropWhile (\<lambda>c. c \<in> {CHR 0x20, CHR 0x09}) v in if r = [] then v else r)"

definition line_field :: "string \<Rightarrow> (string \<times> string) option" where
  "line_field l =
     (if CHR '':'' \<in> set l
      then Some (takeWhile (\<lambda>c. c \<noteq> CHR '':'') l,
                 skip_blank (tl (dropWhile (\<lambda>c. c \<noteq> CHR '':'') l)))
      else None)"

definition put_line :: "headers \<Rightarrow> string \<Rightarrow> headers" where
  "put_line hs l =
     (case line_field l of None \<Rightarrow> hs | Some (k, v) \<Rightarrow> um_assign CaseInsensitiveEqual k v hs)"

lemma trim_value_skip_blank:
  assumes "length v < npos"
  shows "trim_value v = Ret (skip_blank v)"
proof -
  let ?t = "takeWhile (\<lambda>c. c \<in> {CHR 0x20, CHR 0x09}) v"
  have "dropWhile (\<lambda>c. c \<in> {CHR 0x20, CHR 0x09}) v = drop (length ?t) v"
    by (rule dropWhile_eq_drop)
  moreover have "length ?t \<le> length v" by (rule length_takeWhile_le)
  ultimately show ?thesis
    using assms by (auto simp: trim_value_def find_first_not_of_def skip_blank_def sv_substr_def Let_def)
qed

text \<open>Positions below \<open>2 ^ 31\<close> survive the narrowing.\<close>

lemma small_npos: "n < 2 ^ 31 \<Longrightarrow> n < npos" "n < 2 ^ 31 \<Longrightarrow> n \<noteq> npos"
  by (simp_all add: npos_def)

lemma sizet_small: "0 \<le> i \<Longrightarrow> i < 2 ^ 32 \<Longrightarrow> sizet i = nat i"
  by (rule sizet_nonneg) auto

lemma sv_find_Some:
  "b \<le> length s \<Longrightarrow> first_match p (drop b s) = Some k \<Longrightarrow> sv_find s p b = b + k"
  by (simp add: sv_find_def)

lemma sv_find_None: "first_match p (drop b s) = None \<Longrightarrow> sv_find s p b = npos"
  by (simp add: sv_find_def)

text \<open>The next CRLF from a position: what \<open>en\<close> becomes after a turn.\<close>

lemma next_crlf:
  assumes "length h < 2 ^ 31" "b \<le> length h"
  shows "int32 (sv_find h crlf b) =
    (case first_match crlf (drop b h) of None \<Rightarrow> - 1 | Some k \<Rightarrow> int (b + k))"
proof (cases "first_match crlf (drop b h)")
  case None
  then show ?thesis by (simp add: sv_find_None int32_npos)
next
  case (Some k)
  with assms have "b + k < 2 ^ 31" using first_match_bound [OF Some] by simp
  with Some assms show ?thesis by (simp add: sv_find_Some int32_small)
qed

text \<open>A line split at its first colon.\<close>

lemma colon_split:
  assumes "CHR '':'' \<in> set l"
  obtains key rest where "l = key @ '':'' @ rest" "CHR '':'' \<notin> set key"
  using split_list_first [OF assms] by fastforce

lemma line_field_colon:
  "CHR '':'' \<notin> set key \<Longrightarrow> line_field (key @ CHR '':'' # rest) = Some (key, skip_blank rest)"
  by (simp add: line_field_def dropWhile_append_neq)

text \<open>
  One turn of the loop on the line \<open>l\<close> that starts at position \<open>b\<close>: the header it
  stores is the field of the line, if it has one.
\<close>

lemma header_loop_turn:
  assumes len: "length h < 2 ^ 31"
    and h: "drop b h = l @ crlf @ rest" and no: "first_match crlf (drop b h) = Some (length l)"
  shows "header_loop (Suc fuel) h (int b) (int (b + length l)) hs =
    (case first_match crlf rest of
       None \<Rightarrow> Ret (put_line hs l)
     | Some k \<Rightarrow> header_loop fuel h (int (b + length l) + 2) (int (b + length l + 2 + k)) (put_line hs l))"
proof -
  let ?n = "b + length l + 2"
  have bl: "b + length l + 2 + length rest = length h"
    using arg_cong [OF h, of length] by (cases "b \<le> length h") (auto simp: crlf_def)
  have "drop ?n h = drop (length l + 2) (drop b h)" by (simp add: add.commute add.left_commute)
  then have rest: "drop ?n h = rest" by (simp add: h crlf_def)
  have en': "int32 (sv_find h crlf (sizet (int (b + length l) + 2))) =
      (case first_match crlf rest of None \<Rightarrow> - 1 | Some k \<Rightarrow> int (?n + k))"
  proof -
    have "sizet (int (b + length l) + 2) = ?n" using bl len by (subst sizet_small) auto
    then show ?thesis using next_crlf [OF len, of ?n] bl rest by simp
  qed
  have small: "sizet (int (?n + k)) \<noteq> npos" if "first_match crlf rest = Some k" for k
    using first_match_bound [OF that] bl len small_npos by (subst sizet_small) auto
  have tail: "(if sizet (int32 (sv_find h crlf (sizet (int (b + length l) + 2)))) = npos then Ret hs'
      else header_loop fuel h (int (b + length l) + 2)
             (int32 (sv_find h crlf (sizet (int (b + length l) + 2)))) hs') =
    (case first_match crlf rest of
       None \<Rightarrow> Ret hs'
     | Some k \<Rightarrow> header_loop fuel h (int (b + length l) + 2) (int (?n + k)) hs')" for hs'
    unfolding en' using small by (auto simp: sizet_minus1 split: option.split)
  show ?thesis
  proof (cases "CHR '':'' \<in> set l")
    case False
    have "sizet (int32 (sv_find h '':'' b)) = npos \<or> int32 (sv_find h '':'' b) > int (b + length l)"
    proof (cases "first_match '':'' (drop b h)")
      case None
      then show ?thesis by (simp add: sv_find_None cpp_int)
    next
      case (Some j)
      have j: "j = length l + 2 + length (takeWhile (\<lambda>c. c \<noteq> CHR '':'') rest)"
        using Some False h by (auto simp: first_match_single crlf_def takeWhile_append split: if_splits)
      moreover have "b + j < 2 ^ 31" using first_match_bound [OF Some] len bl by simp
      ultimately show ?thesis using Some bl by (simp add: sv_find_Some int32_small)
    qed
    moreover have "sizet (int b) = b" using bl len by (subst sizet_small) auto
    moreover have "put_line hs l = hs" using False by (simp add: put_line_def line_field_def)
    ultimately show ?thesis
      by (simp only: header_loop.simps Let_def if_P tail)
  next
    case True
    then obtain key v where l: "l = key @ '':'' @ v" and key: "CHR '':'' \<notin> set key"
      by (rule colon_split)
    let ?c = "b + length key"
    have bk: "?c + 1 + length v = b + length l" by (simp add: l)
    have "first_match '':'' (drop b h) = Some (length key)"
      using key by (simp add: h l first_match_single)
    then have colon: "int32 (sv_find h '':'' b) = int ?c"
      using bl len bk by (simp add: sv_find_Some int32_small)
    have sz: "sizet (int b) = b" "sizet (int ?c) = ?c" "sizet (int ?c - int b) = length key"
      "sizet (int ?c + 1) = ?c + 1" "sizet (int (b + length l) - int ?c - 1) = length v"
      using bl len bk by (subst sizet_small; simp)+
    have subk: "sv_substr h b (length key) = Ret key"
      using bl by (simp add: sv_substr_def h l)
    have "drop (?c + 1) h = drop (length key + 1) (drop b h)" by (simp add: add.commute)
    then have subv: "sv_substr h (?c + 1) (length v) = Ret v"
      using bl bk by (simp add: sv_substr_def h l)
    have trim: "trim_value v = Ret (skip_blank v)"
      using bl bk len small_npos(1) [of "length v"] by (intro trim_value_skip_blank) auto
    have put: "put_line hs l = um_assign CaseInsensitiveEqual key (skip_blank v) hs"
      using key by (simp add: put_line_def l line_field_colon)
    have "?c \<noteq> npos" using bl len bk by (intro small_npos(2)) simp
    then have guard: "\<not> (?c = npos \<or> int (b + length l) < int ?c)"
      using bk by simp
    show ?thesis
      by (simp only: header_loop.simps Let_def sz(1) colon if_not_P [OF guard] sz
          subk subv trim obind.simps tail put)
  qed
qed

text \<open>The whole loop: the fields of the complete lines, stored in order.\<close>

lemma header_loop_lines:
  assumes "length h < 2 ^ 31" "b \<le> length h" "first_match crlf (drop b h) = Some k"
    and "length h - b < fuel"
  shows "header_loop fuel h (int b) (int (b + k)) hs =
    Ret (foldl put_line hs (crlf_lines (drop b h)))"
  using assms
proof (induction fuel arbitrary: b k hs)
  case 0
  then show ?case by simp
next
  case (Suc fuel)
  let ?l = "take k (drop b h)" and ?rest = "drop (k + 2) (drop b h)"
  have k: "k + 2 \<le> length h - b" using first_match_bound [OF Suc.prems(3)] by (simp add: crlf_def)
  then have lk: "length ?l = k" by simp
  have h: "drop b h = ?l @ crlf @ ?rest"
    using first_match_Some_decomp [OF Suc.prems(3)] by (simp add: crlf_def)
  have lines: "crlf_lines (drop b h) = ?l # crlf_lines ?rest"
    using Suc.prems(3) by (subst crlf_lines.simps) simp
  have turn: "header_loop (Suc fuel) h (int b) (int (b + k)) hs =
    (case first_match crlf ?rest of
       None \<Rightarrow> Ret (put_line hs ?l)
     | Some k' \<Rightarrow> header_loop fuel h (int (b + k) + 2) (int (b + k + 2 + k')) (put_line hs ?l))"
    using header_loop_turn [OF Suc.prems(1) h, of fuel hs] Suc.prems(3) by (simp only: lk)
  show ?case
  proof (cases "first_match crlf ?rest")
    case None
    then have "crlf_lines ?rest = []" by (subst crlf_lines.simps) simp
    with None show ?thesis by (simp only: turn lines) simp
  next
    case (Some k')
    have "header_loop fuel h (int (b + k + 2)) (int (b + k + 2 + k')) (put_line hs ?l) =
        Ret (foldl put_line (put_line hs ?l) (crlf_lines (drop (b + k + 2) h)))"
      using Suc.prems k Some by (intro Suc.IH) (simp_all add: add.commute add.left_commute)
    moreover have "drop (b + k + 2) h = ?rest" by (simp add: add.commute add.left_commute)
    moreover have "int (b + k) + 2 = int (b + k + 2)" by simp
    ultimately show ?thesis by (simp only: turn lines Some option.case foldl.simps)
  qed
qed

lemma parse_headers_lines:
  assumes "length h < 2 ^ 31"
  shows "parse_headers h =
    Ret (case crlf_lines h of [] \<Rightarrow> None | ls \<Rightarrow> Some (foldl put_line [] ls))"
proof (cases "first_match crlf h")
  case None
  then have "crlf_lines h = []" by (subst crlf_lines.simps) simp
  with None show ?thesis
    using next_crlf [OF assms, of 0] by (simp add: parse_headers_def cpp_int)
next
  case (Some k)
  have "k < 2 ^ 31" using first_match_bound [OF Some] assms by simp
  then have "sizet (int k) \<noteq> npos" by (subst sizet_small) (auto simp: small_npos(2))
  moreover have "int32 (sv_find h crlf 0) = int k" using next_crlf [OF assms, of 0] Some by simp
  moreover have "header_loop (Suc (length h)) h 0 (int k) [] = Ret (foldl put_line [] (crlf_lines h))"
    using header_loop_lines [of h 0 k "Suc (length h)" "[]"] assms Some by simp
  moreover have "crlf_lines h \<noteq> []" using Some by (subst crlf_lines.simps) simp
  ultimately show ?thesis by (auto simp: parse_headers_def Let_def split: list.split)
qed

section \<open>A reference parser without index arithmetic\<close>

definition target_words :: "string \<Rightarrow> string \<times> string \<times> string" where
  "target_words t =
     (if CHR '' '' \<notin> set t then (t, t, t)
      else let m = takeWhile (\<lambda>c. c \<noteq> CHR '' '') t;
               r = tl (dropWhile (\<lambda>c. c \<noteq> CHR '' '') t) in
        if CHR '' '' \<notin> set r then (m, r, t)
        else (m, takeWhile (\<lambda>c. c \<noteq> CHR '' '') r, tl (dropWhile (\<lambda>c. c \<noteq> CHR '' '') r)))"

definition parse_ref :: "json_parser \<Rightarrow> string \<Rightarrow> world \<Rightarrow> (Request option \<times> world) outcome" where
  "parse_ref jparse raw w =
     (case first_match crlf raw of
        None \<Rightarrow> Ret (None, w)
      | Some et \<Rightarrow>
        (let (m, path, version) = target_words (take et raw);
             eh = first_match (crlf @ crlf) raw;
             view = (case eh of None \<Rightarrow> drop (et + 2) raw | Some j \<Rightarrow> take j (drop (et + 2) raw));
             hs = foldl put_line [] (crlf_lines view);
             body = (case eh of None \<Rightarrow> [] | Some j \<Rightarrow> drop (j + 4) raw) in
         if to_method m = UNKNOWN \<or> crlf_lines view = [] \<or>
            um_find CaseInsensitiveEqual ''Host'' hs = None then Ret (None, w)
         else (case (if body = [] then Parsed JNull else jparse body) of
             Parse_error \<Rightarrow> Ret (None, w)
           | Parse_exception \<Rightarrow> Raise Json_exception
           | Parsed j \<Rightarrow>
               Ret (Some \<lparr>req_id = fst (fresh_uuid w), req_method = to_method m, req_path = path,
                  req_version = version, req_headers = hs, req_body = j\<rparr>, snd (fresh_uuid w)))))"

lemma parse_target_ref:
  assumes "length t < 2 ^ 31"
  shows "parse_target t = Ret (case target_words t of (m, path, version) \<Rightarrow>
    if to_method m = UNKNOWN then None else Some (to_method m, path, version))"
proof (cases "CHR '' '' \<in> set t")
  case False
  then have f: "int32 (sv_find t '' '' 0) = - 1"
    by (simp add: sv_find_def first_match_single int32_npos)
  have "sv_substr t 0 npos = Ret t"
    using assms small_npos(1) [of "length t"] by (simp add: sv_substr_def)
  moreover have "sizet 0 = 0" by (simp add: sizet_def)
  ultimately show ?thesis
    using False by (simp add: parse_target_def f sizet_minus1 target_words_def)
next
  case True
  then obtain m r where t: "t = m @ '' '' @ r" and m: "CHR '' '' \<notin> set m"
    using split_list_first [OF True] by fastforce
  let ?f = "length m"
  have len: "?f + 1 + length r < 2 ^ 31" using assms t by simp
  have f: "int32 (sv_find t '' '' 0) = int ?f"
    using m len by (simp add: t sv_find_def first_match_single int32_small)
  have szf: "sizet (int ?f) = ?f" "sizet (int ?f + 1) = ?f + 1"
    using len by (subst sizet_small; simp)+
  have subm: "sv_substr t 0 ?f = Ret m" by (simp add: sv_substr_def t)
  have npos: "length t < npos" using assms small_npos(1) by simp
  show ?thesis
  proof (cases "CHR '' '' \<in> set r")
    case False
    then have s: "int32 (sv_find t '' '' (?f + 1)) = - 1"
      by (simp add: t sv_find_def first_match_single int32_npos)
    have "- 1 - int ?f - 1 < 0" "- (2 ^ 64) \<le> - 1 - int ?f - 1" using len by simp_all
    then have "sizet (- 1 - int ?f - 1) = nat (- 1 - int ?f - 1 + 2 ^ 64)" by (rule sizet_neg)
    then have "length r \<le> sizet (- 1 - int ?f - 1)" using len by simp
    then have subp: "sv_substr t (?f + 1) (sizet (- 1 - int ?f - 1)) = Ret r"
      by (simp add: sv_substr_def t)
    have subv: "sv_substr t (sizet (- 1 + 1)) npos = Ret t"
      using npos by (simp add: sv_substr_def sizet_def)
    have "target_words t = (m, r, t)" using True False m by (simp add: target_words_def t)
    then show ?thesis
      by (simp only: parse_target_def Let_def f szf s subm subp subv obind.simps prod.case) simp
  next
    case T2: True
    then obtain p v where r: "r = p @ '' '' @ v" and p: "CHR '' '' \<notin> set p"
      using split_list_first [OF T2] by fastforce
    let ?s = "?f + 1 + length p"
    have lens: "?s + 1 + length v < 2 ^ 31" using len r by simp
    have "sv_find t '' '' (?f + 1) = ?s"
      using p by (simp add: t r sv_find_def first_match_single)
    then have s: "int32 (sv_find t '' '' (?f + 1)) = int ?s"
      using lens by (simp only: int32_small)
    have szs: "sizet (int ?s - int ?f - 1) = length p" "sizet (int ?s + 1) = ?s + 1"
      using lens by (subst sizet_small; simp)+
    have subp: "sv_substr t (?f + 1) (length p) = Ret p" by (simp add: sv_substr_def t r)
    have subv: "sv_substr t (?s + 1) npos = Ret v"
      using npos by (simp add: sv_substr_def t r)
    have "target_words t = (m, p, v)"
      using True T2 m p by (simp add: target_words_def t r)
    then show ?thesis
      by (simp only: parse_target_def Let_def f szf s szs subm subp subv obind.simps prod.case) simp
  qed
qed

text \<open>The positions \<open>parse\<close> computes, for inputs below \<open>2 ^ 31\<close> bytes.\<close>

lemma find_from_start:
  assumes "length raw < 2 ^ 31"
  shows "int32 (sv_find raw p 0) = (case first_match p raw of None \<Rightarrow> - 1 | Some k \<Rightarrow> int k)"
proof (cases "first_match p raw")
  case (Some k)
  then have "k < 2 ^ 31" using first_match_bound [OF Some] assms by simp
  with Some show ?thesis by (simp add: sv_find_def int32_small)
qed (simp add: sv_find_def int32_npos)

lemma sizet_pos:
  "k < 2 ^ 31 \<Longrightarrow> sizet (int k) = k" "k < 2 ^ 31 \<Longrightarrow> sizet (int k + 2) = k + 2"
  "k < 2 ^ 31 \<Longrightarrow> sizet (int k + 4) = k + 4"
  by (subst sizet_small; simp)+

lemma parse_body_ref:
  assumes len: "length raw < 2 ^ 31"
  shows "parse_body jparse raw (case first_match (crlf @ crlf) raw of None \<Rightarrow> - 1 | Some j \<Rightarrow> int j) =
    (let body = (case first_match (crlf @ crlf) raw of None \<Rightarrow> [] | Some j \<Rightarrow> drop (j + 4) raw) in
     case (if body = [] then Parsed JNull else jparse body) of
       Parsed j \<Rightarrow> Ret (Some j) | Parse_error \<Rightarrow> Ret None | Parse_exception \<Rightarrow> Raise Json_exception)"
proof (cases "first_match (crlf @ crlf) raw")
  case None
  then show ?thesis by (simp add: parse_body_def sizet_minus1)
next
  case (Some j)
  have j: "j + 4 \<le> length raw" using first_match_bound [OF Some] by (simp add: crlf_def)
  then have small: "j < 2 ^ 31" using len by simp
  have "sv_substr raw (j + 4) npos = Ret (drop (j + 4) raw)"
    using j len small_npos(1) [of "length raw"] by (simp add: sv_substr_def)
  moreover have "j \<noteq> npos" using small by (rule small_npos(2))
  ultimately show ?thesis
    using Some small by (simp only: parse_body_def option.case sizet_pos obind.simps Let_def) simp
qed

lemma parse_ref_eq:
  assumes len: "length raw < 2 ^ 31"
  shows "parse jparse raw w = parse_ref jparse raw w"
proof (cases "first_match crlf raw")
  case None
  then show ?thesis
    by (simp add: parse_def parse_ref_def find_from_start [OF len] sizet_minus1)
next
  case (Some et)
  let ?eh = "first_match (crlf @ crlf) raw"
  define E where "E = (case ?eh of None \<Rightarrow> - 1 | Some j \<Rightarrow> int j)"
  define V where "V = (case ?eh of None \<Rightarrow> drop (et + 2) raw | Some j \<Rightarrow> take j (drop (et + 2) raw))"
  define B where "B = (case ?eh of None \<Rightarrow> [] | Some j \<Rightarrow> drop (j + 4) raw)"
  obtain m path version where tw: "target_words (take et raw) = (m, path, version)"
    by (cases "target_words (take et raw)")
  have et: "et + 2 \<le> length raw" using first_match_bound [OF Some] by (simp add: crlf_def)
  then have small: "et < 2 ^ 31" using len by simp
  then have et_npos: "et \<noteq> npos" by (rule small_npos)
  have pos: "int32 (sv_find raw crlf 0) = int et" "int32 (sv_find raw (crlf @ crlf) 0) = E"
    by (simp_all add: find_from_start [OF len] Some E_def)
  have target: "parse_target (take et raw) =
      Ret (if to_method m = UNKNOWN then None else Some (to_method m, path, version))"
    using parse_target_ref [of "take et raw"] small tw by simp
  have "length raw < npos" using len by (rule small_npos)
  then have view: "sv_substr raw (et + 2) (sizet E) = Ret V"
    using et first_match_bound [of "crlf @ crlf" raw] len
    by (auto simp: E_def V_def sv_substr_def sizet_minus1 sizet_pos crlf_def split: option.split)
  have "length V < 2 ^ 31" using len by (auto simp: V_def split: option.split)
  note fields = parse_headers_lines [OF this]
  have body: "parse_body jparse raw E =
      (case (if B = [] then Parsed JNull else jparse B) of
         Parsed j \<Rightarrow> Ret (Some j) | Parse_error \<Rightarrow> Ret None | Parse_exception \<Rightarrow> Raise Json_exception)"
    using parse_body_ref [OF len] by (simp only: E_def B_def Let_def)
  have "sv_substr raw 0 et = Ret (take et raw)" by (simp add: sv_substr_def)
  then have lhs: "parse jparse raw w =
      (if to_method m = UNKNOWN then Ret (None, w)
       else case crlf_lines V of [] \<Rightarrow> Ret (None, w) | ls \<Rightarrow>
         if um_count CaseInsensitiveEqual ''Host'' (foldl put_line [] ls) = 0 then Ret (None, w)
         else obind (parse_body jparse raw E) (case_option (Ret (None, w)) (\<lambda>j.
           Ret (Some \<lparr>req_id = fst (fresh_uuid w), req_method = to_method m, req_path = path,
             req_version = version, req_headers = foldl put_line [] ls, req_body = j\<rparr>,
             snd (fresh_uuid w)))))"
    by (simp only: parse_def Let_def pos sizet_pos [OF small] if_not_P [OF et_npos] obind.simps
        target view fields) (simp add: split_beta split: list.split option.split)
  have "parse_ref jparse raw w =
      (if to_method m = UNKNOWN \<or> crlf_lines V = [] \<or>
          um_find CaseInsensitiveEqual ''Host'' (foldl put_line [] (crlf_lines V)) = None
       then Ret (None, w)
       else case (if B = [] then Parsed JNull else jparse B) of
           Parse_error \<Rightarrow> Ret (None, w)
         | Parse_exception \<Rightarrow> Raise Json_exception
         | Parsed j \<Rightarrow> Ret (Some \<lparr>req_id = fst (fresh_uuid w), req_method = to_method m,
             req_path = path, req_version = version,
             req_headers = foldl put_line [] (crlf_lines V), req_body = j\<rparr>, snd (fresh_uuid w)))"
    by (simp only: parse_ref_def Some option.case Let_def tw prod.case V_def [symmetric]
        B_def [symmetric])
  then show ?thesis
    unfolding lhs body
    by (auto simp: um_count_def split: option.split list.split json_parse.split)
qed

text \<open>
  C5. On every input below \<open>2 ^ 31\<close> bytes the parser with its narrowed positions, its
  loop and its substring calls computes what the reference parser computes: the request
  line split at the first two spaces, the fields of the complete lines of the header view
  stored in order, and the JSON value of the body. The connections bound inputs by
  8191 bytes.
\<close>
theorem parse_equals_reference:
  assumes "length raw < 2 ^ 31"
  shows "parse jparse raw w = parse_ref jparse raw w"
  using assms by (rule parse_ref_eq)

theorem parse_equals_reference_witness:
  "parse (\<lambda>_. Parse_error) ''GET /'' sample_world = Ret (None, sample_world)"
proof -
  have "first_match crlf ''GET /'' = None" by code_simp
  then have "parse_ref (\<lambda>_. Parse_error) ''GET /'' sample_world = Ret (None, sample_world)"
    by (simp add: parse_ref_def)
  then show ?thesis using parse_equals_reference [of "''GET /''"] by simp
qed

text \<open>
  C38. Parsing always comes to an end and never reads outside its input: below
  \<open>2 ^ 31\<close> bytes the loop needs no more turns than the input has bytes, no
  \<open>substr\<close> throws \<open>out_of_range\<close>, and the only exception that can escape is one of
  the JSON library that is not a \<open>parse_error\<close>, raised on the body.
\<close>
theorem parse_returns:
  assumes "length raw < 2 ^ 31"
  shows "(\<exists>req w'. parse jparse raw w = Ret (req, w')) \<or>
    (parse jparse raw w = Raise Json_exception \<and>
     (\<exists>j. first_match (crlf @ crlf) raw = Some j \<and> jparse (drop (j + 4) raw) = Parse_exception))"
  unfolding parse_ref_eq [OF assms] parse_ref_def
  by (auto simp: Let_def split_beta split: option.split json_parse.split if_splits)

theorem parse_returns_witness:
  "\<exists>req w'. parse (\<lambda>_. Parse_error) ''GET / HTTP/1.1'' sample_world = Ret (req, w')"
  using parse_returns [of "''GET / HTTP/1.1''" "\<lambda>_. Parse_error" sample_world] by simp

text \<open>
  C37. What an accepted request guarantees to the router and the handlers: a supported
  method, a \<open>Host\<close> header under some capitalisation, a fresh version 4 identifier made of
  the next two draws, and header names that are distinct up to case.
\<close>
theorem parse_accepts:
  assumes "length raw < 2 ^ 31" and "parse jparse raw w = Ret (Some req, w')"
  shows "req_method req \<noteq> UNKNOWN \<and>
    um_find CaseInsensitiveEqual ''host'' (req_headers req) \<noteq> None \<and>
    um_wf CaseInsensitiveEqual (req_headers req) \<and>
    req_id req = generate_uuid_v4 (draws w (drawn w)) (draws w (drawn w + 1)) \<and>
    uuid_v4_shape (req_id req) \<and> w' = w\<lparr>drawn := drawn w + 2\<rparr>"
proof -
  have wf: "um_wf CaseInsensitiveEqual hs \<Longrightarrow> um_wf CaseInsensitiveEqual (foldl put_line hs ls)"
    for hs ls
    by (induction ls arbitrary: hs)
       (auto simp: put_line_def ci.wf_assign split: option.split)
  have "map tolower ''Host'' = map tolower ''host''" by code_simp
  then have "um_find CaseInsensitiveEqual ''Host'' hs = um_find CaseInsensitiveEqual ''host'' hs"
    for hs :: headers
    by (intro ci.find_cong) (simp only: CaseInsensitiveEqual_lower)
  moreover have "uuid_v4_shape (fst (fresh_uuid w))"
    using generate_shape by (simp add: fresh_uuid_def)
  ultimately show ?thesis
    using assms(2) wf [of "[]"] unfolding parse_ref_eq [OF assms(1)] parse_ref_def
    by (auto simp: Let_def split_beta fresh_uuid_def
        split: option.splits json_parse.splits if_splits)
qed

theorem parse_accepts_witness:
  "\<exists>req w'. parse (\<lambda>_. Parse_error) (''get /uni HTTP/1.1'' @ crlf @ ''host: x'' @ crlf @ crlf) sample_world =
     Ret (Some req, w') \<and> req_method req \<noteq> UNKNOWN \<and> uuid_v4_shape (req_id req)"
proof -
  let ?raw = "''get /uni HTTP/1.1'' @ crlf @ ''host: x'' @ crlf @ crlf"
  have f: "first_match crlf ?raw = Some 17" "first_match (crlf @ crlf) ?raw = Some 26"
      "target_words (take 17 ?raw) = (''get'', ''/uni'', ''HTTP/1.1'')"
      "crlf_lines (take 26 (drop (17 + 2) ?raw)) = [''host: x'', []]"
      "foldl put_line [] [''host: x'', []] = [(''host'', ''x'')]" "to_method ''get'' = GET"
      "um_find CaseInsensitiveEqual ''Host'' [(''host'', ''x'')] = Some ''x''" "drop (26 + 4) ?raw = []"
    by code_simp+
  have "\<exists>req w'. parse_ref (\<lambda>_. Parse_error) ?raw sample_world = Ret (Some req, w')"
    by (simp only: parse_ref_def f option.case Let_def prod.case) simp
  then obtain req w' where r: "parse (\<lambda>_. Parse_error) ?raw sample_world = Ret (Some req, w')"
    using parse_ref_eq [of ?raw "\<lambda>_. Parse_error" sample_world] by (auto simp: crlf_def)
  have "length ?raw < 2 ^ 31" by (simp add: crlf_def)
  from parse_accepts [OF this r] r show ?thesis by blast
qed

end
