(* ===== verification/CodecRoundTrip.thy ===== *)
theory CodecRoundTrip
  imports Codec
begin

text \<open>
  The codec against the text it is meant to read and write. \<open>print_request\<close> prints a
  request the way RFC 9112 lays it out; the parser recovers it. \<open>read_response\<close> is a
  client that frames a response by its status line, its header lines and
  \<open>Content-Length\<close>; it recovers what \<open>serialize\<close> was given. The header view of
  \<open>parse\<close> is longer than the header section, and the lemmas say by how much.
\<close>

section \<open>Text made of lines\<close>

definition join_lines :: "string list \<Rightarrow> string" where
  "join_lines ls = concat (map (\<lambda>l. l @ crlf) ls)"

lemma join_lines_simps [simp]:
  "join_lines [] = []" "join_lines (l # ls) = l @ crlf @ join_lines ls"
  by (simp_all add: join_lines_def)

lemma crlf_lines_None: "CHR 0x0D \<notin> set s \<Longrightarrow> crlf_lines s = []"
  by (subst crlf_lines.simps) (simp add: first_match_crlf_None)

lemma crlf_lines_line:
  "CHR 0x0D \<notin> set l \<Longrightarrow> crlf_lines (l @ crlf @ t) = l # crlf_lines t"
  by (subst crlf_lines.simps) (simp add: first_match_crlf_append, simp add: crlf_def)

lemma crlf_lines_join:
  "\<forall>l \<in> set ls. CHR 0x0D \<notin> set l \<Longrightarrow> crlf_lines (join_lines ls @ t) = ls @ crlf_lines t"
  by (induction ls) (simp_all add: crlf_lines_line)

lemma first_match_skip:
  "CHR 0x0D \<notin> set s \<Longrightarrow>
   first_match (crlf @ p) (s @ t) = map_option (\<lambda>k. length s + k) (first_match (crlf @ p) t)"
  by (induction s)
     (simp_all add: crlf_def option.map_comp comp_def map_option_case split: option.split)

text \<open>The blank line after a block of non-blank lines is found at the end of the block.\<close>

lemma first_match_blank_line:
  assumes "\<forall>l \<in> set (l # ls). CHR 0x0D \<notin> set l" "[] \<notin> set ls"
  shows "first_match (crlf @ crlf) (join_lines (l # ls) @ crlf @ body) =
    Some (length l + length (join_lines ls))"
  using assms
proof (induction ls arbitrary: l)
  case Nil
  then show ?case by (simp add: first_match_skip) (simp add: crlf_def)
next
  case (Cons l2 ls)
  then obtain c cs where l2: "l2 = c # cs" "c \<noteq> CHR 0x0D" by (cases l2) auto
  then have "first_match (crlf @ crlf) (crlf @ l2 @ t) =
      map_option (\<lambda>k. 2 + k) (first_match (crlf @ crlf) (l2 @ t))" for t
    by (simp add: crlf_def option.map_comp comp_def)
  moreover have "first_match (crlf @ crlf) (l2 @ crlf @ join_lines ls @ crlf @ body) =
      Some (length l2 + length (join_lines ls))"
    using Cons.IH [of l2] Cons.prems by simp
  ultimately show ?case
    using Cons.prems by (simp add: first_match_skip) (simp add: crlf_def)
qed

section \<open>Printing a request\<close>

definition field_line :: "string \<times> string \<Rightarrow> string" where
  "field_line f = fst f @ '': '' @ snd f"

definition request_line :: "string \<Rightarrow> string \<Rightarrow> string \<Rightarrow> string" where
  "request_line m path version = m @ '' '' @ path @ '' '' @ version"

definition print_request :: "string \<Rightarrow> string \<Rightarrow> string \<Rightarrow> headers \<Rightarrow> string \<Rightarrow> string" where
  "print_request m path version hs body =
     request_line m path version @ crlf @ header_lines hs @ crlf @ body"

text \<open>Which requests can be printed without ambiguity.\<close>

definition no_chars :: "string \<Rightarrow> string \<Rightarrow> bool" where
  "no_chars cs s \<longleftrightarrow> list_all (\<lambda>c. c \<notin> set cs) s"

definition field_ok :: "string \<times> string \<Rightarrow> bool" where
  "field_ok f \<longleftrightarrow> no_chars (CHR '':'' # crlf) (fst f) \<and> no_chars [CHR 0x0D] (snd f) \<and>
     snd f \<noteq> [] \<and> no_chars [CHR 0x20, CHR 0x09] (take 1 (snd f))"

definition printable :: "string \<Rightarrow> string \<Rightarrow> string \<Rightarrow> headers \<Rightarrow> bool" where
  "printable m path version hs \<longleftrightarrow>
     to_method m \<noteq> UNKNOWN \<and> no_chars (CHR '' '' # crlf) m \<and>
     no_chars (CHR '' '' # crlf) path \<and> no_chars [CHR 0x0D] version \<and>
     list_all field_ok hs \<and> um_wf CaseInsensitiveEqual hs \<and>
     um_find CaseInsensitiveEqual ''Host'' hs \<noteq> None"

lemma header_lines_join: "header_lines hs = join_lines (map field_line hs)"
  by (induction hs) (auto simp: header_lines_def field_line_def)

lemma field_line_ok: "field_ok f \<Longrightarrow> CHR 0x0D \<notin> set (field_line f) \<and> field_line f \<noteq> []"
  by (auto simp: field_ok_def field_line_def no_chars_def list_all_iff crlf_def)

lemma put_field_line:
  assumes "field_ok (k, v)"
  shows "put_line hs (field_line (k, v)) = um_assign CaseInsensitiveEqual k v hs"
proof -
  have k: "CHR '':'' \<notin> set k" using assms by (auto simp: field_ok_def no_chars_def list_all_iff)
  obtain c cs where v: "v = c # cs" using assms by (cases v) (auto simp: field_ok_def)
  then have "skip_blank (CHR '' '' # v) = v"
    using assms by (simp add: field_ok_def no_chars_def skip_blank_def)
  then have "line_field (field_line (k, v)) = Some (k, v)"
    using line_field_colon [OF k, of "CHR '' '' # v"] by (simp add: field_line_def)
  then show ?thesis by (simp add: put_line_def)
qed

text \<open>Distinct fields stored one after the other give the list of the fields.\<close>

lemma put_lines:
  "list_all field_ok hs \<Longrightarrow> um_wf CaseInsensitiveEqual hs \<Longrightarrow>
   foldl put_line [] (map field_line hs) = hs"
proof (induction hs rule: rev_induct)
  case (snoc f hs)
  obtain k v where f: "f = (k, v)" by (cases f)
  have "foldl put_line [] (map field_line hs) = hs"
    using snoc um_wf_append [of _ hs "[f]"] by simp
  moreover have "um_find CaseInsensitiveEqual k hs = None"
    using snoc.prems f by (intro ci.wf_snoc_absent [of _ _ v]) simp
  ultimately show ?case
    using snoc.prems by (simp add: f put_field_line ci.assign_absent)
qed simp

lemma target_words_line:
  "CHR '' '' \<notin> set m \<Longrightarrow> CHR '' '' \<notin> set path \<Longrightarrow>
   target_words (request_line m path version) = (m, path, version)"
  by (simp add: target_words_def request_line_def)
section \<open>Parsing what was printed\<close>

text \<open>
  The header view starts behind the request line but has the length of the request line
  and the header section together: it runs into the body by the length of the request
  line less two. The CRLF-terminated lines found there are stored as headers.
\<close>

definition view_overrun :: "string \<Rightarrow> string \<Rightarrow> string list" where
  "view_overrun line body = crlf_lines (take (length line - 2) body)"

lemma put_line_keeps:
  "um_find CaseInsensitiveEqual k hs \<noteq> None \<Longrightarrow>
   um_find CaseInsensitiveEqual k (foldl put_line hs ls) \<noteq> None"
  by (induction ls arbitrary: hs) (simp_all add: put_line_def ci.find_assign split: option.split)

lemma printable_lines:
  assumes "printable m path version hs"
  shows "\<forall>l \<in> set (request_line m path version # map field_line hs). CHR 0x0D \<notin> set l"
    and "[] \<notin> set (map field_line hs)"
proof -
  have "list_all field_ok hs" using assms by (simp add: printable_def)
  then have f: "\<forall>f \<in> set hs. CHR 0x0D \<notin> set (field_line f) \<and> field_line f \<noteq> []"
    unfolding list_all_iff using field_line_ok by blast
  have "CHR 0x0D \<notin> set m" "CHR 0x0D \<notin> set path" "CHR 0x0D \<notin> set version"
    using assms by (simp_all add: printable_def no_chars_def list_all_iff crlf_def) blast+
  then have "CHR 0x0D \<notin> set (request_line m path version)" by (simp add: request_line_def)
  with f show "\<forall>l \<in> set (request_line m path version # map field_line hs). CHR 0x0D \<notin> set l"
    by simp
  show "[] \<notin> set (map field_line hs)" using f by (metis (no_types) imageE set_map)
qed

lemma print_request_lines:
  "print_request m path version hs body =
   join_lines (request_line m path version # map field_line hs) @ crlf @ body"
  by (simp add: print_request_def header_lines_join)

text \<open>The positions the parser finds, and the texts between them.\<close>

lemma printed_positions:
  fixes m path version hs body
  defines "line \<equiv> request_line m path version" and "raw \<equiv> print_request m path version hs body"
  assumes ok: "printable m path version hs"
  shows "first_match crlf raw = Some (length line)"
    and "first_match (crlf @ crlf) raw = Some (length line + length (header_lines hs))"
    and "take (length line) raw = line"
    and "take (length line + length (header_lines hs)) (drop (length line + 2) raw) =
      header_lines hs @ crlf @ take (length line - 2) body"
    and "drop (length line + length (header_lines hs) + 4) raw = body"
proof -
  note cr = printable_lines(1) [OF ok]
  have raw: "raw = line @ crlf @ header_lines hs @ crlf @ body"
    by (simp add: raw_def line_def print_request_def)
  show "first_match crlf raw = Some (length line)"
    using cr by (simp add: raw line_def first_match_crlf_append)
  show "first_match (crlf @ crlf) raw = Some (length line + length (header_lines hs))"
    unfolding raw_def line_def print_request_lines header_lines_join
    by (rule first_match_blank_line [OF printable_lines [OF ok]])
  show "take (length line) raw = line" by (simp add: raw)
  have "2 \<le> length line" by (simp add: line_def request_line_def)
  then have "take (length line) (crlf @ body) = crlf @ take (length line - 2) body"
    by (auto simp: crlf_def take_Cons' numeral_2_eq_2)
  moreover have "drop (length line + 2) raw = header_lines hs @ crlf @ body"
    by (simp add: raw crlf_def)
  ultimately show "take (length line + length (header_lines hs)) (drop (length line + 2) raw) =
      header_lines hs @ crlf @ take (length line - 2) body"
    by (simp only: take_append) simp
  have "raw = (line @ crlf @ header_lines hs @ crlf) @ body" by (simp add: raw)
  moreover have "length (line @ crlf @ header_lines hs @ crlf) =
      length line + length (header_lines hs) + 4"
    by (simp add: crlf_def)
  ultimately show "drop (length line + length (header_lines hs) + 4) raw = body"
    by (metis append_eq_conv_conj)
qed

lemma parse_ref_print:
  assumes ok: "printable m path version hs"
  shows "parse_ref jparse (print_request m path version hs body) w =
    (case (if body = [] then Parsed JNull else jparse body) of
       Parse_error \<Rightarrow> Ret (None, w)
     | Parse_exception \<Rightarrow> Raise Json_exception
     | Parsed j \<Rightarrow> Ret (Some \<lparr>req_id = fst (fresh_uuid w), req_method = to_method m,
         req_path = path, req_version = version,
         req_headers = foldl put_line hs (view_overrun (request_line m path version) body),
         req_body = j\<rparr>, snd (fresh_uuid w)))"
proof -
  let ?line = "request_line m path version"
  let ?over = "take (length ?line - 2) body"
  let ?hs = "foldl put_line hs (view_overrun ?line body)"
  have m: "CHR '' '' \<notin> set m" "CHR '' '' \<notin> set path" "to_method m \<noteq> UNKNOWN"
    and fields: "list_all field_ok hs" "um_wf CaseInsensitiveEqual hs"
    and host: "um_find CaseInsensitiveEqual ''Host'' hs \<noteq> None"
    using ok by (auto simp: printable_def no_chars_def list_all_iff)
  have "crlf_lines (header_lines hs @ crlf @ ?over) = map field_line hs @ [] # crlf_lines ?over"
    using printable_lines(1) [OF ok] crlf_lines_line [of "[]"]
    by (simp add: header_lines_join crlf_lines_join)
  then have lines: "foldl put_line [] (crlf_lines (header_lines hs @ crlf @ ?over)) = ?hs"
      "crlf_lines (header_lines hs @ crlf @ ?over) \<noteq> []"
    using put_lines [OF fields] by (simp_all add: view_overrun_def put_line_def line_field_def)
  have "um_find CaseInsensitiveEqual ''Host'' ?hs \<noteq> None" by (rule put_line_keeps [OF host])
  moreover have "target_words ?line = (m, path, version)" using m by (intro target_words_line)
  ultimately show ?thesis
    using m lines
    by (simp only: parse_ref_def printed_positions [OF ok] Let_def prod.case
        option.case) (simp split: json_parse.split)
qed



text \<open>
  C24. How far the header scan runs past the blank line: the headers of a parsed request are
  the fields of the header section followed by one assignment for every complete line within
  the first \<open>length line - 2\<close> bytes of the body, where \<open>line\<close> is the request line. A
  JSON body laid out over several lines therefore adds headers to the request, as in the
  witness, whose body has the member \<open>a\<close>.
\<close>
theorem header_view_overruns_body:
  assumes "printable m path version hs"
    and "length (print_request m path version hs body) < 2 ^ 31"
    and "body \<noteq> []" and "jparse body = Parsed j"
  shows "parse jparse (print_request m path version hs body) w =
    Ret (Some \<lparr>req_id = fst (fresh_uuid w), req_method = to_method m, req_path = path,
      req_version = version,
      req_headers = foldl put_line hs (crlf_lines (take (length m + length path + length version) body)),
      req_body = j\<rparr>, snd (fresh_uuid w))"
proof -
  have "length (request_line m path version) - 2 = length m + length path + length version"
    by (simp add: request_line_def)
  then show ?thesis
    by (simp only: parse_ref_eq [OF assms(2)] parse_ref_print [OF assms(1)] assms(3,4) if_False
        json_parse.case view_overrun_def)
qed

theorem header_view_overruns_body_witness:
  "\<exists>req w'. parse (\<lambda>_. Parsed JNull) (print_request ''POST'' ''/uni'' ''HTTP/1.1'' [(''Host'', ''x'')]
       (''{'' @ crlf @ [CHR 0x22, CHR ''a'', CHR 0x22] @ '': 1'' @ crlf @ ''}'')) sample_world = Ret (Some req, w') \<and>
     req_headers req = [(''Host'', ''x''), ([CHR 0x22, CHR ''a'', CHR 0x22], ''1'')]"
proof -
  let ?body = "''{'' @ crlf @ [CHR 0x22, CHR ''a'', CHR 0x22] @ '': 1'' @ crlf @ ''}''"
  have "printable ''POST'' ''/uni'' ''HTTP/1.1'' [(''Host'', ''x'')]" by code_simp
  moreover have "foldl put_line [(''Host'', ''x'')]
      (crlf_lines (take (length ''POST'' + length ''/uni'' + length ''HTTP/1.1'') ?body)) =
      [(''Host'', ''x''), ([CHR 0x22, CHR ''a'', CHR 0x22], ''1'')]"
    by code_simp
  moreover have "length (print_request ''POST'' ''/uni'' ''HTTP/1.1'' [(''Host'', ''x'')] ?body) < 2 ^ 31"
    by (simp add: print_request_def request_line_def header_lines_def crlf_def)
  ultimately show ?thesis
    by (simp only: header_view_overruns_body list.distinct append_is_Nil_conv simp_thms
        outcome.inject prod.inject option.inject)
       (intro exI conjI, rule refl, rule refl, simp only: Request.select_convs)
qed

section \<open>A client that reads responses\<close>

text \<open>
  \<open>read_response\<close> takes the first response off a byte stream: status line and header
  lines up to the blank line, then as many bytes of body as \<open>Content-Length\<close> says. It
  returns the status code, the headers, the body and the rest of the stream.
\<close>

definition read_response :: "string \<Rightarrow> (nat \<times> headers \<times> string \<times> string) option" where
  "read_response s =
     (case first_match (crlf @ crlf) s of
        None \<Rightarrow> None
      | Some eh \<Rightarrow>
        (case crlf_lines (take (eh + 2) s) of
           [] \<Rightarrow> None
         | l # ls \<Rightarrow>
           (let hs = foldl put_line [] ls; rest = drop (eh + 4) s in
            case um_find CaseInsensitiveEqual ''Content-Length'' hs of
              None \<Rightarrow> None
            | Some n \<Rightarrow>
                Some (read_base 10 (fst (snd (target_words l))), hs,
                  take (read_base 10 n) rest, drop (read_base 10 n) rest))))"

text \<open>The headers \<open>serialize\<close> writes.\<close>

definition wire_headers :: "nat \<Rightarrow> headers \<Rightarrow> headers" where
  "wire_headers n hs =
     (''Content-Type'', ''application/json'') # (''Content-Length'', dec n) # hs"

definition status_line :: "http \<Rightarrow> string" where
  "status_line s = request_line ''HTTP/1.1'' (dec (http_code s)) (obsolete_reason s)"

lemma reason_no_cr: "CHR 0x0D \<notin> set (obsolete_reason s)"
  by (cases s) simp_all

lemma dec_not_in: "c \<notin> set ''0123456789'' \<Longrightarrow> c \<notin> set (dec n)"
  using dec_digits by blast

lemma serialize_lines:
  assumes "jdump (resp_body resp) = Some body"
  shows "serialize jdump resp =
    Ret (join_lines (status_line (resp_status resp) #
      map field_line (wire_headers (length body) (resp_headers resp))) @ crlf @ body)"
  using assms
  by (simp add: serialize_def response_line_def status_line_def request_line_def wire_headers_def
      field_line_def header_lines_join)

lemma no_chars_dec [simp]: "no_chars [CHR 0x0D] (dec n)"
  using dec_not_in [of "CHR 0x0D" n] by (auto simp: no_chars_def list_all_iff)

lemma dec_first [simp]: "no_chars [CHR 0x20, CHR 0x09] (take (Suc 0) (dec n))"
  using dec_not_in [of "CHR 0x20" n] dec_not_in [of "CHR 0x09" n]
  by (auto simp: no_chars_def list_all_iff dest: in_set_takeD)

lemma dec_nonempty [simp]: "dec n \<noteq> []"
  by (simp add: dec_def)

lemma serializer_names:
  "no_chars (CHR '':'' # crlf) ''Content-Type''" "no_chars (CHR '':'' # crlf) ''Content-Length''"
  "field_ok (''Content-Type'', ''application/json'')"
  "\<not> CaseInsensitiveEqual ''Content-Length'' ''Content-Type''"
  "\<not> CaseInsensitiveEqual ''Content-Type'' ''Content-Length''"
  by code_simp+

text \<open>A response whose own headers do not collide with those of the serializer.\<close>

definition response_ok :: "Response \<Rightarrow> bool" where
  "response_ok resp \<longleftrightarrow>
     list_all field_ok (resp_headers resp) \<and> um_wf CaseInsensitiveEqual (resp_headers resp) \<and>
     um_find CaseInsensitiveEqual ''Content-Type'' (resp_headers resp) = None \<and>
     um_find CaseInsensitiveEqual ''Content-Length'' (resp_headers resp) = None"

lemma wire_headers_ok:
  assumes "response_ok resp"
  shows "list_all field_ok (wire_headers n (resp_headers resp))"
    and "um_wf CaseInsensitiveEqual (wire_headers n (resp_headers resp))"
    and "um_find CaseInsensitiveEqual ''Content-Length'' (wire_headers n (resp_headers resp)) =
      Some (dec n)"
proof -
  have "field_ok (''Content-Length'', dec n)"
    using serializer_names(2) by (simp add: field_ok_def)
  then show "list_all field_ok (wire_headers n (resp_headers resp))"
    and "um_wf CaseInsensitiveEqual (wire_headers n (resp_headers resp))"
    and "um_find CaseInsensitiveEqual ''Content-Length'' (wire_headers n (resp_headers resp)) =
      Some (dec n)"
    using assms serializer_names
    by (simp_all add: wire_headers_def response_ok_def ci.eq_refl)
qed

lemma serialized_readable:
  assumes "response_ok resp" and "jdump (resp_body resp) = Some body"
  shows "\<exists>out. serialize jdump resp = Ret out \<and>
    read_response (out @ rest) =
      Some (http_code (resp_status resp), wire_headers (length body) (resp_headers resp), body, rest)"
proof -
  let ?l = "status_line (resp_status resp)"
  let ?W = "wire_headers (length body) (resp_headers resp)"
  let ?ls = "map field_line ?W"
  let ?out = "join_lines (?l # ?ls) @ crlf @ body"
  note W = wire_headers_ok [OF assms(1), of "length body"]
  have l: "CHR 0x0D \<notin> set ?l"
    using reason_no_cr dec_not_in [of "CHR 0x0D"]
    by (simp add: status_line_def request_line_def)
  have f: "\<forall>f \<in> set ?W. CHR 0x0D \<notin> set (field_line f) \<and> field_line f \<noteq> []"
    using W(1) field_line_ok unfolding list_all_iff by blast
  then have cr: "\<forall>x \<in> set (?l # ?ls). CHR 0x0D \<notin> set x" and ne: "[] \<notin> set ?ls"
    using l by (simp, metis (no_types) imageE set_map)
  have eh: "first_match (crlf @ crlf) (?out @ rest) = Some (length ?l + length (join_lines ?ls))"
    using first_match_blank_line [OF cr ne, of "body @ rest"] by simp
  have n: "length (join_lines (?l # ?ls)) = length ?l + length (join_lines ?ls) + 2"
      "length (join_lines (?l # ?ls) @ crlf) = length ?l + length (join_lines ?ls) + 4"
    by (simp_all add: crlf_def)
  have head: "take (length ?l + length (join_lines ?ls) + 2) (?out @ rest) = join_lines (?l # ?ls)"
    unfolding n(1) [symmetric] by (simp only: append_assoc) simp
  have tail: "drop (length ?l + length (join_lines ?ls) + 4) (?out @ rest) = body @ rest"
    unfolding n(2) [symmetric] append_assoc [symmetric] by (simp only: append_eq_conv_conj [THEN iffD1] append_assoc) simp
  have "crlf_lines (join_lines (?l # ?ls)) = ?l # ?ls"
    using crlf_lines_join [OF cr, of "[]"] crlf_lines_None [of "[]"] by simp
  moreover have "target_words ?l = (''HTTP/1.1'', dec (http_code (resp_status resp)),
      obsolete_reason (resp_status resp))"
    unfolding status_line_def by (rule target_words_line) (use dec_not_in in auto)
  ultimately have "read_response (?out @ rest) =
      Some (http_code (resp_status resp), ?W, body, rest)"
    using put_lines [OF W(1,2)] W(3)
    by (simp only: read_response_def eh head tail option.case list.case Let_def) (simp add: read_dec)
  then show ?thesis using serialize_lines [where jdump = jdump, OF assms(2)] by blast
qed

text \<open>
  C8. A response arrives as it was sent: from the serialised text, followed by any further
  bytes of the stream, a client reads the status code, the headers (the serializer's two,
  then the response's own), exactly the bytes of the dumped body, and leaves exactly the
  further bytes. \<open>Content-Length\<close> is therefore the exact length of the body.
\<close>
theorem read_serialized_response:
  assumes "response_ok resp" and "jdump (resp_body resp) = Some body"
  shows "\<exists>out. serialize jdump resp = Ret out \<and>
    read_response (out @ rest) =
      Some (http_code (resp_status resp), wire_headers (length body) (resp_headers resp), body, rest)"
  using assms by (rule serialized_readable)

theorem read_serialized_response_witness:
  "\<exists>out. serialize (\<lambda>_. Some ''{}'') \<lparr>resp_status = ok, resp_headers = [(''X-Request-Id'', ''7'')],
       resp_body = JNull\<rparr> = Ret out \<and>
     read_response (out @ ''next'') = Some (200, wire_headers 2 [(''X-Request-Id'', ''7'')], ''{}'', ''next'')"
proof -
  let ?r = "\<lparr>resp_status = ok, resp_headers = [(''X-Request-Id'', ''7'')], resp_body = JNull\<rparr>"
  have "response_ok ?r" by code_simp
  then show ?thesis
    using read_serialized_response [of ?r "\<lambda>_. Some ''{}''" "''{}''" "''next''"] by (simp add: numeral_2_eq_2)
qed

end
