(* ===== verification/Connection.thy ===== *)
theory Connection
  imports CodecRoundTrip
begin

text \<open>
  \<open>src/src/server/.../http/http_connection.{h,cc}\<close> and \<open>https_connection.{h,cc}\<close>: one
  connection of a client, served by one forked process. What the operating system (or
  OpenSSL) does is a script of the \<open>endpoint\<close>: the segments as they become available to
  the receiver, and how much each sending call accepts. A call for which the script holds
  nothing more blocks for ever (\<open>Diverge\<close>). The locale \<open>byte_sender\<close> is the contract of
  the two \<open>send\<close> functions on which everything that answers a client rests.
\<close>

definition kReceptionBufSize :: nat where "kReceptionBufSize = 1024"
definition kReceptionBufLimit :: nat where "kReceptionBufLimit = 8 * kReceptionBufSize"
definition kInvalidSocket :: int where "kInvalidSocket = - 1"
definition kEmptyDescriptor :: int where "kEmptyDescriptor = 0"

section \<open>The other end of the socket\<close>

text \<open>
  \<open>Retry\<close> is \<open>EINTR\<close>, \<open>EAGAIN\<close> or \<open>EWOULDBLOCK\<close> on a socket, and
  \<open>SSL_ERROR_WANT_READ\<close> or \<open>SSL_ERROR_WANT_WRITE\<close> under TLS; \<open>Closed\<close> is the end of
  the stream or \<open>SSL_ERROR_ZERO_RETURN\<close>; \<open>Failed\<close> is every other error.
\<close>

datatype arrival = Bytes string | Retry | Closed | Failed

datatype send_result = Accepts nat | Send_retry | Send_closed | Send_failed

record endpoint =
  arrivals :: "arrival list"
  sends :: "send_result list"
  wire :: string             \<comment> \<open>everything the client has been sent\<close>
  closed_fds :: "int list"   \<comment> \<open>the arguments of \<open>close\<close>, in order\<close>
  ssl_freed :: nat           \<comment> \<open>calls of \<open>SSL_free\<close> on the connection's object\<close>

text \<open>
  A receiving call with room for \<open>n\<close> bytes takes at most \<open>n\<close> bytes of the segment that
  is available and leaves the rest of it for the next call.
\<close>

fun receive :: "nat \<Rightarrow> arrival list \<Rightarrow> (arrival \<times> arrival list) option" where
  "receive n [] = None"
| "receive n (Bytes s # as) =
     (if length s \<le> n then Some (Bytes s, as)
      else Some (Bytes (take n s), Bytes (drop n s) # as))"
| "receive n (a # as) = Some (a, as)"

text \<open>The bytes the script still holds.\<close>

fun pending :: "arrival list \<Rightarrow> string" where
  "pending [] = []"
| "pending (Bytes s # as) = s @ pending as"
| "pending (a # as) = pending as"

fun script_size :: "arrival list \<Rightarrow> nat" where
  "script_size [] = 0"
| "script_size (Bytes s # as) = Suc (length s) + script_size as"
| "script_size (a # as) = Suc (script_size as)"

lemma receive_size:
  "receive n as = Some (a, as') \<Longrightarrow> a \<noteq> Bytes [] \<Longrightarrow> script_size as' < script_size as"
  by (cases "(n, as)" rule: receive.cases) (auto split: if_splits)

lemma receive_bytes:
  "receive n as = Some (Bytes s, as') \<Longrightarrow> length s \<le> n \<and> pending as = s @ pending as'"
  by (cases "(n, as)" rule: receive.cases) (auto split: if_splits)

lemma receive_other:
  "receive n as = Some (a, as') \<Longrightarrow> (\<nexists>s. a = Bytes s) \<Longrightarrow> pending as = pending as'"
  by (cases "(n, as)" rule: receive.cases) (auto split: if_splits)

section \<open>The connection objects\<close>

record ClientConnection =
  client_id :: string
  sockfd :: int
  ip :: string
  port :: nat

text \<open>\<open>bufsize\<close> is positive: \<open>listenInternal\<close> checks it.\<close>

record HttpConnection =
  client :: ClientConnection
  conn_req :: string
  bufsize :: nat

definition default_client :: ClientConnection where
  "default_client = \<lparr>client_id = [], sockfd = kInvalidSocket, ip = [], port = 0\<rparr>"

definition new_connection :: "ClientConnection \<Rightarrow> nat \<Rightarrow> HttpConnection" where
  "new_connection c n = \<lparr>client = c, conn_req = [], bufsize = n\<rparr>"

section \<open>Sending\<close>

text \<open>\<open>HttpConnection::send\<close>: the loop over \<open>::send\<close> from position \<open>total_send\<close>.\<close>

fun http_send_loop ::
    "send_result list \<Rightarrow> string \<Rightarrow> nat \<Rightarrow> string \<Rightarrow> (bool \<times> send_result list \<times> string) outcome" where
  "http_send_loop script resp total_send out =
     (if \<not> total_send < length resp then Ret (True, script, out)
      else
        (case script of
           [] \<Rightarrow> Diverge
         | Send_retry # script' \<Rightarrow> http_send_loop script' resp total_send out
         | Accepts k # script' \<Rightarrow>
             (let numbytes = min k (length resp - total_send) in
              if numbytes = 0 then Ret (False, script', out)
              else http_send_loop script' resp (total_send + numbytes)
                     (out @ take numbytes (drop total_send resp)))
         | _ # script' \<Rightarrow> Ret (False, script', out)))"

declare http_send_loop.simps [simp del]

definition HttpConnection_send :: "string \<Rightarrow> endpoint \<Rightarrow> (bool \<times> endpoint) outcome" where
  "HttpConnection_send resp ep =
     obind (http_send_loop (sends ep) resp 0 (wire ep)) (\<lambda>(result, script, out).
       Ret (result, ep\<lparr>sends := script, wire := out\<rparr>))"

text \<open>
  \<open>HttpsConnection::send\<close>. The chunk length is cast to \<open>int\<close>; \<open>SSL_write\<close> refuses a
  length that is not positive, and a result that is not positive and not a retry ends the
  loop, whether the peer closed the connection or an error occurred.
\<close>

fun tls_send_loop ::
    "send_result list \<Rightarrow> string \<Rightarrow> nat \<Rightarrow> string \<Rightarrow> (bool \<times> send_result list \<times> string) outcome" where
  "tls_send_loop script resp total_sent out =
     (if \<not> total_sent < length resp then Ret (True, script, out)
      else
        (let chunk = int32 (length resp - total_sent) in
         case script of
           [] \<Rightarrow> Diverge
         | a # script' \<Rightarrow>
             if chunk \<le> 0 then Ret (False, script', out)
             else
             (case a of
                Accepts k \<Rightarrow>
                  (let numbytes = min k (nat chunk) in
                   if numbytes > 0 then
                     tls_send_loop script' resp (total_sent + numbytes)
                       (out @ take numbytes (drop total_sent resp))
                   else Ret (False, script', out))
              | Send_retry \<Rightarrow> tls_send_loop script' resp total_sent out
              | Send_closed \<Rightarrow> Ret (False, script', out)
              | Send_failed \<Rightarrow> Ret (False, script', out))))"

declare tls_send_loop.simps [simp del]

definition HttpsConnection_send :: "string \<Rightarrow> endpoint \<Rightarrow> (bool \<times> endpoint) outcome" where
  "HttpsConnection_send resp ep =
     obind (tls_send_loop (sends ep) resp 0 (wire ep)) (\<lambda>(result, script, out).
       Ret (result, ep\<lparr>sends := script, wire := out\<rparr>))"

section \<open>Receiving\<close>

text \<open>
  What \<open>std::string::append(const char*)\<close> reads from the buffer: the bytes before the
  first NUL. When the buffer holds none it runs on into \<open>beyond\<close>, the memory behind the
  array (undefined behaviour in C++; the parameter stands for whatever is there).
\<close>

definition c_string :: "string \<Rightarrow> string \<Rightarrow> string" where
  "c_string buf beyond = takeWhile (\<lambda>c. c \<noteq> CHR 0x00) (buf @ beyond)"

text \<open>The error answers of both \<open>recv\<close> functions.\<close>

definition send_status ::
    "json_dumper \<Rightarrow> (string \<Rightarrow> endpoint \<Rightarrow> (bool \<times> endpoint) outcome) \<Rightarrow> retCode \<Rightarrow>
     endpoint \<Rightarrow> world \<Rightarrow> (endpoint \<times> world) outcome" where
  "send_status jdump send code ep w =
     (let (resp, w') = makeResp_fresh code (JObject []) w in
      obind (serialize jdump resp) (\<lambda>text.
      obind (send text ep) (\<lambda>(_, ep'). Ret (ep', w'))))"

text \<open>
  \<open>HttpConnection::recv\<close>: the result is the request text, or \<open>None\<close> when the function
  returns \<open>false\<close>. \<open>buf\<close> is the content of the (uninitialised) array.
\<close>

function http_recv_loop ::
    "json_dumper \<Rightarrow> string \<Rightarrow> nat \<Rightarrow> string \<Rightarrow> nat \<Rightarrow> string \<Rightarrow> endpoint \<Rightarrow> world \<Rightarrow>
     (string option \<times> endpoint \<times> world) outcome" where
  "http_recv_loop jdump beyond bufsz buf resbytes req ep w =
     (case receive bufsz (arrivals ep) of
        None \<Rightarrow> Diverge
      | Some (a, as) \<Rightarrow>
        (let ep' = ep\<lparr>arrivals := as\<rparr> in
         case a of
           Retry \<Rightarrow> obind (send_status jdump HttpConnection_send InternalError ep' w)
             (\<lambda>(ep2, w2). Ret (None, ep2, w2))
         | Failed \<Rightarrow> obind (send_status jdump HttpConnection_send InternalError ep' w)
             (\<lambda>(ep2, w2). Ret (None, ep2, w2))
         | Closed \<Rightarrow> Ret (None, ep', w)
         | Bytes s \<Rightarrow>
             if s = [] then Ret (None, ep', w)
             else if resbytes + length s \<ge> kReceptionBufLimit then
               obind (send_status jdump HttpConnection_send RequestBufferOverflow ep' w)
                 (\<lambda>(ep2, w2). Ret (None, ep2, w2))
             else
               (let buf' = s @ drop (length s) buf;
                    req' = req @ c_string buf' beyond in
                if length s < bufsz then Ret (Some req', ep', w)
                else http_recv_loop jdump beyond bufsz buf' (resbytes + length s) req' ep' w)))"
  by pat_completeness auto
termination
proof (relation "measure (\<lambda>(_, _, _, _, _, _, ep, _). script_size (arrivals ep))")
  fix bufsz :: nat and ep :: endpoint and x a as ep' s
  assume "receive bufsz (arrivals ep) = Some x" "(a, as) = x" "a = Bytes s" "s \<noteq> []"
    and ep': "ep' = ep\<lparr>arrivals := as\<rparr>"
  then have "script_size as < script_size (arrivals ep)" by (auto dest: receive_size)
  then show "((jdump, beyond, bufsz, buf', r, q, ep', w), jdump, beyond, bufsz, buf, r0, q0, ep, w)
      \<in> measure (\<lambda>(_, _, _, _, _, _, ep, _). script_size (arrivals ep))"
    for jdump :: json_dumper and beyond buf' buf q q0 :: string and r r0 :: nat and w :: world
    by (simp add: ep')
qed simp

declare http_recv_loop.simps [simp del]

definition HttpConnection_recv ::
    "json_dumper \<Rightarrow> string \<Rightarrow> string \<Rightarrow> HttpConnection \<Rightarrow> endpoint \<Rightarrow> world \<Rightarrow>
     (bool \<times> HttpConnection \<times> endpoint \<times> world) outcome" where
  "HttpConnection_recv jdump buf beyond conn ep w =
     noexcept (obind (http_recv_loop jdump beyond (bufsize conn) buf 0 [] ep w)
       (\<lambda>(req, ep', w'). case req of
          None \<Rightarrow> Ret (False, conn, ep', w')
        | Some r \<Rightarrow> Ret (True, conn\<lparr>conn_req := r\<rparr>, ep', w')))"

text \<open>\<open>HttpsConnection::recv\<close>: the append takes the number of bytes read.\<close>

function tls_recv_loop ::
    "json_dumper \<Rightarrow> nat \<Rightarrow> nat \<Rightarrow> string \<Rightarrow> endpoint \<Rightarrow> world \<Rightarrow>
     (string option \<times> endpoint \<times> world) outcome" where
  "tls_recv_loop jdump bufsz resbytes req ep w =
     (case receive bufsz (arrivals ep) of
        None \<Rightarrow> Diverge
      | Some (a, as) \<Rightarrow>
        (let ep' = ep\<lparr>arrivals := as\<rparr> in
         case a of
           Bytes s \<Rightarrow>
             if s \<noteq> [] then
               (if resbytes + length s \<ge> kReceptionBufLimit then
                  obind (send_status jdump HttpsConnection_send RequestBufferOverflow ep' w)
                    (\<lambda>(ep2, w2). Ret (None, ep2, w2))
                else
                  (let req' = req @ s in
                   if length s < bufsz then Ret (Some req', ep', w)
                   else tls_recv_loop jdump bufsz (resbytes + length s) req' ep' w))
             else Ret (None, ep', w)
         | Retry \<Rightarrow> tls_recv_loop jdump bufsz resbytes req ep' w
         | Closed \<Rightarrow> Ret (None, ep', w)
         | Failed \<Rightarrow> obind (send_status jdump HttpsConnection_send InternalError ep' w)
             (\<lambda>(ep2, w2). Ret (None, ep2, w2))))"
  by pat_completeness auto
termination
proof (relation "measure (\<lambda>(_, _, _, _, ep, _). script_size (arrivals ep))")
  fix bufsz :: nat and ep :: endpoint and x a as ep'
  assume r: "receive bufsz (arrivals ep) = Some x" "(a, as) = x" and ep': "ep' = ep\<lparr>arrivals := as\<rparr>"
  have *: "script_size as < script_size (arrivals ep)" if "a \<noteq> Bytes []"
    using r that by (auto dest: receive_size)
  show "((jdump, bufsz, r1, q1, ep', w), jdump, bufsz, r0, q0, ep, w)
      \<in> measure (\<lambda>(_, _, _, _, ep, _). script_size (arrivals ep))"
    if "a = Bytes s" "s \<noteq> []"
    for s q1 q0 :: string and jdump :: json_dumper and r1 r0 :: nat and w :: world
    using * that by (simp add: ep')
  show "((jdump, bufsz, r0, q0, ep', w), jdump, bufsz, r0, q0, ep, w)
      \<in> measure (\<lambda>(_, _, _, _, ep, _). script_size (arrivals ep))"
    if "a = Retry" for q0 :: string and jdump :: json_dumper and r0 :: nat and w :: world
    using * that by (simp add: ep')
qed simp

declare tls_recv_loop.simps [simp del]

definition HttpsConnection_recv ::
    "json_dumper \<Rightarrow> HttpConnection \<Rightarrow> endpoint \<Rightarrow> world \<Rightarrow>
     (bool \<times> HttpConnection \<times> endpoint \<times> world) outcome" where
  "HttpsConnection_recv jdump conn ep w =
     noexcept (obind (tls_recv_loop jdump (bufsize conn) 0 [] ep w)
       (\<lambda>(req, ep', w'). case req of
          None \<Rightarrow> Ret (False, conn, ep', w')
        | Some r \<Rightarrow> Ret (True, conn\<lparr>conn_req := r\<rparr>, ep', w')))"

section \<open>Serving one request\<close>

definition execution ::
    "json_parser \<Rightarrow> json_dumper \<Rightarrow> manager \<Rightarrow> HttpConnection \<Rightarrow> world \<Rightarrow> (string \<times> world) outcome" where
  "execution jparse jdump mgr conn w =
     noexcept (obind (process jparse jdump mgr new_codec (conn_req conn) w)
       (\<lambda>(resp, codec, w'). Ret (resp, w')))"

definition HttpConnection_process ::
    "json_parser \<Rightarrow> json_dumper \<Rightarrow> manager \<Rightarrow> string \<Rightarrow> string \<Rightarrow> HttpConnection \<Rightarrow> endpoint \<Rightarrow>
     world \<Rightarrow> (bool \<times> HttpConnection \<times> endpoint \<times> world) outcome" where
  "HttpConnection_process jparse jdump mgr buf beyond conn ep w =
     obind (HttpConnection_recv jdump buf beyond conn ep w) (\<lambda>(good, conn', ep', w').
     if \<not> good then Ret (False, conn', ep', w')
     else
       obind (execution jparse jdump mgr conn' w') (\<lambda>(resp, w2).
       obind (noexcept (HttpConnection_send resp ep')) (\<lambda>(sent, ep2). Ret (sent, conn', ep2, w2))))"

definition HttpsConnection_process ::
    "json_parser \<Rightarrow> json_dumper \<Rightarrow> manager \<Rightarrow> HttpConnection \<Rightarrow> endpoint \<Rightarrow>
     world \<Rightarrow> (bool \<times> HttpConnection \<times> endpoint \<times> world) outcome" where
  "HttpsConnection_process jparse jdump mgr conn ep w =
     obind (HttpsConnection_recv jdump conn ep w) (\<lambda>(good, conn', ep', w').
     if \<not> good then Ret (False, conn', ep', w')
     else
       obind (execution jparse jdump mgr conn' w') (\<lambda>(resp, w2).
       obind (noexcept (HttpsConnection_send resp ep')) (\<lambda>(sent, ep2). Ret (sent, conn', ep2, w2))))"

section \<open>Destruction\<close>

definition close_fd :: "int \<Rightarrow> endpoint \<Rightarrow> endpoint" where
  "close_fd fd ep = ep\<lparr>closed_fds := closed_fds ep @ [fd]\<rparr>"

definition HttpConnection_closeConnection :: "int \<Rightarrow> endpoint \<Rightarrow> int \<times> endpoint" where
  "HttpConnection_closeConnection fd ep =
     (if fd > 0 then (kEmptyDescriptor, close_fd fd ep) else (kInvalidSocket, ep))"

definition ClientConnection_destroy :: "ClientConnection \<Rightarrow> endpoint \<Rightarrow> endpoint" where
  "ClientConnection_destroy c ep = (if sockfd c > 0 then close_fd (sockfd c) ep else ep)"

text \<open>The destructor of the connection, then that of its member \<open>client_\<close>.\<close>

definition HttpConnection_destroy :: "HttpConnection \<Rightarrow> endpoint \<Rightarrow> endpoint" where
  "HttpConnection_destroy conn ep =
     (let (fd, ep') = HttpConnection_closeConnection (sockfd (client conn)) ep in
      ClientConnection_destroy ((client conn)\<lparr>sockfd := fd\<rparr>) ep')"

text \<open>\<open>SSL_shutdown\<close> only logs its failure; then \<open>SSL_free\<close>, then the base class.\<close>

definition HttpsConnection_destroy :: "HttpConnection \<Rightarrow> endpoint \<Rightarrow> endpoint" where
  "HttpsConnection_destroy conn ep =
     HttpConnection_destroy conn (ep\<lparr>ssl_freed := ssl_freed ep + 1\<rparr>)"

end
