(* ===== verification/Pipeline.thy ===== *)
theory Pipeline
  imports CodecRoundTrip
begin

text \<open>
  \<open>HttpCodec::process\<close> as a whole: the text of a request goes in, the text of the one
  response comes out. \<open>expected_answer\<close> says which response it is, from the reference
  parser and the table of registered handlers; the built-in responses are shown to be
  readable by the client of \<open>CodecRoundTrip\<close>.
\<close>

section \<open>Built-in responses can be read\<close>

lemma uuid_field_ok:
  assumes "uuid_v4_shape rid"
  shows "field_ok (''X-Request-Id'', rid)"
proof -
  have len: "length rid = 36" using assms by (simp add: uuid_v4_shape_def)
  have "c \<in> set ''-0123456789abcdef''" if c: "c \<in> set rid" for c
  proof -
    obtain i where i: "i < 36" "rid ! i = c" using c len by (metis in_set_conv_nth)
    have "c = CHR ''-'' \<or> c \<in> set ''0123456789abcdef''"
      using assms i unfolding uuid_v4_shape_def by metis
    then show ?thesis by auto
  qed
  then have set_rid: "set rid \<subseteq> set ''-0123456789abcdef''" by blast
  moreover have "CHR 0x0D \<notin> set ''-0123456789abcdef''" "CHR 0x20 \<notin> set ''-0123456789abcdef''"
    "CHR 0x09 \<notin> set ''-0123456789abcdef''"
    by code_simp+
  ultimately have "CHR 0x0D \<notin> set rid" "CHR 0x20 \<notin> set rid" "CHR 0x09 \<notin> set rid" by blast+
  moreover have "no_chars (CHR '':'' # crlf) ''X-Request-Id''" by code_simp
  moreover have "rid \<noteq> []" using len by auto
  ultimately show ?thesis
    by (auto simp: field_ok_def no_chars_def list_all_iff dest: in_set_takeD)
qed

lemma builtin_ok: "uuid_v4_shape rid \<Longrightarrow> response_ok (fst (makeResp code rid r w))"
proof -
  have "\<not> CaseInsensitiveEqual ''X-Request-Id'' ''Content-Type''"
    "\<not> CaseInsensitiveEqual ''X-Request-Id'' ''Content-Length''"
    by code_simp+
  then show "uuid_v4_shape rid \<Longrightarrow> ?thesis" by (simp add: response_ok_def uuid_field_ok)
qed

lemma builtin_fresh_ok: "response_ok (fst (makeResp_fresh code r w))"
  by (simp add: makeResp_fresh_def fresh_uuid_def builtin_ok generate_shape)

text \<open>Bounds on the text of a built-in response with a body of two bytes, for the examples.\<close>

lemma reason_short: "length (obsolete_reason s) \<le> 40" "http_code s < 10 ^ 3"
  by (cases s; simp)+

lemma builtin_text_short:
  assumes "serialize (\<lambda>_. Some ''{}'') (fst (makeResp_fresh code r w)) = Ret out"
  shows "length out \<le> 1000"
proof -
  have "length (fst (fresh_uuid w)) = 36"
    using generate_shape by (simp add: fresh_uuid_def uuid_v4_shape_def)
  moreover have "length (show_base 10 (documented_status code)) \<le> 3"
    using reason_short(2) [of "to_http_status code"] by (intro length_show_base) auto
  moreover have "length (show_base 10 (Suc (Suc 0))) \<le> 1"
    by (rule length_show_base; simp)
  ultimately show ?thesis
    using assms reason_short(1) [of "to_http_status code"]
    by (auto simp: serialize_def makeResp_fresh_def makeResp_def get_timestamp_ms_def fresh_uuid_def
        response_line_def header_lines_def dec_def crlf_def split_beta)
qed

section \<open>The answer to a request\<close>

definition expected_answer ::
    "json_parser \<Rightarrow> registration list \<Rightarrow> string \<Rightarrow> world \<Rightarrow> (Response \<times> world) outcome" where
  "expected_answer jparse rs raw w =
     obind (parse_ref jparse raw w) (\<lambda>(req, w1).
     case req of
       None \<Rightarrow> Ret (makeResp_fresh InvalidJsonOrParams (JObject []) w1)
     | Some r \<Rightarrow> route_answer rs r w1)"

definition process_text ::
    "json_parser \<Rightarrow> json_dumper \<Rightarrow> manager \<Rightarrow> HttpCodec \<Rightarrow> string \<Rightarrow> world \<Rightarrow>
     (string \<times> world) outcome" where
  "process_text jparse jdump m c raw w =
     obind (process jparse jdump m c raw w) (\<lambda>(out, _, w'). Ret (out, w'))"

lemma process_answer:
  assumes len: "length raw < 2 ^ 31"
    and m: "run_registrations rs (RouterManager_Init m0) = Ret (bs, m)"
  shows "process_text jparse jdump m c raw w =
    obind (expected_answer jparse rs raw w) (\<lambda>(resp, w').
    obind (serialize jdump resp) (\<lambda>out. Ret (out, w')))"
proof (cases "parse_ref jparse raw w")
  case (Ret x)
  obtain req w1 where x: "x = (req, w1)" by (cases x)
  show ?thesis
  proof (cases req)
    case None
    then show ?thesis
      by (simp add: process_text_def process_def parse_w_def parse_ref_eq [OF len] expected_answer_def
          Ret x split_beta obind_assoc)
  next
    case (Some r)
    then show ?thesis
      by (cases "route_answer rs r w1")
         (simp_all add: process_text_def process_def parse_w_def parse_ref_eq [OF len]
           expected_answer_def Ret x split_beta obind_assoc route_registered [OF m])
  qed
qed (simp_all add: process_text_def process_def parse_w_def parse_ref_eq [OF len] expected_answer_def)

text \<open>
  C2. The whole round trip through the codec refines its specification: for inputs below
  \<open>2 ^ 31\<close> bytes and a manager filled by registrations, \<open>process\<close> serialises the
  response of \<open>expected_answer\<close>: a 400 when the reference parser rejects the text, else
  the answer of the first matching handler, else a 404.
\<close>
theorem process_refines_specification:
  assumes "length raw < 2 ^ 31"
    and "run_registrations rs (RouterManager_Init m0) = Ret (bs, m)"
  shows "process_text jparse jdump m c raw w =
    obind (expected_answer jparse rs raw w) (\<lambda>(resp, w').
    obind (serialize jdump resp) (\<lambda>out. Ret (out, w')))"
  using assms by (rule process_answer)

theorem process_refines_specification_witness:
  "\<exists>bs m. run_registrations [Reg_Get ''/uni'' None] (RouterManager_Init None) = Ret (bs, m) \<and>
     process_text (\<lambda>_. Parse_error) (\<lambda>_. Some ''{}'') m new_codec ''GET /uni'' sample_world =
     obind (serialize (\<lambda>_. Some ''{}'') (fst (makeResp_fresh InvalidJsonOrParams (JObject []) sample_world)))
       (\<lambda>out. Ret (out, snd (makeResp_fresh InvalidJsonOrParams (JObject []) sample_world)))"
proof -
  let ?rs = "[Reg_Get ''/uni'' None]"
  obtain bs m where m: "run_registrations ?rs (RouterManager_Init None) = Ret (bs, m)"
    by (simp only: registered_manager outcome.inject prod.inject)
  have "first_match crlf ''GET /uni'' = None" by code_simp
  then have "expected_answer (\<lambda>_. Parse_error) ?rs ''GET /uni'' sample_world =
      Ret (makeResp_fresh InvalidJsonOrParams (JObject []) sample_world)"
    by (simp add: expected_answer_def parse_ref_def)
  then show ?thesis
    using process_refines_specification [OF _ m, of "''GET /uni''" "\<lambda>_. Parse_error" "\<lambda>_. Some ''{}''"
        new_codec sample_world] m
    by (simp add: split_beta)
qed

section \<open>Built-in answers\<close>

text \<open>
  When the answer is built in, and which: the router is absent (\<open>None\<close>) or holds the
  handlers of a list of registrations.
\<close>

fun builtin_error :: "registration list option \<Rightarrow> Request option \<Rightarrow> retCode option" where
  "builtin_error rs None = Some InvalidJsonOrParams"
| "builtin_error None (Some r) = Some InternalError"
| "builtin_error (Some rs) (Some r) =
     (if first_handler rt_accepts route_key (map reg_entry rs) (req_method r) (req_path r) = None
      then Some NotFound else None)"

definition manager_of :: "registration list option \<Rightarrow> manager" where
  "manager_of rs =
     (case rs of None \<Rightarrow> None | Some l \<Rightarrow> Some (snd (add_all rt_add rt_new (map reg_entry l))))"

lemma run_registrations_manager:
  "run_registrations rs (RouterManager_Init m0) = Ret (bs, m) \<longleftrightarrow>
   bs = fst (add_all rt_add rt_new (map reg_entry rs)) \<and> m = manager_of (Some rs)"
  by (auto simp: registered_manager manager_of_def)

text \<open>The envelope of a built-in answer: a code, its text and a time.\<close>

definition builtin_body :: "retCode \<Rightarrow> int \<Rightarrow> json" where
  "builtin_body code t = JObject [(''retCode'', JInt (int (retcode_num code))),
     (''retMesg'', JString (retMesg code)), (''time'', JInt t), (''result'', JObject [])]"

lemma makeResp_body:
  "\<exists>t. resp_body (fst (makeResp code rid (JObject []) w)) = builtin_body code t"
  "\<exists>t. resp_body (fst (makeResp_fresh code (JObject []) w)) = builtin_body code t"
  by (simp_all add: builtin_body_def makeResp_fresh_def makeResp_def get_timestamp_ms_def fresh_uuid_def)

lemma parse_ref_id:
  "parse_ref jparse raw w = Ret (Some r, w1) \<Longrightarrow> uuid_v4_shape (req_id r)"
  by (auto simp: parse_ref_def Let_def split_beta fresh_uuid_def generate_shape
      split: option.splits json_parse.splits if_splits)

lemma builtin_answer:
  assumes len: "length raw < 2 ^ 31" and ref: "parse_ref jparse raw w = Ret (req, w1)"
    and err: "builtin_error rs req = Some code"
  shows "\<exists>resp w2. response_ok resp \<and> http_code (resp_status resp) = documented_status code \<and>
    (\<exists>t. resp_body resp = builtin_body code t) \<and>
    process_text jparse jdump (manager_of rs) c raw w =
      obind (serialize jdump resp) (\<lambda>out. Ret (out, w2))"
proof (cases req)
  case None
  then show ?thesis
    using ref err
    by (intro exI [of _ "fst (makeResp_fresh InvalidJsonOrParams (JObject []) w1)"]
          exI [of _ "snd (makeResp_fresh InvalidJsonOrParams (JObject []) w1)"])
       (simp add: process_text_def process_def parse_w_def parse_ref_eq [OF len] split_beta
         obind_assoc builtin_fresh_ok http_code_to_http_status makeResp_body)
next
  case (Some r)
  show ?thesis
  proof (cases rs)
    case None
    then show ?thesis
      using ref err Some
      by (intro exI [of _ "fst (makeResp_fresh InternalError (JObject []) w1)"]
            exI [of _ "snd (makeResp_fresh InternalError (JObject []) w1)"])
         (simp add: process_text_def process_def parse_w_def parse_ref_eq [OF len] split_beta
           obind_assoc builtin_fresh_ok http_code_to_http_status manager_of_def
           RouterManager_Route_def makeResp_body)
  next
    case rs: (Some l)
    have reg: "run_registrations l (RouterManager_Init None) =
        Ret (fst (add_all rt_add rt_new (map reg_entry l)), manager_of rs)"
      by (simp add: run_registrations_manager rs)
    have "route_answer l r w1 = Ret (makeResp NotFound (req_id r) (JObject []) w1)"
      and code: "code = NotFound"
      using err Some rs by (auto simp: route_answer_def split: if_splits option.splits)
    then have "process_text jparse jdump (manager_of rs) c raw w =
        obind (serialize jdump (fst (makeResp NotFound (req_id r) (JObject []) w1)))
          (\<lambda>out. Ret (out, snd (makeResp NotFound (req_id r) (JObject []) w1)))"
      using ref Some by (simp add: process_answer [OF len reg] expected_answer_def split_beta)
    moreover have "response_ok (fst (makeResp NotFound (req_id r) (JObject []) w1))"
      using ref Some by (intro builtin_ok parse_ref_id [of jparse raw w r w1]) simp
    ultimately show ?thesis using code makeResp_simps(1) http_code_to_http_status makeResp_body(1) by metis
  qed
qed

text \<open>
  C9. Errors are answered, never dropped: a text the parser rejects gets a response a client
  reads as 400, whatever the state of the router; an accepted request gets 500 when there
  is no router and 404 when no handler matches. The response is framed exactly, so that
  the bytes behind it stay on the stream. Of the JSON library it asks only that it prints the
  envelope of the answer, which holds a number, a time and the fixed text of the code.
\<close>
theorem errors_are_answered:
  assumes "length raw < 2 ^ 31" and "parse_ref jparse raw w = Ret (req, w1)"
    and "builtin_error rs req = Some code" and "\<And>t. jdump (builtin_body code t) \<noteq> None"
  shows "\<exists>out w2 hs body. process_text jparse jdump (manager_of rs) c raw w = Ret (out, w2) \<and>
    read_response (out @ rest) = Some (documented_status code, hs, body, rest)"
proof -
  obtain resp w2 where r: "response_ok resp" "http_code (resp_status resp) = documented_status code"
      "\<exists>t. resp_body resp = builtin_body code t"
      "process_text jparse jdump (manager_of rs) c raw w =
        obind (serialize jdump resp) (\<lambda>out. Ret (out, w2))"
    using builtin_answer [OF assms(1-3), of jdump c] by blast
  obtain body where "jdump (resp_body resp) = Some body" using assms(4) r(3) by fastforce
  then obtain out where "serialize jdump resp = Ret out"
      "read_response (out @ rest) = Some (http_code (resp_status resp),
        wire_headers (length body) (resp_headers resp), body, rest)"
    using serialized_readable [OF r(1)] by blast
  with r show ?thesis by simp
qed

theorem errors_are_answered_witness:
  "\<exists>out w2 hs body. process_text (\<lambda>_. Parse_error) (\<lambda>_. Some ''{}'') (manager_of None) new_codec
       ''GET /uni'' sample_world = Ret (out, w2) \<and>
     read_response (out @ []) = Some (400, hs, body, [])"
proof -
  have "first_match crlf ''GET /uni'' = None" by code_simp
  then have "parse_ref (\<lambda>_. Parse_error) ''GET /uni'' sample_world = Ret (None, sample_world)"
    by (simp add: parse_ref_def)
  from errors_are_answered [OF _ this, of None InvalidJsonOrParams "\<lambda>_. Some ''{}''" new_codec "[]"]
  show ?thesis by simp
qed

end
