(* ===== verification/Delivery.thy ===== *)
theory Delivery
  imports Connection Pipeline
begin

text \<open>
  What the connections of \<open>Connection\<close> promise: the contract of the sending functions
  (locale \<open>byte_sender\<close>, met by both), what the receiving functions take off the stream
  and how they frame a request, and what the destructors release.
\<close>

section \<open>The contract of a sender\<close>

text \<open>The script accepts \<open>n\<close> more bytes without an error in between.\<close>

fun willing :: "send_result list \<Rightarrow> nat \<Rightarrow> bool" where
  "willing script 0 \<longleftrightarrow> True"
| "willing [] (Suc n) \<longleftrightarrow> False"
| "willing (Send_retry # script) (Suc n) \<longleftrightarrow> willing script (Suc n)"
| "willing (Accepts k # script) (Suc n) \<longleftrightarrow> 0 < k \<and> willing script (Suc n - k)"
| "willing (Send_closed # script) (Suc n) \<longleftrightarrow> False"
| "willing (Send_failed # script) (Suc n) \<longleftrightarrow> False"

lemma willing_more:
  "0 < n \<Longrightarrow> willing script n \<longleftrightarrow>
    (case script of
       [] \<Rightarrow> False
     | Send_retry # script' \<Rightarrow> willing script' n
     | Accepts k # script' \<Rightarrow> 0 < k \<and> willing script' (n - k)
     | _ # script' \<Rightarrow> False)"
  by (cases "(script, n)" rule: willing.cases) auto

text \<open>
  A call of \<open>send\<close> that returns has put a prefix of the text on the wire, all of it
  exactly when it reports success; it touches nothing else.
\<close>

definition sends_prefix :: "string \<Rightarrow> endpoint \<Rightarrow> (bool \<times> endpoint) outcome \<Rightarrow> bool" where
  "sends_prefix resp ep r \<longleftrightarrow>
     (case r of
        Ret (good, ep') \<Rightarrow>
          prefix (wire ep) (wire ep') \<and>
          prefix (drop (length (wire ep)) (wire ep')) resp \<and>
          (good \<longleftrightarrow> wire ep' = wire ep @ resp) \<and>
          ep' = ep\<lparr>sends := sends ep', wire := wire ep'\<rparr>
      | Diverge \<Rightarrow> True
      | _ \<Rightarrow> False)"

locale byte_sender =
  fixes send :: "string \<Rightarrow> endpoint \<Rightarrow> (bool \<times> endpoint) outcome"
  assumes send_prefix: "length resp < 2 ^ 31 \<Longrightarrow> sends_prefix resp ep (send resp ep)"
    and send_willing: "length resp < 2 ^ 31 \<Longrightarrow> willing (sends ep) (length resp) \<Longrightarrow>
      \<exists>script. send resp ep = Ret (True, ep\<lparr>sends := script, wire := wire ep @ resp\<rparr>)"
begin

lemma send_quiet: "length resp < 2 ^ 31 \<Longrightarrow> noexcept (send resp ep) = send resp ep"
  using send_prefix [of resp ep] by (cases "send resp ep") (auto simp: sends_prefix_def)

lemma send_Ret:
  assumes "length resp < 2 ^ 31" "send resp ep = Ret (good, ep')"
  obtains k script where "k \<le> length resp" "good \<longleftrightarrow> k = length resp"
    "ep' = ep\<lparr>sends := script, wire := wire ep @ take k resp\<rparr>"
proof -
  have p: "sends_prefix resp ep (Ret (good, ep'))" using send_prefix [OF assms(1), of ep] assms(2) by simp
  then obtain t where t: "wire ep' = wire ep @ t" "prefix t resp" by (auto simp: sends_prefix_def prefix_def)
  then obtain u where "resp = t @ u" by (auto simp: prefix_def)
  with t p have "length t \<le> length resp" "good \<longleftrightarrow> length t = length resp"
    "ep' = ep\<lparr>sends := sends ep', wire := wire ep @ take (length t) resp\<rparr>"
    by (auto simp: sends_prefix_def)
  then show ?thesis by (rule that)
qed

text \<open>An error answer that is sent completely, and what a partial one leaves behind.\<close>

lemma send_status_willing:
  assumes "serialize jdump (fst (makeResp_fresh code (JObject []) w)) = Ret text"
    and "length text < 2 ^ 31" "willing (sends ep) (length text)"
  shows "\<exists>script. send_status jdump send code ep w =
    Ret (ep\<lparr>sends := script, wire := wire ep @ text\<rparr>, snd (makeResp_fresh code (JObject []) w))"
  using send_willing [OF assms(2,3)] assms(1)
  by (auto simp: send_status_def split_beta)

lemma send_status_arrivals:
  assumes "send_status jdump send code ep w = Ret (ep', w')"
    and "\<And>text. serialize jdump (fst (makeResp_fresh code (JObject []) w)) = Ret text \<Longrightarrow>
      length text < 2 ^ 31"
  shows "arrivals ep' = arrivals ep \<and> prefix (wire ep) (wire ep')"
  using assms send_Ret
  by (fastforce simp: send_status_def split_beta outcome_simps)

end

section \<open>Both senders meet it\<close>

text \<open>Both loops are the same walk over the bytes that are left.\<close>

fun send_rest :: "send_result list \<Rightarrow> string \<Rightarrow> string \<Rightarrow> (bool \<times> send_result list \<times> string) outcome" where
  "send_rest script [] out = Ret (True, script, out)"
| "send_rest [] (c # cs) out = Diverge"
| "send_rest (Send_retry # script) (c # cs) out = send_rest script (c # cs) out"
| "send_rest (Accepts k # script) (c # cs) out =
     (if k = 0 then Ret (False, script, out)
      else send_rest script (drop k (c # cs)) (out @ take k (c # cs)))"
| "send_rest (Send_closed # script) (c # cs) out = Ret (False, script, out)"
| "send_rest (Send_failed # script) (c # cs) out = Ret (False, script, out)"

lemma drop_nonempty: "i < length xs \<Longrightarrow> \<exists>c cs. drop i xs = c # cs"
  by (cases "drop i xs") auto

lemma min_drop: "drop (i + min k (length xs - i)) xs = drop k (drop i xs)"
  "take (min k (length xs - i)) (drop i xs) = take k (drop i xs)"
  by (auto simp: min_def add.commute)

lemma http_send_loop_rest:
  "i \<le> length resp \<Longrightarrow> http_send_loop script resp i out = send_rest script (drop i resp) out"
proof (induction script arbitrary: i out)
  case Nil
  then show ?case
    using drop_nonempty [of i resp] by (subst http_send_loop.simps) auto
next
  case (Cons a script)
  show ?case
  proof (cases "i < length resp")
    case False
    with Cons.prems show ?thesis by (subst http_send_loop.simps) simp
  next
    case True
    then obtain c cs where c: "drop i resp = c # cs" using drop_nonempty by blast
    have "http_send_loop script resp (i + min k (length resp - i))
        (out @ take (min k (length resp - i)) (drop i resp)) =
      send_rest script (drop k (drop i resp)) (out @ take k (drop i resp))" for k
      using Cons.IH [of "i + min k (length resp - i)"] True by (simp add: min_drop)
    then show ?thesis
      using True Cons.IH [of i] by (subst http_send_loop.simps, cases a) (auto simp: c Let_def)
  qed
qed

lemma tls_send_loop_rest:
  "i \<le> length resp \<Longrightarrow> length resp < 2 ^ 31 \<Longrightarrow>
   tls_send_loop script resp i out = send_rest script (drop i resp) out"
proof (induction script arbitrary: i out)
  case Nil
  then show ?case
    using drop_nonempty [of i resp] by (subst tls_send_loop.simps) (auto simp: Let_def)
next
  case (Cons a script)
  show ?case
  proof (cases "i < length resp")
    case False
    with Cons.prems show ?thesis by (subst tls_send_loop.simps) simp
  next
    case True
    then obtain c cs where c: "drop i resp = c # cs" using drop_nonempty by blast
    have chunk: "int32 (length resp - i) = int (length resp - i)"
      using Cons.prems by (intro int32_small) simp
    have "tls_send_loop script resp (i + min k (length resp - i))
        (out @ take (min k (length resp - i)) (drop i resp)) =
      send_rest script (drop k (drop i resp)) (out @ take k (drop i resp))" for k
      using Cons.IH [of "i + min k (length resp - i)"] True Cons.prems by (simp add: min_drop)
    then show ?thesis
      using True Cons.IH [of i] Cons.prems
      by (subst tls_send_loop.simps, cases a) (auto simp: c Let_def chunk simp del: of_nat_diff)
  qed
qed

lemma send_rest_result:
  "send_rest script resp out = Diverge \<or>
   (\<exists>good script' k. send_rest script resp out = Ret (good, script', out @ take k resp) \<and>
     k \<le> length resp \<and> (good \<longleftrightarrow> k = length resp))"
proof (induction script resp out rule: send_rest.induct)
  case (4 k script c cs out)
  show ?case
  proof (cases "k = 0")
    case True
    then show ?thesis by (auto intro!: exI [of _ 0])
  next
    case False
    let ?r = "c # cs"
    from 4 [OF False] show ?thesis
    proof (elim disjE exE conjE)
      fix good script' j
      assume j: "send_rest script (drop k ?r) (out @ take k ?r) =
          Ret (good, script', (out @ take k ?r) @ take j (drop k ?r))"
        "j \<le> length (drop k ?r)" "good \<longleftrightarrow> j = length (drop k ?r)"
      have "take k ?r @ take j (drop k ?r) = take (k + j) ?r" by (simp only: take_add)
      also have "\<dots> = take (min (k + j) (length ?r)) ?r" by (cases "k + j \<le> length ?r") (simp_all add: min_def del: take_Suc_Cons)
      finally show ?thesis
        using False j by (intro disjI2 exI [of _ good] exI [of _ script'] exI [of _ "min (k + j) (length ?r)"]) auto
    qed (use False in simp)
  qed
qed (auto intro!: exI [of _ 0])

lemma send_rest_willing:
  "willing script (length resp) \<Longrightarrow> \<exists>script'. send_rest script resp out = Ret (True, script', out @ resp)"
proof (induction script resp out rule: send_rest.induct)
  case (4 k script c cs out)
  then show ?case by (auto simp del: drop_Cons' take_Cons')
qed auto

lemma sends_prefix_rest:
  "sends_prefix resp ep (obind (send_rest (sends ep) resp (wire ep)) (\<lambda>(result, script, out).
     Ret (result, ep\<lparr>sends := script, wire := out\<rparr>)))"
  using send_rest_result [of "sends ep" resp "wire ep"]
  by (auto simp: sends_prefix_def take_is_prefix)

lemma HttpConnection_send_rest:
  "HttpConnection_send resp ep =
     obind (send_rest (sends ep) resp (wire ep)) (\<lambda>(result, script, out).
       Ret (result, ep\<lparr>sends := script, wire := out\<rparr>))"
  by (simp add: HttpConnection_send_def http_send_loop_rest)

lemma HttpsConnection_send_rest:
  "length resp < 2 ^ 31 \<Longrightarrow> HttpsConnection_send resp ep =
     obind (send_rest (sends ep) resp (wire ep)) (\<lambda>(result, script, out).
       Ret (result, ep\<lparr>sends := script, wire := out\<rparr>))"
  by (simp add: HttpsConnection_send_def tls_send_loop_rest)

interpretation http: byte_sender HttpConnection_send
proof unfold_locales
  fix resp :: string and ep :: endpoint
  show "sends_prefix resp ep (HttpConnection_send resp ep)"
    unfolding HttpConnection_send_rest by (rule sends_prefix_rest)
  assume "willing (sends ep) (length resp)"
  then show "\<exists>script. HttpConnection_send resp ep = Ret (True, ep\<lparr>sends := script, wire := wire ep @ resp\<rparr>)"
    using send_rest_willing [of "sends ep" resp "wire ep"] by (auto simp: HttpConnection_send_rest)
qed

interpretation tls: byte_sender HttpsConnection_send
proof unfold_locales
  fix resp :: string and ep :: endpoint
  assume len: "length resp < 2 ^ 31"
  show "sends_prefix resp ep (HttpsConnection_send resp ep)"
    unfolding HttpsConnection_send_rest [OF len] by (rule sends_prefix_rest)
  assume "willing (sends ep) (length resp)"
  then show "\<exists>script. HttpsConnection_send resp ep = Ret (True, ep\<lparr>sends := script, wire := wire ep @ resp\<rparr>)"
    using send_rest_willing [of "sends ep" resp "wire ep"] by (auto simp: HttpsConnection_send_rest [OF len])
qed

section \<open>Framing: where a request ends\<close>

lemma tls_recv_take:
  assumes "arrivals ep = Bytes s # as" "s \<noteq> []" "0 < n" "resbytes + min n (length s) < kReceptionBufLimit"
  shows "tls_recv_loop jdump n resbytes req ep w =
    (if length s < n then Ret (Some (req @ s), ep\<lparr>arrivals := as\<rparr>, w)
     else tls_recv_loop jdump n (resbytes + n) (req @ take n s)
       (ep\<lparr>arrivals := (if length s = n then as else Bytes (drop n s) # as)\<rparr>) w)"
proof -
  consider "length s < n" | "length s = n" | "n < length s" by linarith
  then show ?thesis
    using assms by cases (subst tls_recv_loop.simps, simp add: Let_def)+
qed

text \<open>
  A segment below the limit is read in pieces of \<open>bufsize\<close> bytes; the loop ends inside
  it unless its length is a multiple of \<open>bufsize\<close>.
\<close>

lemma tls_recv_segment:
  assumes "arrivals ep = Bytes s # as" "s \<noteq> []" "0 < n" "resbytes + length s < kReceptionBufLimit"
  shows "tls_recv_loop jdump n resbytes req ep w =
    (if n dvd length s then tls_recv_loop jdump n (resbytes + length s) (req @ s) (ep\<lparr>arrivals := as\<rparr>) w
     else Ret (Some (req @ s), ep\<lparr>arrivals := as\<rparr>, w))"
  using assms
proof (induction "length s" arbitrary: s resbytes req ep rule: less_induct)
  case less
  note take = tls_recv_take [OF less.prems(1-3), of resbytes jdump req w]
  consider "length s < n" | "length s = n" | "n < length s" by linarith
  then show ?case
  proof cases
    case 1
    then show ?thesis using take less.prems by (auto dest: dvd_imp_le)
  next
    case 2
    then show ?thesis using take less.prems by simp
  next
    case 3
    let ?ep = "ep\<lparr>arrivals := Bytes (drop n s) # as\<rparr>"
    have "tls_recv_loop jdump n (resbytes + n) (req @ take n s) ?ep w =
      (if n dvd length (drop n s)
       then tls_recv_loop jdump n (resbytes + n + length (drop n s)) ((req @ take n s) @ drop n s)
              (?ep\<lparr>arrivals := as\<rparr>) w
       else Ret (Some ((req @ take n s) @ drop n s), ?ep\<lparr>arrivals := as\<rparr>, w))"
      using 3 less.prems by (intro less.hyps) auto
    moreover have "n dvd length (drop n s) \<longleftrightarrow> n dvd length s"
      using 3 by (simp add: dvd_minus_self)
    ultimately show ?thesis using take 3 less.prems by simp
  qed
qed

text \<open>A segment that reaches the limit ends in the overflow answer.\<close>

lemma tls_recv_overflow:
  assumes "arrivals ep = Bytes s # as" "0 < n" "resbytes < kReceptionBufLimit"
    and "kReceptionBufLimit \<le> resbytes + length s"
  shows "\<exists>as'. tls_recv_loop jdump n resbytes req ep w =
    obind (send_status jdump HttpsConnection_send RequestBufferOverflow (ep\<lparr>arrivals := as'\<rparr>) w)
      (\<lambda>(ep2, w2). Ret (None, ep2, w2))"
  using assms
proof (induction "length s" arbitrary: s resbytes req ep rule: less_induct)
  case less
  have s: "s \<noteq> []" using less.prems by auto
  show ?case
  proof (cases "kReceptionBufLimit \<le> resbytes + min n (length s)")
    case True
    then show ?thesis
      using less.prems s by (subst tls_recv_loop.simps) (auto simp: Let_def min_def split: if_splits)
  next
    case False
    then have n: "n < length s" using less.prems by (auto simp: min_def split: if_splits)
    let ?ep = "ep\<lparr>arrivals := Bytes (drop n s) # as\<rparr>"
    have "\<exists>as'. tls_recv_loop jdump n (resbytes + n) (req @ take n s) ?ep w =
      obind (send_status jdump HttpsConnection_send RequestBufferOverflow (?ep\<lparr>arrivals := as'\<rparr>) w)
        (\<lambda>(ep2, w2). Ret (None, ep2, w2))"
      using n False less.prems by (intro less.hyps) auto
    then show ?thesis
      using tls_recv_take [OF less.prems(1) s less.prems(2), of resbytes jdump req w] n False by simp
  qed
qed

text \<open>What a successful call has taken off the stream.\<close>

lemma tls_recv_loop_exact:
  "tls_recv_loop jdump n resbytes req ep w = Ret (Some r, ep', w') \<Longrightarrow> resbytes = length req \<Longrightarrow>
   resbytes < kReceptionBufLimit \<Longrightarrow>
   \<exists>as. ep' = ep\<lparr>arrivals := as\<rparr> \<and> w' = w \<and> length r < kReceptionBufLimit \<and>
     req @ pending (arrivals ep) = r @ pending as"
proof (induction jdump n resbytes req ep w rule: tls_recv_loop.induct)
  case (1 jdump n resbytes req ep w)
  note step = tls_recv_loop.simps [of jdump n resbytes req ep w]
  obtain a as where a: "receive n (arrivals ep) = Some (a, as)"
    using "1.prems"(1) by (subst (asm) step) (auto split: option.splits)
  let ?ep = "ep\<lparr>arrivals := as\<rparr>"
  show ?case
  proof (cases a)
    case (Bytes s)
    have s: "s \<noteq> []" "resbytes + length s < kReceptionBufLimit"
      using "1.prems"(1) a Bytes
      by (subst (asm) step; auto simp: Let_def outcome_simps split: if_splits)+
    have p: "pending (arrivals ep) = s @ pending as" using receive_bytes a Bytes by blast
    show ?thesis
    proof (cases "length s < n")
      case True
      then have "r = req @ s" "ep' = ?ep" "w' = w"
        using "1.prems"(1) a Bytes s by (subst (asm) step; simp add: Let_def)+
      then show ?thesis using s "1.prems"(2) p by auto
    next
      case False
      then have "tls_recv_loop jdump n (resbytes + length s) (req @ s) ?ep w = Ret (Some r, ep', w')"
        using "1.prems"(1) a Bytes s by (subst (asm) step) (simp add: Let_def)
      then have "\<exists>as'. ep' = ?ep\<lparr>arrivals := as'\<rparr> \<and> w' = w \<and> length r < kReceptionBufLimit \<and>
          (req @ s) @ pending (arrivals ?ep) = r @ pending as'"
        using "1.IH"(1) [OF a refl refl Bytes] s False "1.prems" by simp
      then show ?thesis using p by auto
    qed
  next
    case Retry
    then have "tls_recv_loop jdump n resbytes req ?ep w = Ret (Some r, ep', w')"
      using "1.prems"(1) a by (subst (asm) step) (simp add: Let_def)
    moreover have "pending (arrivals ep) = pending as" using receive_other a Retry by blast
    ultimately show ?thesis using "1.IH"(2) [OF a refl refl Retry] "1.prems" by simp
  next
    case Closed
    then show ?thesis using "1.prems"(1) a by (subst (asm) step) (simp add: Let_def)
  next
    case Failed
    then show ?thesis
      using "1.prems"(1) a by (subst (asm) step) (auto simp: Let_def outcome_simps)
  qed
qed

section \<open>One request over TLS\<close>

lemma execution_text:
  "execution jparse jdump m conn w = noexcept (process_text jparse jdump m new_codec (conn_req conn) w)"
  by (simp add: execution_def process_text_def)

lemma https_process_segment:
  assumes seg: "arrivals ep = Bytes s # as" "s \<noteq> []" "length s < 8192"
      "0 < bufsize conn" "\<not> bufsize conn dvd length s"
    and m: "run_registrations rs (RouterManager_Init m0) = Ret (bs, m)"
    and answer: "expected_answer jparse rs s w = Ret (resp, w')" "serialize jdump resp = Ret out"
    and taken: "length out < 2 ^ 31" "willing (sends ep) (length out)"
  shows "\<exists>script. HttpsConnection_process jparse jdump m conn ep w =
    Ret (True, conn\<lparr>conn_req := s\<rparr>, ep\<lparr>arrivals := as, sends := script, wire := wire ep @ out\<rparr>, w')"
proof -
  have limit: "0 + length s < kReceptionBufLimit"
    using seg(3) by (simp add: kReceptionBufLimit_def kReceptionBufSize_def)
  have recv: "HttpsConnection_recv jdump conn ep w =
      Ret (True, conn\<lparr>conn_req := s\<rparr>, ep\<lparr>arrivals := as\<rparr>, w)"
    using tls_recv_segment [OF seg(1,2,4) limit, of jdump "[]" w] seg(5)
    by (simp add: HttpsConnection_recv_def)
  have "length s < 2 ^ 31" using seg(3) by simp
  then have exec: "execution jparse jdump m (conn\<lparr>conn_req := s\<rparr>) w = Ret (out, w')"
    by (simp add: execution_text process_answer [OF _ m] answer)
  obtain script where "HttpsConnection_send out (ep\<lparr>arrivals := as\<rparr>) =
      Ret (True, ep\<lparr>arrivals := as, sends := script, wire := wire ep @ out\<rparr>)"
    using tls.send_willing [OF taken(1), of "ep\<lparr>arrivals := as\<rparr>"] taken(2) by auto
  then have "HttpsConnection_process jparse jdump m conn ep w =
      Ret (True, conn\<lparr>conn_req := s\<rparr>, ep\<lparr>arrivals := as, sends := script, wire := wire ep @ out\<rparr>, w')"
    by (simp add: HttpsConnection_process_def recv exec)
  then show ?thesis by blast
qed

section \<open>Properties\<close>

text \<open>
  C22. Both \<open>send\<close> functions deliver in order and at most once: a call that returns has
  put a prefix of the text on the wire behind what was there, the whole of it exactly when
  it returns \<open>true\<close>, and it changes nothing else; when the transport accepts the bytes,
  in portions of any size and with any interruptions, the whole text is sent.
\<close>
theorem senders_deliver:
  assumes "length resp < 2 ^ 31"
  shows "sends_prefix resp ep (HttpConnection_send resp ep) \<and>
    sends_prefix resp ep (HttpsConnection_send resp ep) \<and>
    (willing (sends ep) (length resp) \<longrightarrow>
      (\<exists>script. HttpConnection_send resp ep = Ret (True, ep\<lparr>sends := script, wire := wire ep @ resp\<rparr>) \<and>
        HttpsConnection_send resp ep = Ret (True, ep\<lparr>sends := script, wire := wire ep @ resp\<rparr>)))"
proof (intro conjI impI)
  show "sends_prefix resp ep (HttpConnection_send resp ep)" using assms by (rule http.send_prefix)
  show "sends_prefix resp ep (HttpsConnection_send resp ep)" using assms by (rule tls.send_prefix)
  assume "willing (sends ep) (length resp)"
  moreover have "HttpsConnection_send resp ep = HttpConnection_send resp ep"
    by (simp only: HttpConnection_send_rest HttpsConnection_send_rest [OF assms])
  ultimately show "\<exists>script. HttpConnection_send resp ep = Ret (True, ep\<lparr>sends := script, wire := wire ep @ resp\<rparr>) \<and>
      HttpsConnection_send resp ep = Ret (True, ep\<lparr>sends := script, wire := wire ep @ resp\<rparr>)"
    using http.send_willing [OF assms] by simp
qed

text \<open>A client that takes three bytes, interrupts the call, and takes the rest.\<close>

definition sample_endpoint :: endpoint where
  "sample_endpoint = \<lparr>arrivals = [], sends = [Accepts 3, Send_retry, Accepts 9], wire = [],
     closed_fds = [], ssl_freed = 0\<rparr>"

theorem senders_deliver_witness:
  "willing (sends sample_endpoint) (length ''200 OK'') \<and>
   (\<exists>script. HttpsConnection_send ''200 OK'' sample_endpoint =
      Ret (True, sample_endpoint\<lparr>sends := script, wire := ''200 OK''\<rparr>))"
proof -
  have w: "willing (sends sample_endpoint) (length ''200 OK'')" by code_simp
  moreover have "wire sample_endpoint @ ''200 OK'' = ''200 OK''" by (simp add: sample_endpoint_def)
  ultimately show ?thesis using senders_deliver [of "''200 OK''" sample_endpoint] by simp blast
qed

text \<open>
  No byte is lost or invented on the TLS side: when \<open>HttpsConnection::recv\<close> succeeds,
  the stored request is exactly the bytes taken off the stream, what follows them is still
  there, the request is shorter than the limit, and nothing was sent.
\<close>
theorem https_recv_exact:
  assumes "HttpsConnection_recv jdump conn ep w = Ret (True, conn', ep', w')"
  shows "\<exists>as. ep' = ep\<lparr>arrivals := as\<rparr> \<and> pending (arrivals ep) = conn_req conn' @ pending as \<and>
    length (conn_req conn') < 8192 \<and> conn' = conn\<lparr>conn_req := conn_req conn'\<rparr> \<and> w' = w"
proof -
  obtain r where r: "tls_recv_loop jdump (bufsize conn) 0 [] ep w = Ret (Some r, ep', w')"
    and c: "conn' = conn\<lparr>conn_req := r\<rparr>"
    using assms by (auto simp: HttpsConnection_recv_def outcome_simps split: option.splits)
  have "\<exists>as. ep' = ep\<lparr>arrivals := as\<rparr> \<and> w' = w \<and> length r < kReceptionBufLimit \<and>
      [] @ pending (arrivals ep) = r @ pending as"
    by (rule tls_recv_loop_exact [OF r]) (simp_all add: kReceptionBufLimit_def kReceptionBufSize_def)
  then show ?thesis using c by (auto simp: kReceptionBufLimit_def kReceptionBufSize_def)
qed

text \<open>
  C23. How a TLS request is framed: the first segment below the limit is the whole request
  when \<open>bufsize\<close> does not divide its length, whatever follows it; a segment whose length
  is a multiple of \<open>bufsize\<close> is complete only when more bytes follow, so that a client
  waiting for its answer waits for ever and one that closes its side gets none.
\<close>
theorem https_request_framing:
  assumes "arrivals ep = Bytes s # as" "s \<noteq> []" "length s < 8192" "0 < bufsize conn"
  shows "(\<not> bufsize conn dvd length s \<longrightarrow>
      HttpsConnection_recv jdump conn ep w = Ret (True, conn\<lparr>conn_req := s\<rparr>, ep\<lparr>arrivals := as\<rparr>, w)) \<and>
    (bufsize conn dvd length s \<and> as = [] \<longrightarrow> HttpsConnection_recv jdump conn ep w = Diverge) \<and>
    (bufsize conn dvd length s \<and> as = Closed # rest \<longrightarrow>
      HttpsConnection_recv jdump conn ep w = Ret (False, conn, ep\<lparr>arrivals := rest\<rparr>, w))"
proof -
  have "0 + length s < kReceptionBufLimit"
    using assms(3) by (simp add: kReceptionBufLimit_def kReceptionBufSize_def)
  note seg = tls_recv_segment [OF assms(1,2,4) this, of jdump "[]" w]
  have "tls_recv_loop jdump n k r (ep\<lparr>arrivals := []\<rparr>) w = Diverge" for n k r
    by (subst tls_recv_loop.simps) simp
  moreover have "tls_recv_loop jdump n k r (ep\<lparr>arrivals := Closed # rest\<rparr>) w =
      Ret (None, ep\<lparr>arrivals := rest\<rparr>, w)" for n k r
    by (subst tls_recv_loop.simps) simp
  ultimately show ?thesis by (auto simp: HttpsConnection_recv_def seg)
qed

definition sample_connection :: HttpConnection where
  "sample_connection = new_connection default_client 4"

theorem https_recv_exact_witness:
  "\<exists>as. pending [Bytes ''GET / H'', Bytes ''TTP''] = ''GET / H'' @ pending as"
proof -
  let ?ep = "sample_endpoint\<lparr>arrivals := [Bytes ''GET / H'', Bytes ''TTP'']\<rparr>"
  have "0 + length ''GET / H'' < kReceptionBufLimit"
    by (simp add: kReceptionBufLimit_def kReceptionBufSize_def)
  moreover have "\<not> (4 :: nat) dvd length ''GET / H''" by code_simp
  ultimately have "HttpsConnection_recv (\<lambda>_. None) sample_connection ?ep sample_world =
      Ret (True, sample_connection\<lparr>conn_req := ''GET / H''\<rparr>, ?ep\<lparr>arrivals := [Bytes ''TTP'']\<rparr>, sample_world)"
    using tls_recv_segment [of ?ep "''GET / H''" "[Bytes ''TTP'']" 4 0 "\<lambda>_. None" "[]" sample_world]
    by (simp add: HttpsConnection_recv_def sample_connection_def new_connection_def)
  from https_recv_exact [OF this] show ?thesis by auto
qed

theorem https_request_framing_witness:
  "HttpsConnection_recv (\<lambda>_. None) sample_connection
     (sample_endpoint\<lparr>arrivals := [Bytes ''12345678'']\<rparr>) sample_world = Diverge"
proof -
  have "(4 :: nat) dvd length ''12345678''" by code_simp
  then show ?thesis
    using https_request_framing
      [of "sample_endpoint\<lparr>arrivals := [Bytes ''12345678'']\<rparr>" "''12345678''" "[]" sample_connection
        "\<lambda>_. None" sample_world "[]"]
    by (simp add: sample_connection_def new_connection_def)
qed

text \<open>
  An oversized TLS request is answered: when a segment of 8192 bytes or more arrives
  and the client takes the answer, \<open>recv\<close> returns \<open>false\<close> after sending exactly one
  response, which the client reads as 413.
\<close>
theorem https_overflow_answered:
  assumes "arrivals ep = Bytes s # as" "8192 \<le> length s" "0 < bufsize conn"
    and "serialize jdump (fst (makeResp_fresh RequestBufferOverflow (JObject []) w)) = Ret text"
    and "length text < 2 ^ 31" "willing (sends ep) (length text)"
  shows "\<exists>ep' w' hs body. HttpsConnection_recv jdump conn ep w = Ret (False, conn, ep', w') \<and>
    wire ep' = wire ep @ text \<and> read_response text = Some (413, hs, body, [])"
proof -
  have limit: "0 < kReceptionBufLimit" "kReceptionBufLimit \<le> 0 + length s"
    using assms(2) by (simp_all add: kReceptionBufLimit_def kReceptionBufSize_def)
  obtain as' where loop: "tls_recv_loop jdump (bufsize conn) 0 [] ep w =
      obind (send_status jdump HttpsConnection_send RequestBufferOverflow (ep\<lparr>arrivals := as'\<rparr>) w)
        (\<lambda>(ep2, w2). Ret (None, ep2, w2))"
    using tls_recv_overflow [OF assms(1,3) limit] by blast
  obtain script w' where "send_status jdump HttpsConnection_send RequestBufferOverflow (ep\<lparr>arrivals := as'\<rparr>) w =
      Ret (ep\<lparr>arrivals := as', sends := script, wire := wire ep @ text\<rparr>, w')"
    using tls.send_status_willing [OF assms(4,5), of "ep\<lparr>arrivals := as'\<rparr>"] assms(6) by auto
  then have "HttpsConnection_recv jdump conn ep w =
      Ret (False, conn, ep\<lparr>arrivals := as', sends := script, wire := wire ep @ text\<rparr>, w')"
    by (simp add: HttpsConnection_recv_def loop)
  moreover have "\<exists>hs body. read_response text = Some (413, hs, body, [])"
  proof -
    obtain body where "jdump (resp_body (fst (makeResp_fresh RequestBufferOverflow (JObject []) w))) = Some body"
      using assms(4) by (auto simp: serialize_def split: option.splits)
    from serialized_readable [where jdump = jdump, OF builtin_fresh_ok this, of "[]"] assms(4) show ?thesis
      by simp
  qed
  ultimately show ?thesis by fastforce
qed

lemma willing_once: "n \<le> k \<Longrightarrow> 0 < k \<Longrightarrow> willing [Accepts k] n"
  by (cases n) simp_all

theorem https_overflow_answered_witness:
  "\<exists>ep' w' hs body. HttpsConnection_recv (\<lambda>_. Some ''{}'') sample_connection
      (sample_endpoint\<lparr>arrivals := [Bytes (replicate 8192 CHR ''a'')], sends := [Accepts 1000]\<rparr>)
      sample_world = Ret (False, sample_connection, ep', w') \<and>
    read_response (wire ep') = Some (413, hs, body, [])"
proof -
  let ?ep = "sample_endpoint\<lparr>arrivals := [Bytes (replicate 8192 CHR ''a'')], sends := [Accepts 1000]\<rparr>"
  let ?resp = "fst (makeResp_fresh RequestBufferOverflow (JObject []) sample_world)"
  obtain msg where msg: "serialize (\<lambda>_. Some ''{}'') ?resp = Ret msg"
    by (simp add: serialize_def)
  have big: "arrivals ?ep = [Bytes (replicate 8192 CHR ''a'')]" by simp
  have "8192 \<le> length (replicate 8192 CHR ''a'')" "0 < bufsize sample_connection"
    by (simp_all only: length_replicate order_refl)
       (simp add: sample_connection_def new_connection_def)
  note big = big this
  have "length msg \<le> 1000" using msg by (rule builtin_text_short)
  then have "length msg < 2 ^ 31" "willing (sends ?ep) (length msg)"
    by (simp_all add: willing_once)
  from https_overflow_answered [OF big msg this] show ?thesis
    by (auto simp: sample_endpoint_def)
qed

text \<open>
  C36. What the plain HTTP side stores for a short read: \<open>append\<close> takes a C string from an
  array that is neither cleared nor terminated, so the request is the received bytes and
  the leftovers behind them up to the first NUL. It is the text the client sent exactly
  when that text holds no NUL and the next byte in memory is one (or there is none).
\<close>
theorem http_recv_short_read:
  assumes "arrivals ep = Bytes s # as" "s \<noteq> []" "length s < 8192" "length s < bufsize conn"
  shows "\<exists>r. HttpConnection_recv jdump buf beyond conn ep w =
      Ret (True, conn\<lparr>conn_req := r\<rparr>, ep\<lparr>arrivals := as\<rparr>, w) \<and>
    r = takeWhile (\<lambda>c. c \<noteq> CHR 0x00) (s @ drop (length s) buf @ beyond) \<and>
    (r = s \<longleftrightarrow> CHR 0x00 \<notin> set s \<and> take 1 (drop (length s) buf @ beyond) \<in> {[], [CHR 0x00]})"
proof -
  let ?m = "drop (length s) buf @ beyond"
  let ?r = "takeWhile (\<lambda>c. c \<noteq> CHR 0x00) (s @ ?m)"
  have "http_recv_loop jdump beyond (bufsize conn) buf 0 [] ep w =
      Ret (Some ?r, ep\<lparr>arrivals := as\<rparr>, w)"
    using assms by (subst http_recv_loop.simps)
      (simp add: c_string_def Let_def kReceptionBufLimit_def kReceptionBufSize_def)
  then have "HttpConnection_recv jdump buf beyond conn ep w =
      Ret (True, conn\<lparr>conn_req := ?r\<rparr>, ep\<lparr>arrivals := as\<rparr>, w)"
    by (simp add: HttpConnection_recv_def)
  moreover have "?r = s \<longleftrightarrow> CHR 0x00 \<notin> set s \<and> take 1 ?m \<in> {[], [CHR 0x00]}"
  proof (cases "CHR 0x00 \<in> set s")
    case True
    then have "length ?r < length s" by (induction s) auto
    with True show ?thesis by auto
  next
    case False
    then have "?r = s @ takeWhile (\<lambda>c. c \<noteq> CHR 0x00) ?m"
      by (simp add: takeWhile_append)
    moreover have "takeWhile (\<lambda>c. c \<noteq> CHR 0x00) ?m = [] \<longleftrightarrow> take 1 ?m \<in> {[], [CHR 0x00]}"
      by (cases ?m) auto
    ultimately show ?thesis using False by simp
  qed
  ultimately show ?thesis by blast
qed

text \<open>A client that sends five bytes into an array that still holds seven others.\<close>

theorem http_recv_short_read_witness:
  "HttpConnection_recv (\<lambda>_. None) ''Host: x'' [CHR 0x00] (new_connection default_client 8)
     (sample_endpoint\<lparr>arrivals := [Bytes ''GET /'']\<rparr>) sample_world =
   Ret (True, (new_connection default_client 8)\<lparr>conn_req := ''GET / x''\<rparr>,
     sample_endpoint\<lparr>arrivals := []\<rparr>, sample_world)"
  using http_recv_short_read
    [of "sample_endpoint\<lparr>arrivals := [Bytes ''GET /'']\<rparr>" "''GET /''" "[]" "new_connection default_client 8"
      "\<lambda>_. None" "''Host: x''" "[CHR 0x00]" sample_world]
  by (simp add: new_connection_def)

text \<open>
  The destructors release what the connection owns exactly once: the descriptor is
  closed by the connection and not again by its member, a descriptor that is not positive
  is left alone, and a TLS connection frees its \<open>SSL\<close> object once.
\<close>
theorem destructors_release_once:
  "closed_fds (HttpsConnection_destroy conn ep) =
     closed_fds ep @ (if sockfd (client conn) > 0 then [sockfd (client conn)] else []) \<and>
   ssl_freed (HttpsConnection_destroy conn ep) = ssl_freed ep + 1 \<and>
   HttpConnection_destroy conn ep =
     ep\<lparr>closed_fds := closed_fds ep @ (if sockfd (client conn) > 0 then [sockfd (client conn)] else [])\<rparr>"
  by (simp add: HttpsConnection_destroy_def HttpConnection_destroy_def
      HttpConnection_closeConnection_def ClientConnection_destroy_def close_fd_def
      kEmptyDescriptor_def kInvalidSocket_def)

end
