(* ===== verification/Server.thy ===== *)
theory Server
  imports Connection
begin

text \<open>
  \<open>src/src/server/.../http/http_server.{h,cc}\<close>: binding the listening socket, the guards
  of \<open>listen\<close>, accepting a client, and the intake cycle that forks a process per client.
  The answers of the operating system are the parameters collected in \<open>sys\<close>. The address
  list \<open>getaddrinfo\<close> returns has \<open>n\<close> nodes, numbered in list order;
  \<open>freeaddrinfo\<close> on node \<open>i\<close> frees the nodes from \<open>i\<close> on, as it frees a list.
\<close>

section \<open>The operating system\<close>

text \<open>The criteria for \<open>getaddrinfo\<close>; the constants are those of the platform.\<close>

record addrinfo_hints =
  ai_flags :: int
  ai_family :: int
  ai_socktype :: int
  ai_protocol :: int

definition AF_UNSPEC :: int where "AF_UNSPEC = 0"
definition SOCK_STREAM :: int where "SOCK_STREAM = 1"
definition IPPROTO_TCP :: int where "IPPROTO_TCP = 6"
definition AI_PASSIVE :: int where "AI_PASSIVE = 1"

record sys =
  gai :: "addrinfo_hints \<Rightarrow> string \<Rightarrow> string \<Rightarrow> nat option"
                                            \<comment> \<open>\<open>getaddrinfo\<close>: the length of the list, \<open>None\<close> on error\<close>
  socket_ret :: "nat \<Rightarrow> int"            \<comment> \<open>\<open>socket\<close> for the address \<open>i\<close>\<close>
  setsockopt_ret :: "int \<Rightarrow> nat \<Rightarrow> int" \<comment> \<open>\<open>setsockopt\<close> by descriptor and option\<close>
  bind_ret :: "int \<Rightarrow> nat \<Rightarrow> int"       \<comment> \<open>\<open>bind\<close> by descriptor and address\<close>
  listen_ret :: "int \<Rightarrow> int \<Rightarrow> int"     \<comment> \<open>\<open>listen\<close> by descriptor and backlog\<close>

definition SO_REUSEADDR :: nat where "SO_REUSEADDR = 2"
definition SO_REUSEPORT :: nat where "SO_REUSEPORT = 15"

section \<open>The server object\<close>

text \<open>\<open>servinfo\<close> points to a node of the address list, \<open>None\<close> is \<open>nullptr\<close>.\<close>

record http_server =
  srv_sockfd :: int
  servinfo :: "nat option"
  hints :: addrinfo_hints
  is_running :: bool

text \<open>The constructor clears the hints and sets four of their members.\<close>

definition no_hints :: addrinfo_hints where
  "no_hints = \<lparr>ai_flags = 0, ai_family = 0, ai_socktype = 0, ai_protocol = 0\<rparr>"

definition new_server :: http_server where
  "new_server = \<lparr>srv_sockfd = kEmptyDescriptor, servinfo = None,
     hints = no_hints\<lparr>ai_family := AF_UNSPEC, ai_socktype := SOCK_STREAM, ai_protocol := IPPROTO_TCP,
       ai_flags := AI_PASSIVE\<rparr>,
     is_running = False\<rparr>"

definition swap :: "http_server \<Rightarrow> http_server \<Rightarrow> http_server \<times> http_server" where
  "swap a b =
     (a\<lparr>srv_sockfd := srv_sockfd b, servinfo := servinfo b, hints := hints b, is_running := is_running b\<rparr>,
      b\<lparr>srv_sockfd := srv_sockfd a, servinfo := servinfo a, hints := hints a, is_running := is_running a\<rparr>)"

text \<open>
  What the calls leave behind: the descriptors closed, and the first freed node of the
  address list.
\<close>

record trace_log =
  closes :: "int list"
  freed :: "nat option"

definition quiet :: trace_log where
  "quiet = \<lparr>closes = [], freed = None\<rparr>"

definition closeConnection :: "int \<Rightarrow> trace_log \<Rightarrow> int \<times> trace_log" where
  "closeConnection fd l =
     (if fd > 0 then (kEmptyDescriptor, l\<lparr>closes := closes l @ [fd]\<rparr>) else (kInvalidSocket, l))"

definition freeaddrinfo :: "nat \<Rightarrow> trace_log \<Rightarrow> trace_log" where
  "freeaddrinfo p l = l\<lparr>freed := Some (case freed l of None \<Rightarrow> p | Some q \<Rightarrow> min p q)\<rparr>"

definition is_freed :: "nat \<Rightarrow> trace_log \<Rightarrow> bool" where
  "is_freed p l = (case freed l of None \<Rightarrow> False | Some q \<Rightarrow> q \<le> p)"

section \<open>Socket options\<close>

definition applyOption :: "sys \<Rightarrow> int \<Rightarrow> nat \<Rightarrow> bool" where
  "applyOption os fd opt \<longleftrightarrow> setsockopt_ret os fd opt \<noteq> - 1"

text \<open>
  The fold over the comma operator evaluates every option and has the value of the last
  one. It is never empty in the program.
\<close>

fun setSockOptions :: "sys \<Rightarrow> int \<Rightarrow> nat list \<Rightarrow> bool" where
  "setSockOptions os fd [] = False"
| "setSockOptions os fd [opt] = applyOption os fd opt"
| "setSockOptions os fd (opt # opts) = setSockOptions os fd opts"

section \<open>Binding\<close>

text \<open>
  The loop over the addresses, from the node \<open>p\<close> on. Reading a node that was freed is
  undefined behaviour and ends the model with \<open>Use_after_free\<close>.
\<close>

datatype bind_result =
    Bound nat int         \<comment> \<open>the loop is left by \<open>break\<close>, at this node with this descriptor\<close>
  | Exhausted             \<comment> \<open>\<open>p\<close> is \<open>nullptr\<close>\<close>
  | Options_failed        \<comment> \<open>\<open>return false\<close> from inside the loop\<close>
  | Use_after_free nat

function bind_loop :: "sys \<Rightarrow> nat \<Rightarrow> nat \<Rightarrow> trace_log \<Rightarrow> bind_result \<times> trace_log" where
  "bind_loop os n p l =
     (if p \<ge> n then (Exhausted, l)
      else if is_freed p l then (Use_after_free p, l)
      else
        (let next_p = p + 1; sockfd = socket_ret os p in
         if sockfd = kInvalidSocket then bind_loop os n next_p (freeaddrinfo p l)
         else if \<not> setSockOptions os sockfd [SO_REUSEADDR, SO_REUSEPORT] then
           (Options_failed, snd (closeConnection sockfd (freeaddrinfo p l)))
         else if bind_ret os sockfd p = - 1 then
           bind_loop os n next_p (snd (closeConnection sockfd l))
         else (Bound p sockfd, l)))"
  by pat_completeness auto
termination by (relation "measure (\<lambda>(_, n, p, _). n - p)") auto

declare bind_loop.simps [simp del]

datatype build_result = Built http_server | Build_false | Build_undefined nat

definition buildSocket ::
    "sys \<Rightarrow> http_server \<Rightarrow> string \<Rightarrow> string \<Rightarrow> trace_log \<Rightarrow> build_result \<times> trace_log" where
  "buildSocket os s host prt l =
     (case gai os (hints s) host prt of
        None \<Rightarrow> (Build_false, l)
      | Some n \<Rightarrow>
        (case bind_loop os n 0 l of
           (Use_after_free p, l') \<Rightarrow> (Build_undefined p, l')
         | (Options_failed, l') \<Rightarrow> (Build_false, l')
         | (Exhausted, l') \<Rightarrow> (Build_false, l')
         | (Bound p fd, l') \<Rightarrow>
             (Built (s\<lparr>servinfo := Some p, srv_sockfd := fd\<rparr>),
              snd (closeConnection (srv_sockfd s) l'))))"

section \<open>Listening\<close>

text \<open>\<open>Serving\<close>: the intake cycle is entered; it has no exit.\<close>

datatype listen_result = Refused | Serving http_server nat | Undefined nat

definition listenInternal :: "sys \<Rightarrow> http_server \<Rightarrow> int \<Rightarrow> int \<Rightarrow> listen_result" where
  "listenInternal os s max_connections bufsz =
     (if max_connections \<le> 0 then Refused
      else if bufsz \<le> 0 then Refused
      else if listen_ret os (srv_sockfd s) max_connections = - 1 then Refused
      else Serving s (nat bufsz))"

definition listen ::
    "sys \<Rightarrow> http_server \<Rightarrow> string \<Rightarrow> string \<Rightarrow> int \<Rightarrow> int \<Rightarrow> trace_log \<Rightarrow> listen_result \<times> trace_log" where
  "listen os s host prt max_connections bufsz l =
     (case buildSocket os s host prt l of
        (Built s', l') \<Rightarrow> (listenInternal os s' max_connections bufsz, l')
      | (Build_false, l') \<Rightarrow> (Refused, l')
      | (Build_undefined p, l') \<Rightarrow> (Undefined p, l'))"

text \<open>The overload without arguments, with the default arguments of the other.\<close>

definition kHttpPort :: string where "kHttpPort = ''8080''"
definition kMaxConnections :: int where "kMaxConnections = 20"

definition listen_default :: "sys \<Rightarrow> http_server \<Rightarrow> trace_log \<Rightarrow> listen_result \<times> trace_log" where
  "listen_default os s l =
     listen os s ''0.0.0.0'' kHttpPort kMaxConnections (int kReceptionBufSize) l"

definition stopListen :: "http_server \<Rightarrow> trace_log \<Rightarrow> http_server \<times> trace_log" where
  "stopListen s l =
     (let (fd, l') = closeConnection (srv_sockfd s) l in (s\<lparr>srv_sockfd := fd\<rparr>, l'))"

definition freeAddrInfo :: "nat option \<Rightarrow> trace_log \<Rightarrow> nat option \<times> trace_log" where
  "freeAddrInfo ai l = (None, case ai of None \<Rightarrow> l | Some p \<Rightarrow> freeaddrinfo p l)"

definition HttpServer_destroy :: "http_server \<Rightarrow> trace_log \<Rightarrow> trace_log" where
  "HttpServer_destroy s l =
     (let (_, l') = freeAddrInfo (servinfo s) l in snd (closeConnection (srv_sockfd s) l'))"

section \<open>Accepting a client\<close>

text \<open>
  The peer address: the family, the port in network order, the address of either family,
  and the text \<open>inet_ntop\<close> makes of a family and an address (\<open>None\<close> when it fails).
\<close>

datatype family = AF_INET | AF_INET6 | AF_other

record peer =
  sa_family :: family
  sin_port :: "16 word"
  sin_addr :: "8 word list"
  sin6_addr :: "8 word list"
  inet_ntop :: "family \<Rightarrow> 8 word list option \<Rightarrow> string option"

definition getSinAddr :: "peer \<Rightarrow> 8 word list option" where
  "getSinAddr a =
     (if sa_family a = AF_INET then Some (sin_addr a)
      else if sa_family a = AF_INET6 then Some (sin6_addr a) else None)"

definition getSinPort :: "peer \<Rightarrow> 16 word" where
  "getSinPort a =
     (if sa_family a = AF_INET then sin_port a
      else if sa_family a = AF_INET6 then sin_port a else 0)"

definition getIpAddr :: "peer \<Rightarrow> string" where
  "getIpAddr a = (case inet_ntop a (sa_family a) (getSinAddr a) of None \<Rightarrow> [] | Some t \<Rightarrow> t)"

definition ntohs :: "16 word \<Rightarrow> 16 word" where
  "ntohs x = word_rotl 8 x"

definition acceptConnection :: "int \<Rightarrow> peer \<Rightarrow> world \<Rightarrow> ClientConnection \<times> world" where
  "acceptConnection cli_sock a w =
     (if cli_sock = kInvalidSocket then (default_client, w)
      else (let (cli_id, w') = fresh_uuid w in
        (\<lparr>client_id = cli_id, sockfd = cli_sock, ip = getIpAddr a,
          port = unat (ntohs (getSinPort a))\<rparr>, w')))"

section \<open>Properties of binding\<close>

lemma setSockOptions_last: "opts \<noteq> [] \<Longrightarrow> setSockOptions os fd opts = applyOption os fd (last opts)"
  by (induction os fd opts rule: setSockOptions.induct) auto

lemma closes_closeConnection:
  "closes (snd (closeConnection fd l)) = closes l @ (if fd > 0 then [fd] else [])"
  "freed (snd (closeConnection fd l)) = freed l"
  by (simp_all add: closeConnection_def)

text \<open>The first address at which the loop stops, when every call of \<open>socket\<close> succeeds.\<close>

definition options_ok :: "sys \<Rightarrow> nat \<Rightarrow> bool" where
  "options_ok os p \<longleftrightarrow> applyOption os (socket_ret os p) SO_REUSEPORT"

definition stops_at :: "sys \<Rightarrow> nat \<Rightarrow> bool" where
  "stops_at os p \<longleftrightarrow> \<not> options_ok os p \<or> bind_ret os (socket_ret os p) p \<noteq> - 1"

lemma bind_loop_step:
  assumes "p < n" "\<not> is_freed p l" "socket_ret os p \<noteq> - 1"
  shows "bind_loop os n p l =
    (if \<not> options_ok os p then (Options_failed, snd (closeConnection (socket_ret os p) (freeaddrinfo p l)))
     else if bind_ret os (socket_ret os p) p = - 1
     then bind_loop os n (Suc p) (snd (closeConnection (socket_ret os p) l))
     else (Bound p (socket_ret os p), l))"
  using assms
  by (subst bind_loop.simps)
     (simp add: Let_def kInvalidSocket_def options_ok_def setSockOptions_last)

definition failed_sockets :: "sys \<Rightarrow> nat \<Rightarrow> nat \<Rightarrow> int list" where
  "failed_sockets os p q = filter (\<lambda>fd. fd > 0) (map (socket_ret os) [p..<q])"

lemma failed_sockets_Suc:
  "p < q \<Longrightarrow> failed_sockets os p q =
    (if socket_ret os p > 0 then [socket_ret os p] else []) @ failed_sockets os (Suc p) q"
  by (simp add: failed_sockets_def upt_conv_Cons)

lemma bind_loop_first:
  assumes "\<forall>i < n. socket_ret os i \<noteq> - 1" "freed l = None" "p \<le> q" "q < n"
    and "stops_at os q" "\<forall>i. p \<le> i \<and> i < q \<longrightarrow> \<not> stops_at os i"
  shows "bind_loop os n p l =
    (let l' = l\<lparr>closes := closes l @ failed_sockets os p q\<rparr> in
     if options_ok os q then (Bound q (socket_ret os q), l')
     else (Options_failed, snd (closeConnection (socket_ret os q) (freeaddrinfo q l'))))"
  using assms
proof (induction "q - p" arbitrary: p l)
  case 0
  then have "bind_loop os n q l =
    (if \<not> options_ok os q then (Options_failed, snd (closeConnection (socket_ret os q) (freeaddrinfo q l)))
     else if bind_ret os (socket_ret os q) q = - 1
     then bind_loop os n (Suc q) (snd (closeConnection (socket_ret os q) l))
     else (Bound q (socket_ret os q), l))"
    by (intro bind_loop_step) (auto simp: is_freed_def)
  with 0 show ?case by (auto simp: stops_at_def failed_sockets_def)
next
  case (Suc d)
  let ?l = "snd (closeConnection (socket_ret os p) l)"
  have "\<not> stops_at os p" using Suc by auto
  then have "bind_loop os n p l = bind_loop os n (Suc p) ?l"
    using Suc.prems Suc.hyps(2) bind_loop_step [of p n l os]
    by (auto simp: stops_at_def is_freed_def)
  also have "\<dots> = (let l' = ?l\<lparr>closes := closes ?l @ failed_sockets os (Suc p) q\<rparr> in
     if options_ok os q then (Bound q (socket_ret os q), l')
     else (Options_failed, snd (closeConnection (socket_ret os q) (freeaddrinfo q l'))))"
    using Suc by (intro Suc.hyps(1)) (auto simp: closes_closeConnection)
  also have "?l\<lparr>closes := closes ?l @ failed_sockets os (Suc p) q\<rparr> =
      l\<lparr>closes := closes l @ failed_sockets os p q\<rparr>"
    using Suc.hyps(2) by (simp add: failed_sockets_Suc closeConnection_def)
  finally show ?case .
qed

text \<open>
  C26. Binding chooses the first usable address: when \<open>socket\<close> succeeds for every address
  and \<open>q\<close> is the first one that \<open>bind\<close> accepts (with its options set), the server ends
  up on that address with that descriptor, the descriptors of the addresses before it are
  closed in order and then the one it had, and no node of the list is freed.
\<close>
theorem build_binds_first_address:
  assumes "gai os (hints s) host prt = Some n" and "\<forall>i < n. socket_ret os i \<noteq> - 1" and "q < n"
    and "options_ok os q" "bind_ret os (socket_ret os q) q \<noteq> - 1"
    and "\<forall>i < q. \<not> stops_at os i"
  shows "buildSocket os s host prt quiet =
    (Built (s\<lparr>servinfo := Some q, srv_sockfd := socket_ret os q\<rparr>),
     quiet\<lparr>closes := failed_sockets os 0 q @ (if srv_sockfd s > 0 then [srv_sockfd s] else [])\<rparr>)"
proof -
  have "stops_at os q" using assms(5) by (simp add: stops_at_def)
  then have "bind_loop os n 0 quiet =
      (Bound q (socket_ret os q), quiet\<lparr>closes := failed_sockets os 0 q\<rparr>)"
    using bind_loop_first [of n os quiet 0 q] assms by (simp add: quiet_def)
  then show ?thesis using assms(1) by (simp add: buildSocket_def closeConnection_def)
qed

text \<open>Two addresses; \<open>bind\<close> refuses the first.\<close>

definition sample_sys :: sys where
  "sample_sys = \<lparr>gai = (\<lambda>_ _ _. Some 2), socket_ret = (\<lambda>i. 5 + int i), setsockopt_ret = (\<lambda>_ _. 0),
     bind_ret = (\<lambda>_ i. if i = 0 then - 1 else 0), listen_ret = (\<lambda>_ _. 0)\<rparr>"

theorem build_binds_first_address_witness:
  "buildSocket sample_sys new_server ''0.0.0.0'' kHttpPort quiet =
     (Built (new_server\<lparr>servinfo := Some 1, srv_sockfd := 6\<rparr>), quiet\<lparr>closes := [5]\<rparr>)"
  using build_binds_first_address [of sample_sys new_server "''0.0.0.0''" kHttpPort 2 1]
  by (simp add: sample_sys_def options_ok_def stops_at_def applyOption_def failed_sockets_def
      new_server_def kEmptyDescriptor_def)

text \<open>
  C27. A failing \<open>socket\<close> call is not survived: when it fails for an address that is not
  the last one, \<open>freeaddrinfo\<close> has freed the whole rest of the list and the loop goes on
  to read the next node of it. This is so whatever the remaining calls return.
\<close>
theorem socket_failure_reads_freed_node:
  assumes "gai os (hints s) host prt = Some n" and "Suc q < n" and "socket_ret os q = - 1"
    and "\<forall>i < q. socket_ret os i \<noteq> - 1 \<and> \<not> stops_at os i"
  shows "fst (buildSocket os s host prt quiet) = Build_undefined (Suc q)"
proof -
  have "fst (bind_loop os n p l) = Use_after_free (Suc q)" if "p \<le> q" "freed l = None" for p l
    using that
  proof (induction "q - p" arbitrary: p l)
    case 0
    then have "bind_loop os n q l = bind_loop os n (Suc q) (freeaddrinfo q l)"
      using assms(2,3) by (subst bind_loop.simps) (auto simp: is_freed_def kInvalidSocket_def Let_def)
    moreover have "is_freed (Suc q) (freeaddrinfo q l)"
      using 0 by (simp add: is_freed_def freeaddrinfo_def)
    ultimately show ?case using 0 assms(2) by (subst (asm) (2) bind_loop.simps) simp
  next
    case (Suc d)
    then have p: "p < q" "socket_ret os p \<noteq> - 1" "\<not> stops_at os p" using assms(4) by auto
    then have "bind_loop os n p l = bind_loop os n (Suc p) (snd (closeConnection (socket_ret os p) l))"
      using Suc.prems assms(2) bind_loop_step [of p n l os] by (auto simp: stops_at_def is_freed_def)
    then show ?case using Suc p by (simp add: closes_closeConnection)
  qed
  from this [of 0 quiet] obtain l' where "bind_loop os n 0 quiet = (Use_after_free (Suc q), l')"
    by (cases "bind_loop os n 0 quiet") (auto simp: quiet_def)
  then show ?thesis using assms(1) by (simp add: buildSocket_def)
qed

theorem socket_failure_reads_freed_node_witness:
  "fst (buildSocket (sample_sys\<lparr>socket_ret := (\<lambda>_. - 1)\<rparr>) new_server ''0.0.0.0'' kHttpPort quiet) = Build_undefined 1"
  using socket_failure_reads_freed_node [of "sample_sys\<lparr>socket_ret := (\<lambda>_. - 1)\<rparr>"
      new_server "''0.0.0.0''" kHttpPort 2 0]
  by (simp add: sample_sys_def)

text \<open>
  Serving needs positive parameters: \<open>listen\<close> enters the intake cycle only with a
  positive backlog, a buffer size that is positive (so that the receive loops advance), a
  socket \<open>buildSocket\<close> produced and a successful \<open>listen\<close> call on it.
\<close>
theorem listen_guards:
  "(\<exists>l'. listen os s host prt max_connections bufsz l = (Serving s' m, l')) \<longleftrightarrow>
   (\<exists>l'. buildSocket os s host prt l = (Built s', l')) \<and> 0 < max_connections \<and> 0 < bufsz \<and>
   m = nat bufsz \<and> listen_ret os (srv_sockfd s') max_connections \<noteq> - 1"
  by (cases "buildSocket os s host prt l")
     (auto simp: listen_def listenInternal_def split: build_result.splits)

end
