(* ===== verification/Intake.thy ===== *)
theory Intake
  imports Server
begin

text \<open>
  The intake cycles of \<open>http_server.cc\<close> and \<open>https_server.cc\<close> as step relations over the
  parent process and its children, and the construction of the TLS server. A rule is what
  the parent does between two system calls, or the end of a child. Their
  invariants go through the locale \<open>guarded_machine\<close>.
\<close>

section \<open>Processes\<close>

text \<open>Where the parent is in its loop: at \<open>accept\<close>, in \<open>SSL_accept\<close>, or before \<open>fork\<close>.\<close>

datatype pc = Accepting | Handshaking int | Dispatching int

text \<open>A child with the client it serves and the descriptors it holds, or a zombie.\<close>

datatype proc = Child int "int list" | Exited

record intake =
  lfd :: int          \<comment> \<open>the listening socket\<close>
  pc :: pc
  fds :: "int list"   \<comment> \<open>descriptors of clients open in the parent\<close>
  ssls :: nat         \<comment> \<open>\<open>SSL\<close> objects the parent has not freed\<close>
  procs :: "proc list"

definition intake_start :: "int \<Rightarrow> intake" where
  "intake_start fd = \<lparr>lfd = fd, pc = Accepting, fds = [], ssls = 0, procs = []\<rparr>"

text \<open>The end of the loop body: \<open>client\<close> is destroyed, its descriptor closed if positive.\<close>

definition next_turn :: "int \<Rightarrow> intake \<Rightarrow> intake" where
  "next_turn fd s = s\<lparr>pc := Accepting, fds := (if fd > 0 then removeAll fd (fds s) else fds s)\<rparr>"

text \<open>\<open>fork\<close>: the child has the parent's descriptors and closes the listening socket.\<close>

definition fork_child :: "int \<Rightarrow> intake \<Rightarrow> intake" where
  "fork_child fd s = s\<lparr>procs := procs s @ [Child fd (removeAll (lfd s) (lfd s # fds s))]\<rparr>"

definition new_descriptor :: "int \<Rightarrow> intake \<Rightarrow> bool" where
  "new_descriptor fd s \<longleftrightarrow> 0 \<le> fd \<and> fd \<notin> set (lfd s # fds s)"

inductive http_step :: "intake \<Rightarrow> intake \<Rightarrow> bool" where
  accept_failed: "pc s = Accepting \<Longrightarrow> http_step s s"
| accept_client: "pc s = Accepting \<Longrightarrow> new_descriptor fd s \<Longrightarrow>
    http_step s (s\<lparr>pc := Dispatching fd, fds := fd # fds s\<rparr>)"
| fork_done: "pc s = Dispatching fd \<Longrightarrow> http_step s (next_turn fd (fork_child fd s))"
| fork_failed: "pc s = Dispatching fd \<Longrightarrow> http_step s (next_turn fd s)"
| child_exit: "i < length (procs s) \<Longrightarrow> procs s ! i = Child fd os \<Longrightarrow>
    http_step s (s\<lparr>procs := (procs s)[i := Exited]\<rparr>)"

text \<open>
  Under TLS the handshake comes first. A failed \<open>SSL_new\<close> and a failed handshake skip the
  client; a successful one leaves an \<open>SSL\<close> object, which only the child frees.
\<close>

inductive tls_step :: "intake \<Rightarrow> intake \<Rightarrow> bool" where
  accept_failed: "pc s = Accepting \<Longrightarrow> tls_step s s"
| accept_client: "pc s = Accepting \<Longrightarrow> new_descriptor fd s \<Longrightarrow>
    tls_step s (s\<lparr>pc := Handshaking fd, fds := fd # fds s\<rparr>)"
| handshake_failed: "pc s = Handshaking fd \<Longrightarrow> tls_step s (next_turn fd s)"
| handshake_done: "pc s = Handshaking fd \<Longrightarrow>
    tls_step s (s\<lparr>pc := Dispatching fd, ssls := ssls s + 1\<rparr>)"
| fork_done: "pc s = Dispatching fd \<Longrightarrow> tls_step s (next_turn fd (fork_child fd s))"
| fork_failed: "pc s = Dispatching fd \<Longrightarrow> tls_step s (next_turn fd s)"
| child_exit: "i < length (procs s) \<Longrightarrow> procs s ! i = Child fd os \<Longrightarrow>
    tls_step s (s\<lparr>procs := (procs s)[i := Exited]\<rparr>)"

inductive_cases tls_stepE: "tls_step s s'"

section \<open>Descriptors\<close>

fun pc_fd :: "pc \<Rightarrow> int list" where
  "pc_fd Accepting = []"
| "pc_fd (Handshaking fd) = [fd]"
| "pc_fd (Dispatching fd) = [fd]"

text \<open>
  The parent holds the descriptor of the client it is working on and of no other; a child
  holds the one of its client, not the listening socket and not that of another client.
  (Descriptor 0 is never closed: the destructor tests for a positive number.)
\<close>

fun proc_ok :: "int \<Rightarrow> proc \<Rightarrow> bool" where
  "proc_ok l Exited = True"
| "proc_ok l (Child fd os) \<longleftrightarrow> fd \<in> set os \<and> l \<notin> set os \<and> set os \<subseteq> {fd, 0}"

definition intake_ok :: "intake \<Rightarrow> bool" where
  "intake_ok s \<longleftrightarrow> set (fds s) - {0} = set (pc_fd (pc s)) - {0} \<and>
     set (pc_fd (pc s)) \<subseteq> set (fds s) \<and> lfd s \<notin> set (fds s) \<and> (\<forall>x \<in> set (fds s). 0 \<le> x) \<and>
     list_all (proc_ok (lfd s)) (procs s)"

lemma intake_ok_start: "intake_ok (intake_start fd)"
  by (simp add: intake_ok_def intake_start_def)

lemma intake_ok_next_turn:
  assumes "intake_ok s" "pc s = Handshaking fd \<or> pc s = Dispatching fd"
  shows "intake_ok (next_turn fd s)"
proof -
  have "0 \<le> fd" using assms by (auto simp: intake_ok_def)
  then have "fd = 0 \<or> 0 < fd" by auto
  then show ?thesis using assms by (auto simp: intake_ok_def next_turn_def)
qed

lemma intake_ok_fork:
  assumes "intake_ok s" "pc s = Dispatching fd"
  shows "intake_ok (fork_child fd s)"
  using assms by (auto simp: intake_ok_def fork_child_def)

lemma list_all_update: "list_all P xs \<Longrightarrow> P x \<Longrightarrow> list_all P (xs[i := x])"
  by (auto simp: list_all_iff dest: set_update_subset_insert [THEN subsetD])

lemma intake_ok_exit: "intake_ok s \<Longrightarrow> intake_ok (s\<lparr>procs := (procs s)[i := Exited]\<rparr>)"
  by (simp add: intake_ok_def list_all_update)

lemma intake_ok_accept:
  "intake_ok s \<Longrightarrow> pc s = Accepting \<Longrightarrow> new_descriptor fd s \<Longrightarrow> p = Handshaking fd \<or> p = Dispatching fd \<Longrightarrow>
   intake_ok (s\<lparr>pc := p, fds := fd # fds s\<rparr>)"
  by (auto simp: intake_ok_def new_descriptor_def)

lemma intake_ok_handshake:
  "intake_ok s \<Longrightarrow> pc s = Handshaking fd \<Longrightarrow> intake_ok (s\<lparr>pc := Dispatching fd, ssls := n\<rparr>)"
  by (simp add: intake_ok_def)

lemmas intake_ok_intros = intake_ok_next_turn intake_ok_fork intake_ok_exit intake_ok_accept
  intake_ok_handshake

lemma fork_child_pc [simp]: "pc (fork_child fd s) = pc s"
  by (simp add: fork_child_def)

interpretation http_machine: guarded_machine "\<lambda>s. \<exists>fd. s = intake_start fd" http_step intake_ok
proof unfold_locales
  show "http_step s s' \<Longrightarrow> intake_ok s \<Longrightarrow> intake_ok s'" for s s'
    by (induction rule: http_step.induct) (auto intro: intake_ok_intros)
qed (auto simp: intake_ok_start)

interpretation tls_machine: guarded_machine "\<lambda>s. \<exists>fd. s = intake_start fd" tls_step intake_ok
proof unfold_locales
  show "tls_step s s' \<Longrightarrow> intake_ok s \<Longrightarrow> intake_ok s'" for s s'
    by (induction rule: tls_step.induct) (auto intro: intake_ok_intros)
qed (auto simp: intake_ok_start)

section \<open>Objects nobody frees\<close>

text \<open>Every client handed to a child has cost the parent one \<open>SSL\<close> object for good.\<close>

definition ssl_kept :: "intake \<Rightarrow> bool" where
  "ssl_kept s \<longleftrightarrow>
     length (procs s) + (case pc s of Dispatching _ \<Rightarrow> 1 | _ \<Rightarrow> 0) \<le> ssls s"

interpretation ssl_machine: guarded_machine "\<lambda>s. \<exists>fd. s = intake_start fd" tls_step ssl_kept
proof unfold_locales
  show "tls_step s s' \<Longrightarrow> ssl_kept s \<Longrightarrow> ssl_kept s'" for s s'
    by (induction rule: tls_step.induct) (auto simp: ssl_kept_def next_turn_def fork_child_def)
qed (auto simp: ssl_kept_def intake_start_def)

section \<open>The loop body as a function\<close>

text \<open>
  One turn of \<open>HttpServer::clientIntakeCycle\<close> in the parent, from the results of
  \<open>accept\<close> and \<open>fork\<close> (\<open>None\<close>: \<open>fork\<close> failed).
\<close>

definition http_turn :: "int \<Rightarrow> nat option \<Rightarrow> intake \<Rightarrow> intake" where
  "http_turn cli_sock pid s =
     (if cli_sock = kInvalidSocket then s
      else
        (let s1 = s\<lparr>pc := Dispatching cli_sock, fds := cli_sock # fds s\<rparr> in
         case pid of
           None \<Rightarrow> next_turn cli_sock s1
         | Some _ \<Rightarrow> next_turn cli_sock (fork_child cli_sock s1)))"

text \<open>The TLS turn; the handshake yields an \<open>SSL\<close> object or \<open>nullptr\<close>.\<close>

definition tls_turn :: "int \<Rightarrow> bool \<Rightarrow> nat option \<Rightarrow> intake \<Rightarrow> intake" where
  "tls_turn cli_sock ssl pid s =
     (if cli_sock = kInvalidSocket then s
      else
        (let s1 = s\<lparr>pc := Handshaking cli_sock, fds := cli_sock # fds s\<rparr> in
         if \<not> ssl then next_turn cli_sock s1
         else
           (let s2 = s1\<lparr>pc := Dispatching cli_sock, ssls := ssls s1 + 1\<rparr> in
            case pid of
              None \<Rightarrow> next_turn cli_sock s2
            | Some _ \<Rightarrow> next_turn cli_sock (fork_child cli_sock s2))))"

text \<open>\<open>sslHandshake\<close>: the results of \<open>SSL_new\<close> and \<open>SSL_accept\<close>; on failure it frees.\<close>

definition sslHandshake :: "bool \<Rightarrow> int \<Rightarrow> bool \<times> nat" where
  "sslHandshake ssl_new ssl_accept =
     (if \<not> ssl_new then (False, 0)
      else if ssl_accept \<le> 0 then (False, 1)
      else (True, 0))"

lemma http_turn_steps:
  assumes "pc s = Accepting" "cli_sock = - 1 \<or> new_descriptor cli_sock s"
  shows "http_step\<^sup>*\<^sup>* s (http_turn cli_sock pid s)"
proof (cases "cli_sock = - 1")
  case True
  then show ?thesis by (simp add: http_turn_def kInvalidSocket_def)
next
  case False
  let ?s1 = "s\<lparr>pc := Dispatching cli_sock, fds := cli_sock # fds s\<rparr>"
  have "http_step s ?s1" using False assms by (auto intro: http_step.accept_client)
  moreover have "http_step ?s1 (http_turn cli_sock pid s)"
    using False http_step.fork_failed [of ?s1 cli_sock] http_step.fork_done [of ?s1 cli_sock]
    by (cases pid) (simp_all add: http_turn_def kInvalidSocket_def)
  ultimately show ?thesis by (auto intro: rtranclp.rtrancl_into_rtrancl)
qed

lemma tls_turn_steps:
  assumes "pc s = Accepting" "cli_sock = - 1 \<or> new_descriptor cli_sock s"
  shows "tls_step\<^sup>*\<^sup>* s (tls_turn cli_sock ssl pid s)"
proof (cases "cli_sock = - 1")
  case True
  then show ?thesis by (simp add: tls_turn_def kInvalidSocket_def)
next
  case False
  let ?s1 = "s\<lparr>pc := Handshaking cli_sock, fds := cli_sock # fds s\<rparr>"
  let ?s2 = "?s1\<lparr>pc := Dispatching cli_sock, ssls := ssls ?s1 + 1\<rparr>"
  have 1: "tls_step s ?s1" using False assms by (auto intro: tls_step.accept_client)
  show ?thesis
  proof (cases ssl)
    case ssl: False
    have "tls_step ?s1 (tls_turn cli_sock ssl pid s)"
      using False ssl tls_step.handshake_failed [of ?s1 cli_sock]
      by (simp add: tls_turn_def kInvalidSocket_def)
    with 1 show ?thesis by (auto intro: rtranclp.rtrancl_into_rtrancl)
  next
    case ssl: True
    have 2: "tls_step ?s1 ?s2" by (rule tls_step.handshake_done) simp
    have "tls_step ?s2 (tls_turn cli_sock ssl pid s)"
      using False ssl tls_step.fork_failed [of ?s2 cli_sock] tls_step.fork_done [of ?s2 cli_sock]
      by (cases pid) (simp_all add: tls_turn_def kInvalidSocket_def)
    with 1 2 show ?thesis by (meson rtranclp.rtrancl_into_rtrancl rtranclp.rtrancl_refl)
  qed
qed

section \<open>Properties\<close>

text \<open>
  C25. Descriptors stay where they belong, in every reachable state of both servers: the
  parent keeps the descriptor of the client it is working on and of no other, never loses
  the listening socket, and every child holds its own client's descriptor, not the
  listening socket and not another client's.
\<close>
theorem descriptors_isolated:
  assumes "http_step\<^sup>*\<^sup>* (intake_start l) s \<or> tls_step\<^sup>*\<^sup>* (intake_start l) s"
  shows "set (fds s) - {0} = set (pc_fd (pc s)) - {0} \<and> list_all (proc_ok (lfd s)) (procs s)"
proof -
  have "intake_ok s"
    using assms http_machine.reachable_inv tls_machine.reachable_inv by blast
  then show ?thesis by (simp add: intake_ok_def)
qed

lemma sample_turns:
  "tls_step\<^sup>*\<^sup>* (intake_start 3) (tls_turn 5 True (Some 99) (tls_turn 4 False None (intake_start 3)))"
proof -
  have "tls_step\<^sup>*\<^sup>* (intake_start 3) (tls_turn 4 False None (intake_start 3))"
    by (rule tls_turn_steps) (simp_all add: intake_start_def new_descriptor_def)
  moreover have "tls_step\<^sup>*\<^sup>* (tls_turn 4 False None (intake_start 3))
      (tls_turn 5 True (Some 99) (tls_turn 4 False None (intake_start 3)))"
    by (rule tls_turn_steps)
       (simp_all add: intake_start_def new_descriptor_def tls_turn_def next_turn_def kInvalidSocket_def)
  ultimately show ?thesis by (rule rtranclp_trans)
qed

theorem descriptors_isolated_witness:
  "let s = tls_turn 5 True (Some 99) (tls_turn 4 False None (intake_start 3)) in
     fds s = [] \<and> procs s = [Child 5 [5]] \<and> list_all (proc_ok (lfd s)) (procs s)"
  using descriptors_isolated [of 3, OF disjI2 [OF sample_turns]]
  by (simp add: tls_turn_def next_turn_def fork_child_def intake_start_def kInvalidSocket_def)

text \<open>
  The TLS parent never gets rid of an \<open>SSL\<close> object it handed to a child: in every
  reachable state it holds at least one for every child it ever forked, finished or not,
  and finished children stay in the process table, since nothing waits for them.
\<close>
theorem ssl_objects_accumulate:
  assumes "tls_step\<^sup>*\<^sup>* (intake_start l) s" and "tls_step\<^sup>*\<^sup>* s s'"
  shows "length (procs s) \<le> ssls s \<and> length (procs s) \<le> length (procs s') \<and> ssls s \<le> ssls s'"
proof -
  have "ssl_kept s" using assms(1) ssl_machine.reachable_inv by blast
  moreover have "length (procs s) \<le> length (procs s') \<and> ssls s \<le> ssls s'"
    using assms(2)
  proof induction
    case (step t u)
    from step.hyps(2) have "length (procs t) \<le> length (procs u) \<and> ssls t \<le> ssls u"
      by (induction rule: tls_step.induct) (auto simp: next_turn_def fork_child_def)
    with step.IH show ?case by auto
  qed simp
  ultimately show ?thesis by (simp add: ssl_kept_def)
qed

theorem ssl_objects_accumulate_witness:
  "length (procs (tls_turn 5 True (Some 99) (tls_turn 4 False None (intake_start 3)))) \<le>
   ssls (tls_turn 5 True (Some 99) (tls_turn 4 False None (intake_start 3)))"
  using ssl_objects_accumulate [OF sample_turns rtranclp.rtrancl_refl] by blast

text \<open>
  One client at a time during the handshake: while the TLS parent is in
  \<open>SSL_accept\<close> for a client, no step accepts another one or forks; every step of the
  parent ends this handshake. A client that connects and sends nothing therefore keeps all
  later clients waiting.
\<close>
theorem handshake_blocks_intake:
  assumes "pc s = Handshaking fd" and "tls_step s s'"
  shows "(pc s' = Handshaking fd \<and> fds s' = fds s \<and> length (procs s') = length (procs s)) \<or>
    (pc s' = Dispatching fd \<and> fds s' = fds s \<and> procs s' = procs s) \<or>
    (pc s' = Accepting \<and> set (fds s') \<subseteq> set (fds s) \<and> procs s' = procs s)"
  using assms(2,1) by (elim tls_stepE) (auto simp: next_turn_def)

theorem handshake_blocks_intake_witness:
  "let s = (intake_start 3)\<lparr>pc := Handshaking 4, fds := [4]\<rparr> in
     tls_step s (next_turn 4 s) \<and> pc (next_turn 4 s) = Accepting \<and>
     procs (next_turn 4 s) = procs s"
proof -
  let ?s = "(intake_start 3)\<lparr>pc := Handshaking 4, fds := [4]\<rparr>"
  have step: "tls_step ?s (next_turn 4 ?s)" by (rule tls_step.handshake_failed) simp
  have "pc (next_turn 4 ?s) = Accepting" by (simp add: next_turn_def)
  with handshake_blocks_intake [OF _ step, of 4] step show ?thesis by (simp add: Let_def)
qed

section \<open>The TLS server object\<close>

text \<open>
  The constructor of \<open>HttpsServer\<close> from the results of the OpenSSL calls, in their
  order; \<open>err\<close> is what \<open>ERR_error_string_n\<close> writes. \<open>SSLException\<close> is a
  \<open>std::runtime_error\<close>.
\<close>

record tls_api =
  ctx_new :: bool
  use_certificate :: "string \<Rightarrow> int"
  use_private_key :: "string \<Rightarrow> int"
  check_private_key :: bool
  ssl_err :: string

definition key_mismatch :: string where
  "key_mismatch = ''Private key does not match certificate '' @ [CHR 0xE2, CHR 0x80, CHR 0x94] @
     '' server cannot start in HTTPS mode''"

definition HttpsServer_new :: "tls_api \<Rightarrow> string \<Rightarrow> string \<Rightarrow> http_server outcome" where
  "HttpsServer_new api cert key =
     (if \<not> ctx_new api then Raise (Runtime_error (ssl_err api))
      else if use_certificate api cert \<le> 0 then Raise (Runtime_error (ssl_err api))
      else if use_private_key api key \<le> 0 then Raise (Runtime_error (ssl_err api))
      else if \<not> check_private_key api then Raise (Runtime_error key_mismatch)
      else Ret new_server)"

text \<open>
  The destructor frees the context (the number counts how often), then the base class
  releases its address list and its socket.
\<close>

definition HttpsServer_destroy :: "http_server \<Rightarrow> nat \<Rightarrow> trace_log \<Rightarrow> nat \<times> trace_log" where
  "HttpsServer_destroy s ctx_frees l = (ctx_frees + 1, HttpServer_destroy s l)"

end
