(* ===== verification/Worker.thy ===== *)
theory Worker
  imports Delivery Intake
begin

text \<open>
  The child processes of \<open>clientIntakeCycle\<close> (\<open>http_server.cc\<close>, \<open>https_server.cc\<close>): what a
  forked worker does between \<open>fork\<close> and \<open>_exit\<close>, whatever the client sends and however
  the socket behaves. An exception would leave the \<open>noexcept\<close> cycle and end the process.
\<close>

definition http_worker ::
    "json_parser \<Rightarrow> json_dumper \<Rightarrow> manager \<Rightarrow> string \<Rightarrow> string \<Rightarrow> int \<Rightarrow> ClientConnection \<Rightarrow> nat \<Rightarrow>
     endpoint \<Rightarrow> world \<Rightarrow> endpoint outcome" where
  "http_worker jparse jdump m buf beyond lsock cl bufsz ep w =
     noexcept (obind
       (HttpConnection_process jparse jdump m buf beyond (new_connection cl bufsz) (close_fd lsock ep) w)
       (\<lambda>(_, conn, ep', _). Ret (HttpConnection_destroy conn ep')))"

definition https_worker ::
    "json_parser \<Rightarrow> json_dumper \<Rightarrow> manager \<Rightarrow> int \<Rightarrow> ClientConnection \<Rightarrow> nat \<Rightarrow>
     endpoint \<Rightarrow> world \<Rightarrow> endpoint outcome" where
  "https_worker jparse jdump m lsock cl bufsz ep w =
     noexcept (obind
       (HttpsConnection_process jparse jdump m (new_connection cl bufsz) (close_fd lsock ep) w)
       (\<lambda>(_, conn, ep', _). Ret (HttpsConnection_destroy conn ep')))"

section \<open>Sending a text of any length\<close>

text \<open>The peer's side ends in an error or a close, so that no call waits for ever.\<close>

definition receiving_ends :: "arrival list \<Rightarrow> bool" where
  "receiving_ends as \<longleftrightarrow> as \<noteq> [] \<and> last as \<in> {Closed, Failed}"

definition sending_ends :: "send_result list \<Rightarrow> bool" where
  "sending_ends ss \<longleftrightarrow> ss \<noteq> [] \<and> last ss \<in> {Send_closed, Send_failed}"

lemma sending_ends_Cons:
  "sending_ends (a # ss) \<longleftrightarrow> (if ss = [] then a \<in> {Send_closed, Send_failed} else sending_ends ss)"
  by (auto simp: sending_ends_def)

text \<open>A sending loop stopped somewhere behind position \<open>i\<close>, or it waits for ever.\<close>

definition stopped ::
    "send_result list \<Rightarrow> string \<Rightarrow> string \<Rightarrow> (bool \<times> send_result list \<times> string) outcome \<Rightarrow> bool" where
  "stopped ss rest out r \<longleftrightarrow>
     (r = Diverge \<and> \<not> sending_ends ss) \<or> (\<exists>good ss' k. r = Ret (good, ss', out @ take k rest))"

lemma stopped_here: "stopped ss rest out (Ret (good, ss', out))"
  by (auto simp: stopped_def intro!: exI [of _ 0])

lemma stopped_Nil: "stopped [] rest out Diverge"
  by (simp add: stopped_def sending_ends_def)

lemma stopped_later:
  assumes "stopped ss (drop (i + n) resp) (out @ take n (drop i resp)) r"
    and "a \<notin> {Send_closed, Send_failed}"
  shows "stopped (a # ss) (drop i resp) out r"
proof -
  have "(out @ take n (drop i resp)) @ take k (drop (i + n) resp) = out @ take (n + k) (drop i resp)" for k
    by (metis append_assoc take_add drop_drop add.commute)
  with assms show ?thesis unfolding stopped_def sending_ends_Cons by (metis sending_ends_def)
qed

lemma http_send_loop_stopped: "stopped ss (drop i resp) out (http_send_loop ss resp i out)"
proof (induction ss arbitrary: i out)
  case Nil
  show ?case by (subst http_send_loop.simps) (simp add: stopped_here stopped_Nil)
next
  case (Cons a ss)
  have later: "stopped (a # ss) (drop i resp) out
      (http_send_loop ss resp (i + n) (out @ take n (drop i resp)))"
    if "a \<notin> {Send_closed, Send_failed}" for n
    using Cons.IH that by (rule stopped_later)
  show ?case
    using later [of 0] later
    by (subst http_send_loop.simps) (cases a; simp add: stopped_here Let_def)
qed

lemma tls_send_loop_stopped: "stopped ss (drop i resp) out (tls_send_loop ss resp i out)"
proof (induction ss arbitrary: i out)
  case Nil
  show ?case by (subst tls_send_loop.simps) (simp add: stopped_here stopped_Nil Let_def)
next
  case (Cons a ss)
  have later: "stopped (a # ss) (drop i resp) out
      (tls_send_loop ss resp (i + n) (out @ take n (drop i resp)))"
    if "a \<notin> {Send_closed, Send_failed}" for n
    using Cons.IH that by (rule stopped_later)
  show ?case
    using later [of 0] later
    by (subst tls_send_loop.simps) (cases a; simp add: stopped_here Let_def)
qed

section \<open>The contract of a sender for texts of any length\<close>

definition partly_sent :: "string \<Rightarrow> endpoint \<Rightarrow> (bool \<times> endpoint) outcome \<Rightarrow> bool" where
  "partly_sent resp ep r \<longleftrightarrow>
     (r = Diverge \<and> \<not> sending_ends (sends ep)) \<or>
     (\<exists>good ss k. r = Ret (good, ep\<lparr>sends := ss, wire := wire ep @ take k resp\<rparr>))"

text \<open>What \<open>recv\<close> can end in: a request, nothing, or a built-in answer on the wire.\<close>

definition recv_end ::
    "json_dumper \<Rightarrow> endpoint \<Rightarrow> world \<Rightarrow> (string option \<times> endpoint \<times> world) outcome \<Rightarrow> bool" where
  "recv_end jdump ep w r \<longleftrightarrow>
     r = Terminate \<or>
     (r = Diverge \<and> \<not> (receiving_ends (arrivals ep) \<and> sending_ends (sends ep))) \<or>
     (\<exists>req as. r = Ret (req, ep\<lparr>arrivals := as\<rparr>, w)) \<or>
     (\<exists>as ss code t k w'. r = Ret (None, ep\<lparr>arrivals := as, sends := ss, wire := wire ep @ take k t\<rparr>, w') \<and>
        code \<in> {InternalError, RequestBufferOverflow} \<and>
        serialize jdump (fst (makeResp_fresh code (JObject []) w)) = Ret t)"

lemma partly_sent_Ret: "partly_sent resp ep (Ret (good, ep\<lparr>sends := ss, wire := wire ep @ take k resp\<rparr>))"
  unfolding partly_sent_def by blast

lemma recv_end_intros:
  "recv_end jdump ep w Terminate"
  "\<not> receiving_ends (arrivals ep) \<or> \<not> sending_ends (sends ep) \<Longrightarrow> recv_end jdump ep w Diverge"
  "recv_end jdump ep w (Ret (req, ep\<lparr>arrivals := as\<rparr>, w))"
  "code \<in> {InternalError, RequestBufferOverflow} \<Longrightarrow>
   serialize jdump (fst (makeResp_fresh code (JObject []) w)) = Ret t \<Longrightarrow>
   recv_end jdump ep w (Ret (None, ep\<lparr>arrivals := as, sends := ss, wire := wire ep @ take k t\<rparr>, w'))"
  unfolding recv_end_def by blast+

locale part_sender =
  fixes send :: "string \<Rightarrow> endpoint \<Rightarrow> (bool \<times> endpoint) outcome"
  assumes part: "partly_sent resp ep (send resp ep)"
begin

lemma send_cases:
  obtains "send resp ep = Diverge" "\<not> sending_ends (sends ep)"
  | good ss k where "send resp ep = Ret (good, ep\<lparr>sends := ss, wire := wire ep @ take k resp\<rparr>)"
  using part [of resp ep] by (auto simp: partly_sent_def)

lemma send_part:
  "send resp ep = Ret (good, ep') \<Longrightarrow> \<exists>ss k. ep' = ep\<lparr>sends := ss, wire := wire ep @ take k resp\<rparr>"
  using part [of resp ep] by (auto simp: partly_sent_def)

lemma send_noexcept: "noexcept (send resp ep) = send resp ep"
  by (rule send_cases [of resp ep]) simp_all

lemma status_recv_end:
  assumes "code \<in> {InternalError, RequestBufferOverflow}"
  shows "recv_end jdump ep w
    (obind (send_status jdump send code (ep\<lparr>arrivals := as\<rparr>) w) (\<lambda>(ep2, w2). Ret (None, ep2, w2)))"
proof (cases "serialize jdump (fst (makeResp_fresh code (JObject []) w))")
  case (Ret t)
  show ?thesis
  proof (rule send_cases [of t "ep\<lparr>arrivals := as\<rparr>"])
    fix good ss k
    assume "send t (ep\<lparr>arrivals := as\<rparr>) =
      Ret (good, ep\<lparr>arrivals := as, sends := ss, wire := wire (ep\<lparr>arrivals := as\<rparr>) @ take k t\<rparr>)"
    then show ?thesis
      using recv_end_intros(4) [OF assms Ret, where ep = ep and as = as and ss = ss and k = k]
      by (simp add: send_status_def split_beta Ret)
  qed (use Ret in \<open>simp add: send_status_def split_beta recv_end_intros\<close>)
qed (auto simp: send_status_def split_beta serialize_def recv_end_intros split: option.splits)

end

lemma stopped_send:
  "stopped (sends ep) (drop 0 resp) (wire ep) r \<Longrightarrow>
   partly_sent resp ep (obind r (\<lambda>(result, script, out). Ret (result, ep\<lparr>sends := script, wire := out\<rparr>)))"
  using partly_sent_Ret by (auto simp: stopped_def) (simp add: partly_sent_def)

interpretation http_part: part_sender HttpConnection_send
  by unfold_locales (unfold HttpConnection_send_def, rule stopped_send, rule http_send_loop_stopped)

interpretation tls_part: part_sender HttpsConnection_send
  by unfold_locales (unfold HttpsConnection_send_def, rule stopped_send, rule tls_send_loop_stopped)

section \<open>Receiving\<close>

lemma receive_ends:
  "receive n as = Some (a, as') \<Longrightarrow> receiving_ends as \<Longrightarrow> a \<in> {Closed, Failed} \<or> receiving_ends as'"
  by (cases "(n, as)" rule: receive.cases) (auto simp: receiving_ends_def split: if_splits)

lemma receive_None: "receive n as = None \<Longrightarrow> \<not> receiving_ends as"
  by (cases "(n, as)" rule: receive.cases) (auto simp: receiving_ends_def split: if_splits)

lemma recv_end_arrivals:
  assumes "recv_end jdump (ep\<lparr>arrivals := as\<rparr>) w r" "receiving_ends (arrivals ep) \<Longrightarrow> receiving_ends as"
  shows "recv_end jdump ep w r"
  using assms by (auto simp: recv_end_def)

lemma tls_recv_loop_end: "recv_end jdump ep w (tls_recv_loop jdump n resbytes req ep w)"
proof (induction jdump n resbytes req ep w rule: tls_recv_loop.induct)
  case (1 jdump n resbytes req ep w)
  note step = tls_recv_loop.simps [of jdump n resbytes req ep w]
  show ?case
  proof (cases "receive n (arrivals ep)")
    case None
    then show ?thesis using receive_None by (subst step) (auto simp: recv_end_intros)
  next
    case (Some x)
    obtain a as where x: "x = (a, as)" by (cases x)
    have go: "recv_end jdump ep w (tls_recv_loop jdump n r q (ep\<lparr>arrivals := as\<rparr>) w)"
      if "a \<notin> {Closed, Failed}" "recv_end jdump (ep\<lparr>arrivals := as\<rparr>) w (tls_recv_loop jdump n r q (ep\<lparr>arrivals := as\<rparr>) w)"
      for r q
      using that receive_ends [OF Some [unfolded x]] by (auto intro: recv_end_arrivals)
    have here: "recv_end jdump ep w (Ret (q, ep\<lparr>arrivals := as\<rparr>, w))" for q
      by (rule recv_end_intros)
    show ?thesis
      using "1.IH"(1) [OF Some x [symmetric] refl] "1.IH"(2) [OF Some x [symmetric] refl]
        tls_part.status_recv_end [of _ jdump ep w as] go here
      by (subst step) (cases a; simp add: Some x Let_def)
  qed
qed

lemma http_recv_loop_end:
  "recv_end jdump ep w (http_recv_loop jdump beyond n buf resbytes req ep w)"
proof (induction jdump beyond n buf resbytes req ep w rule: http_recv_loop.induct)
  case (1 jdump beyond n buf resbytes req ep w)
  note step = http_recv_loop.simps [of jdump beyond n buf resbytes req ep w]
  show ?case
  proof (cases "receive n (arrivals ep)")
    case None
    then show ?thesis using receive_None by (subst step) (auto simp: recv_end_intros)
  next
    case (Some x)
    obtain a as where x: "x = (a, as)" by (cases x)
    have go: "recv_end jdump ep w (http_recv_loop jdump beyond n b r q (ep\<lparr>arrivals := as\<rparr>) w)"
      if "a \<notin> {Closed, Failed}"
        "recv_end jdump (ep\<lparr>arrivals := as\<rparr>) w (http_recv_loop jdump beyond n b r q (ep\<lparr>arrivals := as\<rparr>) w)"
      for b r q
      using that receive_ends [OF Some [unfolded x]] by (auto intro: recv_end_arrivals)
    have here: "recv_end jdump ep w (Ret (q, ep\<lparr>arrivals := as\<rparr>, w))" for q
      by (rule recv_end_intros)
    show ?thesis
      using "1.IH" [OF Some x [symmetric] refl] http_part.status_recv_end [of _ jdump ep w as] go here
      by (subst step) (cases a; simp add: Some x Let_def)
  qed
qed

section \<open>One connection\<close>

text \<open>
  What a worker leaves behind: its listening socket and its client's descriptor closed
  once, and on the wire a part of the text of one response, of which \<open>P\<close> holds, or nothing.
\<close>

definition worker_end ::
    "json_dumper \<Rightarrow> (Response \<Rightarrow> bool) \<Rightarrow> int \<Rightarrow> ClientConnection \<Rightarrow> endpoint \<Rightarrow> endpoint \<Rightarrow> bool" where
  "worker_end jdump P lsock cl ep ep' \<longleftrightarrow>
     closed_fds ep' = closed_fds ep @ lsock # (if sockfd cl > 0 then [sockfd cl] else []) \<and>
     (wire ep' = wire ep \<or>
      (\<exists>resp t k. P resp \<and> serialize jdump resp = Ret t \<and> wire ep' = wire ep @ take k t))"

definition built_in_error :: "world \<Rightarrow> Response \<Rightarrow> bool" where
  "built_in_error w resp \<longleftrightarrow>
     (\<exists>code \<in> {InternalError, RequestBufferOverflow}. resp = fst (makeResp_fresh code (JObject []) w))"

lemma destroy_end:
  "closed_fds (HttpConnection_destroy conn ep) =
     closed_fds ep @ (if sockfd (client conn) > 0 then [sockfd (client conn)] else [])"
  "wire (HttpConnection_destroy conn ep) = wire ep"
  "ssl_freed (HttpConnection_destroy conn ep) = ssl_freed ep"
  "closed_fds (HttpsConnection_destroy conn ep) =
     closed_fds ep @ (if sockfd (client conn) > 0 then [sockfd (client conn)] else [])"
  "wire (HttpsConnection_destroy conn ep) = wire ep"
  "ssl_freed (HttpsConnection_destroy conn ep) = ssl_freed ep + 1"
  by (simp_all add: HttpsConnection_destroy_def HttpConnection_destroy_def
      HttpConnection_closeConnection_def ClientConnection_destroy_def close_fd_def Let_def
      kEmptyDescriptor_def kInvalidSocket_def)

section \<open>When a worker waits\<close>

lemma obind_Diverge: "obind m f = Diverge \<longleftrightarrow> m = Diverge \<or> (\<exists>x. m = Ret x \<and> f x = Diverge)"
  by (cases m) auto

lemma noexcept_Diverge: "noexcept m = Diverge \<longleftrightarrow> m = Diverge"
  by (cases m) auto

lemma process_not_Diverge:
  assumes "length raw < 2 ^ 31" "\<And>req w. RouterManager_Route m req w \<noteq> Diverge"
  shows "process jparse jdump m c raw w \<noteq> Diverge"
proof -
  have "parse_ref jparse raw w \<noteq> Diverge"
    by (auto simp: parse_ref_def Let_def split: option.split prod.split json_parse.split)
  moreover have "serialize jdump resp \<noteq> Diverge" for resp
    by (simp add: serialize_def split: option.split)
  ultimately show ?thesis
    using assms(2)
    by (auto simp: process_def parse_w_def parse_ref_eq [OF assms(1)] obind_Diverge
        split: option.splits prod.splits if_splits)
qed

text \<open>The stages of \<open>process\<close> under TLS.\<close>

lemma https_process_stages:
  assumes "HttpsConnection_process jparse jdump m conn ep w = Ret (sent, conn', ep', w')"
  obtains (dropped) "tls_recv_loop jdump (bufsize conn) 0 [] ep w = Ret (None, ep', w')" "conn' = conn"
  | (served) r as out where "tls_recv_loop jdump (bufsize conn) 0 [] ep w = Ret (Some r, ep\<lparr>arrivals := as\<rparr>, w)"
      "conn' = conn\<lparr>conn_req := r\<rparr>" "execution jparse jdump m conn' w = Ret (out, w')"
      "HttpsConnection_send out (ep\<lparr>arrivals := as\<rparr>) = Ret (sent, ep')" "length r < 8192"
      "prefix r (pending (arrivals ep))"
proof -
  obtain good c1 ep1 w1 where recv: "HttpsConnection_recv jdump conn ep w = Ret (good, c1, ep1, w1)"
    using assms by (auto simp: HttpsConnection_process_def outcome_simps)
  then obtain req where loop: "tls_recv_loop jdump (bufsize conn) 0 [] ep w = Ret (req, ep1, w1)"
      "good = (req \<noteq> None)" "c1 = (case req of None \<Rightarrow> conn | Some r \<Rightarrow> conn\<lparr>conn_req := r\<rparr>)"
    by (auto simp: HttpsConnection_recv_def outcome_simps split: option.splits)
  show ?thesis
  proof (cases req)
    case None
    then have "conn' = conn" "ep' = ep1" "w' = w1"
      using assms loop(2,3) by (simp_all add: HttpsConnection_process_def recv)
    then show ?thesis using loop(1) None by (intro dropped) simp_all
  next
    case (Some r)
    note received = loop(1) [unfolded Some]
    have "\<exists>as. ep1 = ep\<lparr>arrivals := as\<rparr> \<and> w1 = w \<and> length r < kReceptionBufLimit \<and>
        [] @ pending (arrivals ep) = r @ pending as"
      by (rule tls_recv_loop_exact [OF received]) (simp_all add: kReceptionBufLimit_def kReceptionBufSize_def)
    then obtain as where exact: "ep1 = ep\<lparr>arrivals := as\<rparr>" "w1 = w" "length r < 8192"
        "prefix r (pending (arrivals ep))"
      by (auto simp: kReceptionBufLimit_def kReceptionBufSize_def prefix_def)
    have good: "good" using loop(2) Some by simp
    obtain out w2 where out: "execution jparse jdump m c1 w1 = Ret (out, w2)"
        "noexcept (HttpsConnection_send out ep1) = Ret (sent, ep')" "conn' = c1" "w' = w2"
      using assms unfolding HttpsConnection_process_def recv obind.simps prod.case
      by (simp only: good simp_thms if_False obind_Ret_iff) (auto simp: obind_Ret_iff simp del: noexcept.simps)
    show ?thesis
      using served [of r as out] loop Some exact out by (simp add: noexcept_Ret_iff)
  qed
qed

lemma recv_end_None:
  assumes "recv_end jdump ep w (Ret (None, ep', w'))"
  shows "closed_fds ep' = closed_fds ep \<and> ssl_freed ep' = ssl_freed ep \<and>
    (wire ep' = wire ep \<or>
     (\<exists>resp t k. built_in_error w resp \<and> serialize jdump resp = Ret t \<and> wire ep' = wire ep @ take k t))"
proof -
  consider as where "ep' = ep\<lparr>arrivals := as\<rparr>"
    | as ss code t k where "ep' = ep\<lparr>arrivals := as, sends := ss, wire := wire ep @ take k t\<rparr>"
        "code \<in> {InternalError, RequestBufferOverflow}"
        "serialize jdump (fst (makeResp_fresh code (JObject []) w)) = Ret t"
    using assms by (simp only: recv_end_def outcome.inject prod.inject outcome.distinct simp_thms) blast
  then show ?thesis
  proof cases
    case (2 as ss code t k)
    moreover from 2 have "built_in_error w (fst (makeResp_fresh code (JObject []) w))"
      unfolding built_in_error_def by blast
    ultimately show ?thesis by auto
  qed simp
qed

text \<open>The same without TLS.\<close>

lemma http_process_stages:
  assumes "HttpConnection_process jparse jdump m buf beyond conn ep w = Ret (sent, conn', ep', w')"
  obtains (dropped)
      "http_recv_loop jdump beyond (bufsize conn) buf 0 [] ep w = Ret (None, ep', w')" "conn' = conn"
  | (served) r ep1 w1 out where
      "http_recv_loop jdump beyond (bufsize conn) buf 0 [] ep w = Ret (Some r, ep1, w1)"
      "conn' = conn\<lparr>conn_req := r\<rparr>" "process_text jparse jdump m new_codec r w1 = Ret (out, w')"
      "HttpConnection_send out ep1 = Ret (sent, ep')"
proof -
  obtain good c1 ep1 w1 where recv: "HttpConnection_recv jdump buf beyond conn ep w = Ret (good, c1, ep1, w1)"
    using assms by (auto simp: HttpConnection_process_def outcome_simps)
  then obtain req where loop: "http_recv_loop jdump beyond (bufsize conn) buf 0 [] ep w = Ret (req, ep1, w1)"
      "good = (req \<noteq> None)" "c1 = (case req of None \<Rightarrow> conn | Some r \<Rightarrow> conn\<lparr>conn_req := r\<rparr>)"
    by (auto simp: HttpConnection_recv_def outcome_simps split: option.splits)
  show ?thesis
  proof (cases req)
    case None
    then have "conn' = conn" "ep' = ep1" "w' = w1"
      using assms loop(2,3) by (simp_all add: HttpConnection_process_def recv)
    then show ?thesis using loop(1) None by (intro dropped) simp_all
  next
    case (Some r)
    have good: "good" using loop(2) Some by simp
    obtain out w2 where out: "execution jparse jdump m c1 w1 = Ret (out, w2)"
        "noexcept (HttpConnection_send out ep1) = Ret (sent, ep')" "conn' = c1" "w' = w2"
      using assms unfolding HttpConnection_process_def recv obind.simps prod.case
      by (simp only: good simp_thms if_False obind_Ret_iff) (auto simp: obind_Ret_iff simp del: noexcept.simps)
    have "process_text jparse jdump m new_codec r w1 = Ret (out, w')"
      using out(1,4) loop(3) Some by (simp add: execution_text noexcept_Ret_iff)
    then show ?thesis using served [of r ep1 w1 out] loop Some out by (simp add: noexcept_Ret_iff)
  qed
qed

text \<open>
  The text the plain \<open>recv\<close> has stored after reading \<open>segs\<close>, one after the other, into the
  same array: of each the C string that starts at the array.
\<close>

fun appended :: "string \<Rightarrow> string \<Rightarrow> string list \<Rightarrow> string" where
  "appended beyond buf [] = []"
| "appended beyond buf (s # segs) =
     (let buf' = s @ drop (length s) buf in c_string buf' beyond @ appended beyond buf' segs)"

lemma http_recv_stored:
  assumes "http_recv_loop jdump beyond n buf res req ep w = Ret (Some r, ep', w')" "res < kReceptionBufLimit"
  shows "\<exists>segs as. ep' = ep\<lparr>arrivals := as\<rparr> \<and> w' = w \<and> r = req @ appended beyond buf segs \<and>
    pending (arrivals ep) = concat segs @ pending as \<and> res + length (concat segs) < kReceptionBufLimit"
  using assms
proof (induction jdump beyond n buf res req ep w rule: http_recv_loop.induct)
  case (1 jdump beyond n buf res req ep w)
  note step = http_recv_loop.simps [of jdump beyond n buf res req ep w]
  from "1.prems" obtain s as where got: "receive n (arrivals ep) = Some (Bytes s, as)"
    by (subst (asm) step)
       (auto simp: Let_def outcome_simps split: option.splits arrival.splits)
  let ?buf = "s @ drop (length s) buf"
  have s: "s \<noteq> []" "res + length s < kReceptionBufLimit" "pending (arrivals ep) = s @ pending as"
    using "1.prems" got receive_bytes [OF got]
    by (subst (asm) step, auto simp: Let_def outcome_simps split: if_splits)+
  show ?case
  proof (cases "length s < n")
    case True
    then show ?thesis
      using "1.prems" got s
      by (subst (asm) step) (auto simp: Let_def intro!: exI [of _ "[s]"] exI [of _ as])
  next
    case False
    let ?r = "req @ c_string ?buf beyond" and ?ep = "ep\<lparr>arrivals := as\<rparr>"
    have "http_recv_loop jdump beyond n ?buf (res + length s) ?r ?ep w = Ret (Some r, ep', w')"
      using "1.prems"(1) got s False by (subst (asm) step) (simp add: Let_def)
    then obtain segs bs where "ep' = ?ep\<lparr>arrivals := bs\<rparr>" "w' = w" "r = ?r @ appended beyond ?buf segs"
        "pending as = concat segs @ pending bs" "res + length s + length (concat segs) < kReceptionBufLimit"
      using "1.IH" [OF got refl refl refl _ _ refl refl] s(1,2) False by auto
    with s(3) show ?thesis by (intro exI [of _ "s # segs"] exI [of _ bs]) (simp add: Let_def)
  qed
qed

section \<open>Properties\<close>

text \<open>
  C12. One plain HTTP connection from the worker's side, with no assumption on the client, the
  handlers or the memory behind the receive buffer. A worker that comes to its end has
  closed the listening socket and its client's descriptor once, and what it sent is nothing
  or a beginning of one of two texts: a built-in error, or the one text \<open>process\<close> makes of
  what \<open>recv\<close> has stored for a beginning of the client's bytes, below the limit of 8192.
  Unless that stored text has \<open>2 ^ 31\<close> bytes, this is the serialised answer of the
  application by the reference parser and the table of handlers.
\<close>
theorem http_worker_answers_once:
  assumes "run_registrations rs (RouterManager_Init m0) = Ret (bs, m)"
    and "http_worker jparse jdump m buf beyond lsock cl bufsz ep w = Ret ep'"
  shows "closed_fds ep' = closed_fds ep @ lsock # (if sockfd cl > 0 then [sockfd cl] else []) \<and>
    ssl_freed ep' = ssl_freed ep \<and>
    (\<exists>t k. wire ep' = wire ep @ take k t \<and>
      (t = [] \<or>
       (\<exists>code \<in> {InternalError, RequestBufferOverflow}.
          serialize jdump (fst (makeResp_fresh code (JObject []) w)) = Ret t) \<or>
       (\<exists>segs w'. prefix (concat segs) (pending (arrivals ep)) \<and> length (concat segs) < 8192 \<and>
          process_text jparse jdump m new_codec (appended beyond buf segs) w = Ret (t, w') \<and>
          (length (appended beyond buf segs) < 2 ^ 31 \<longrightarrow>
            (\<exists>resp. expected_answer jparse rs (appended beyond buf segs) w = Ret (resp, w') \<and>
               serialize jdump resp = Ret t)))))"
proof -
  let ?ep = "close_fd lsock ep" and ?conn = "new_connection cl bufsz"
  have start: "wire ?ep = wire ep" "arrivals ?ep = arrivals ep" "closed_fds ?ep = closed_fds ep @ [lsock]"
      "ssl_freed ?ep = ssl_freed ep" "client ?conn = cl" "bufsize ?conn = bufsz"
    by (simp_all add: close_fd_def new_connection_def)
  obtain sent conn' ep2 w2 where
      run: "HttpConnection_process jparse jdump m buf beyond ?conn ?ep w = Ret (sent, conn', ep2, w2)"
    and ep': "ep' = HttpConnection_destroy conn' ep2"
    using assms(2) by (auto simp: http_worker_def outcome_simps)
  from run show ?thesis
  proof (cases rule: http_process_stages)
    case dropped
    then have "recv_end jdump ?ep w (Ret (None, ep2, w2))"
      using http_recv_loop_end [of jdump ?ep w beyond bufsz buf 0 "[]"] by (simp add: start)
    from recv_end_None [OF this] have kept: "closed_fds ep2 = closed_fds ?ep" "ssl_freed ep2 = ssl_freed ?ep"
      and begun: "wire ep2 = wire ep \<or> (\<exists>t k. wire ep2 = wire ep @ take k t \<and>
        (\<exists>code \<in> {InternalError, RequestBufferOverflow}.
          serialize jdump (fst (makeResp_fresh code (JObject []) w)) = Ret t))"
      unfolding built_in_error_def start(1) by blast+
    from begun have "\<exists>t k. wire ep2 = wire ep @ take k t \<and>
        (t = [] \<or> (\<exists>code \<in> {InternalError, RequestBufferOverflow}.
          serialize jdump (fst (makeResp_fresh code (JObject []) w)) = Ret t))"
      by (metis append_Nil2 take_Nil)
    with kept dropped(2) show ?thesis
      by (simp only: ep' destroy_end start) (simp, blast)
  next
    case (served r ep1 w1 out)
    obtain segs as where stored: "ep1 = ?ep\<lparr>arrivals := as\<rparr>" "w1 = w" "r = appended beyond buf segs"
        "pending (arrivals ep) = concat segs @ pending as" "length (concat segs) < 8192"
      using http_recv_stored [OF served(1)] by (auto simp: start kReceptionBufLimit_def kReceptionBufSize_def)
    obtain ss k where sent: "ep2 = ep1\<lparr>sends := ss, wire := wire ep1 @ take k out\<rparr>"
      using http_part.send_part [OF served(4)] by auto
    have "\<exists>resp. expected_answer jparse rs r w = Ret (resp, w2) \<and> serialize jdump resp = Ret out"
      if "length r < 2 ^ 31"
      using served(3) process_answer [OF that assms(1)] stored(2) by (auto simp: outcome_simps)
    with served(3) stored have "\<exists>segs w'. prefix (concat segs) (pending (arrivals ep)) \<and> length (concat segs) < 8192 \<and>
        process_text jparse jdump m new_codec (appended beyond buf segs) w = Ret (out, w') \<and>
        (length (appended beyond buf segs) < 2 ^ 31 \<longrightarrow>
          (\<exists>resp. expected_answer jparse rs (appended beyond buf segs) w = Ret (resp, w') \<and>
             serialize jdump resp = Ret out))"
      by (intro exI [of _ segs] exI [of _ w2]) auto
    moreover have "wire ep' = wire ep @ take k out" "ssl_freed ep' = ssl_freed ep"
        "closed_fds ep' = closed_fds ep @ lsock # (if sockfd cl > 0 then [sockfd cl] else [])"
      using served(2) by (simp_all add: ep' destroy_end sent stored(1) start)
    ultimately show ?thesis by blast
  qed
qed

text \<open>A client on descriptor 5 that sends one byte and takes the answer.\<close>

definition short_client :: endpoint where
  "short_client = sample_endpoint\<lparr>arrivals := [Bytes ''x''], sends := [Accepts 1000]\<rparr>"

lemma short_client_facts:
  "arrivals (close_fd 3 short_client) = [Bytes ''x'']" "sends (close_fd 3 short_client) = [Accepts 1000]"
  "wire (close_fd 3 short_client) = []"
  "expected_answer (\<lambda>_. Parse_error) [] ''x'' sample_world =
     Ret (makeResp_fresh InvalidJsonOrParams (JObject []) sample_world)"
proof -
  have "first_match crlf ''x'' = None" by code_simp
  then show "expected_answer (\<lambda>_. Parse_error) [] ''x'' sample_world =
      Ret (makeResp_fresh InvalidJsonOrParams (JObject []) sample_world)"
    by (simp add: expected_answer_def parse_ref_def)
qed (simp_all add: close_fd_def short_client_def sample_endpoint_def)

lemma short_text:
  obtains out where "serialize (\<lambda>_. Some ''{}'') (fst (makeResp_fresh InvalidJsonOrParams (JObject []) sample_world)) = Ret out"
    "length out \<le> 1000" "out \<noteq> []"
proof -
  obtain out where out: "serialize (\<lambda>_. Some ''{}'') (fst (makeResp_fresh InvalidJsonOrParams (JObject []) sample_world)) = Ret out"
    by (simp add: serialize_def)
  then have "out \<noteq> []" by (auto simp: serialize_def)
  with that out builtin_text_short [OF out] show thesis by blast
qed

lemma no_routes: "run_registrations [] (RouterManager_Init None) = Ret ([], manager_of (Some []))"
  unfolding run_registrations_manager by simp

theorem http_worker_answers_once_witness:
  "\<exists>ep'. http_worker (\<lambda>_. Parse_error) (\<lambda>_. Some ''{}'') (manager_of (Some [])) (replicate 1024 CHR 0x00) [] 3
      (default_client\<lparr>sockfd := 5\<rparr>) 1024 short_client sample_world = Ret ep' \<and>
    closed_fds ep' = [3, 5] \<and> ssl_freed ep' = 0 \<and> wire ep' \<noteq> []"
proof -
  let ?buf = "replicate 1024 CHR 0x00" and ?ep = "close_fd 3 short_client"
  let ?conn = "new_connection (default_client\<lparr>sockfd := 5\<rparr>) 1024"
  obtain out where out: "serialize (\<lambda>_. Some ''{}'') (fst (makeResp_fresh InvalidJsonOrParams (JObject []) sample_world)) = Ret out"
    "length out \<le> 1000" "out \<noteq> []" by (rule short_text)
  have "c_string (''x'' @ drop 1 ?buf) [] = ''x''"
    by (simp add: c_string_def takeWhile_append takeWhile_replicate)
  then have recv: "HttpConnection_recv (\<lambda>_. Some ''{}'') ?buf [] ?conn ?ep sample_world =
      Ret (True, ?conn\<lparr>conn_req := ''x''\<rparr>, ?ep\<lparr>arrivals := []\<rparr>, sample_world)"
    by (simp add: HttpConnection_recv_def http_recv_loop.simps short_client_facts(1) new_connection_def Let_def
        kReceptionBufLimit_def kReceptionBufSize_def)
  have exec: "execution (\<lambda>_. Parse_error) (\<lambda>_. Some ''{}'') (manager_of (Some [])) (?conn\<lparr>conn_req := ''x''\<rparr>) sample_world =
      Ret (out, snd (makeResp_fresh InvalidJsonOrParams (JObject []) sample_world))"
    using out(1) by (simp add: execution_text process_answer [OF _ no_routes] short_client_facts(4) split_beta)
  have "willing (sends (?ep\<lparr>arrivals := []\<rparr>)) (length out)" using out(2) by (simp add: short_client_facts(2) willing_once)
  then obtain script where "HttpConnection_send out (?ep\<lparr>arrivals := []\<rparr>) =
      Ret (True, ?ep\<lparr>arrivals := [], sends := script, wire := out\<rparr>)"
    using http.send_willing [of out "?ep\<lparr>arrivals := []\<rparr>"] out(2) by (auto simp: short_client_facts(3))
  then obtain ep' where run: "http_worker (\<lambda>_. Parse_error) (\<lambda>_. Some ''{}'') (manager_of (Some [])) ?buf [] 3
      (default_client\<lparr>sockfd := 5\<rparr>) 1024 short_client sample_world = Ret ep'" "wire ep' = out"
    by (simp add: http_worker_def HttpConnection_process_def recv exec destroy_end)
  from http_worker_answers_once [OF no_routes run(1)] run out(3) show ?thesis
    by (simp add: short_client_def sample_endpoint_def)
qed

text \<open>
  One TLS connection from the worker's side, with no assumption on the client: a worker
  that comes to its end has closed the listening socket and its client's descriptor once,
  freed the \<open>SSL\<close> object once, and sent nothing, or a beginning of the text of exactly one
  response: a built-in error, or the answer of the application to a beginning of the bytes
  the client sent.
\<close>
theorem https_worker_answers_once:
  assumes "run_registrations rs (RouterManager_Init m0) = Ret (bs, m)"
    and "https_worker jparse jdump m lsock cl bufsz ep w = Ret ep'"
  shows "worker_end jdump
      (\<lambda>resp. built_in_error w resp \<or>
         (\<exists>r w'. prefix r (pending (arrivals ep)) \<and> expected_answer jparse rs r w = Ret (resp, w')))
      lsock cl ep ep' \<and> ssl_freed ep' = ssl_freed ep + 1"
proof -
  let ?ep = "close_fd lsock ep" and ?conn = "new_connection cl bufsz"
  obtain sent conn' ep2 w2 where run: "HttpsConnection_process jparse jdump m ?conn ?ep w = Ret (sent, conn', ep2, w2)"
    and ep': "ep' = HttpsConnection_destroy conn' ep2"
    using assms(2) by (auto simp: https_worker_def outcome_simps)
  from run show ?thesis
  proof (cases rule: https_process_stages)
    case dropped
    then have "recv_end jdump ?ep w (Ret (None, ep2, w2))"
      using tls_recv_loop_end [of jdump ?ep w "bufsize ?conn" 0 "[]"] by simp
    from recv_end_None [OF this] dropped(2) show ?thesis
      by (auto simp: worker_end_def ep' destroy_end close_fd_def new_connection_def)
  next
    case (served r as out)
    have "process_text jparse jdump m new_codec r w = Ret (out, w2)"
      using served(2,3) by (simp add: execution_text noexcept_Ret_iff)
    then obtain resp w3 where resp: "expected_answer jparse rs r w = Ret (resp, w3)"
        "serialize jdump resp = Ret out"
      using process_answer [OF _ assms(1), of r] served(5) by (auto simp: outcome_simps)
    obtain ss k where "ep2 = ?ep\<lparr>arrivals := as, sends := ss, wire := wire ?ep @ take k out\<rparr>"
      using tls_part.send_part [OF served(4)] by auto
    then show ?thesis
      using resp served(2,6)
      by (auto simp: worker_end_def ep' destroy_end close_fd_def new_connection_def)
  qed
qed

theorem https_worker_answers_once_witness:
  "\<exists>ep' t. https_worker (\<lambda>_. Parse_error) (\<lambda>_. Some ''{}'') (manager_of (Some [])) 3
      (default_client\<lparr>sockfd := 5\<rparr>) 1024 short_client sample_world = Ret ep' \<and>
    closed_fds ep' = [3, 5] \<and> ssl_freed ep' = 1 \<and> wire ep' \<noteq> []"
proof -
  let ?ep = "close_fd 3 short_client" and ?conn = "new_connection (default_client\<lparr>sockfd := 5\<rparr>) 1024"
  let ?answer = "makeResp_fresh InvalidJsonOrParams (JObject []) sample_world"
  obtain out where out: "serialize (\<lambda>_. Some ''{}'') (fst ?answer) = Ret out" "length out \<le> 1000" "out \<noteq> []"
    by (rule short_text)
  note ep = short_client_facts
  have answer: "expected_answer (\<lambda>_. Parse_error) [] ''x'' sample_world = Ret (fst ?answer, snd ?answer)"
    by (simp add: ep(4))
  have "willing (sends ?ep) (length out)" using out(2) by (simp add: ep willing_once)
  then obtain script where "HttpsConnection_process (\<lambda>_. Parse_error) (\<lambda>_. Some ''{}'') (manager_of (Some []))
      ?conn ?ep sample_world =
    Ret (True, ?conn\<lparr>conn_req := ''x''\<rparr>, ?ep\<lparr>arrivals := [], sends := script, wire := wire ?ep @ out\<rparr>, snd ?answer)"
    using https_process_segment [OF ep(1) _ _ _ _ no_routes answer out(1), of ?conn] out(2)
    by (auto simp: new_connection_def)
  then obtain ep' where run: "https_worker (\<lambda>_. Parse_error) (\<lambda>_. Some ''{}'') (manager_of (Some [])) 3
      (default_client\<lparr>sockfd := 5\<rparr>) 1024 short_client sample_world = Ret ep'" "wire ep' = out"
    by (simp add: https_worker_def destroy_end ep)
  from https_worker_answers_once [OF no_routes run(1)] run out(3) show ?thesis
    by (auto simp: worker_end_def short_client_def sample_endpoint_def)
qed

text \<open>
  A worker does not outlive its peer: when the client's side of the socket ends in a close
  or an error, for receiving and for sending, and the handlers return, the worker comes to
  an end, with its exit or through a failure, and never waits for ever.
\<close>
theorem https_worker_ends:
  assumes "receiving_ends (arrivals ep)" "sending_ends (sends ep)"
    and "\<And>req w. RouterManager_Route m req w \<noteq> Diverge"
  shows "https_worker jparse jdump m lsock cl bufsz ep w \<noteq> Diverge"
proof
  let ?ep = "close_fd lsock ep" and ?conn = "new_connection cl bufsz"
  let ?loop = "tls_recv_loop jdump bufsz 0 [] ?ep w"
  assume "https_worker jparse jdump m lsock cl bufsz ep w = Diverge"
  then have stuck: "HttpsConnection_process jparse jdump m ?conn ?ep w = Diverge"
    by (cases "HttpsConnection_process jparse jdump m ?conn ?ep w")
       (auto simp: https_worker_def split: prod.splits)
  have recv: "recv_end jdump ?ep w ?loop" by (rule tls_recv_loop_end)
  have "?loop \<noteq> Diverge"
    using recv assms(1,2) by (auto simp: recv_end_def close_fd_def)
  then obtain r ep1 w1 where loop: "?loop = Ret (Some r, ep1, w1)"
    using stuck
    by (cases ?loop)
       (auto simp: HttpsConnection_process_def HttpsConnection_recv_def new_connection_def split: option.splits)
  have "\<exists>as. ep1 = ?ep\<lparr>arrivals := as\<rparr> \<and> w1 = w \<and> length r < kReceptionBufLimit \<and>
      [] @ pending (arrivals ?ep) = r @ pending as"
    by (rule tls_recv_loop_exact [OF loop]) (simp_all add: kReceptionBufLimit_def kReceptionBufSize_def)
  then have r: "length r < 2 ^ 31" and open_end: "sending_ends (sends ep1)"
    using assms(2) by (auto simp: close_fd_def kReceptionBufLimit_def kReceptionBufSize_def)
  have "process jparse jdump m new_codec r w1 \<noteq> Diverge"
    using r assms(3) by (rule process_not_Diverge)
  then have exec: "execution jparse jdump m (?conn\<lparr>conn_req := r\<rparr>) w1 \<noteq> Diverge"
    by (auto simp: execution_def noexcept_Diverge obind_Diverge)
  have send: "HttpsConnection_send out ep1 \<noteq> Diverge" for out
    using open_end tls_part.part [of out ep1] by (auto simp: partly_sent_def)
  from stuck exec send show False
    by (auto simp: HttpsConnection_process_def HttpsConnection_recv_def new_connection_def loop
        obind_Diverge noexcept_Diverge)
qed

theorem https_worker_ends_witness:
  "https_worker (\<lambda>_. Parse_error) (\<lambda>_. Some ''{}'') None 3 default_client 1024
     (sample_endpoint\<lparr>arrivals := [Bytes ''GET'', Retry, Closed], sends := [Accepts 2, Send_closed]\<rparr>) sample_world
   \<noteq> Diverge"
  by (rule https_worker_ends) (simp_all add: receiving_ends_def sending_ends_def RouterManager_Route_def)

end
