(* ===== verification/Logging.thy ===== *)
theory Logging
  imports Message
begin

text \<open>
  \<open>src/src/logging/.../logging.h\<close> and \<open>logging.cc\<close>, and the stream of
  \<open>logging_system.{h,cc}\<close> that builds one log record: formats, sinks, the logger. The
  time stamp is text that comes with the record; \<open>jdump\<close> is \<open>dump\<close> of the JSON library
  and \<open>vformat\<close> is \<open>fmt::vformat\<close> (\<open>None\<close>: it throws). A file stream is its buffer, what
  has reached the file, and a script of the outcomes of its next operations. The standard
  output is what was printed, and a test of what it takes next: \<open>fmt::print\<close> throws when a
  write fails.
\<close>

section \<open>Records and formats\<close>

record LogInfo =
  li_status :: log
  li_info :: string
  li_file :: string
  li_line :: nat
  li_column :: nat
  li_details :: "(string \<times> string) list"
  li_timepoint :: string

definition quoted :: "string \<Rightarrow> string" where
  "quoted s = [CHR 0x22] @ s @ [CHR 0x22]"

definition detail_line :: "string \<times> string \<Rightarrow> string" where
  "detail_line d = [CHR 0x09] @ ''- '' @ fst d @ '': '' @ quoted (snd d) @ [CHR 0x0A]"

definition ConsoleFormat :: "LogInfo \<Rightarrow> string" where
  "ConsoleFormat i =
     (let base = ''['' @ li_timepoint i @ ''] ['' @ colored_reason (li_status i) @ ''] '' @
            li_file i @ '':('' @ dec (li_line i) @ '':'' @ dec (li_column i) @ '') '' @
            quoted (li_info i) in
      if li_details i \<noteq> []
      then butlast (base @ '' details:'' @ [CHR 0x0A] @ concat (map detail_line (li_details i)))
      else base)"

definition log_json :: "LogInfo \<Rightarrow> json" where
  "log_json i = JObject [
     (''timepoint'', JString (li_timepoint i)),
     (''status_code'', JInt (int (log_num (li_status i)))),
     (''status'', JString (log_reason (li_status i))),
     (''file'', JString (li_file i)),
     (''line'', JInt (int (li_line i))),
     (''details'', JArray (map (\<lambda>(k, v). JArray [JString k, JString v]) (li_details i)))]"

definition JsonFormat :: "(json \<Rightarrow> string option) \<Rightarrow> LogInfo \<Rightarrow> string outcome" where
  "JsonFormat jdump i =
     noexcept (case jdump (log_json i) of None \<Rightarrow> Raise Json_exception | Some t \<Rightarrow> Ret t)"

datatype format = Format_console | Format_json

definition FormatIs :: "string \<Rightarrow> format option" where
  "FormatIs name =
     (if name = ''console'' then Some Format_console
      else if name = ''json'' then Some Format_json
      else None)"

fun apply_format :: "(json \<Rightarrow> string option) \<Rightarrow> format \<Rightarrow> LogInfo \<Rightarrow> string outcome" where
  "apply_format jdump Format_console i = Ret (ConsoleFormat i)"
| "apply_format jdump Format_json i = JsonFormat jdump i"

section \<open>Sinks\<close>

record fstream =
  buffered :: string    \<comment> \<open>written, not flushed\<close>
  on_disk :: string
  faults :: "bool list" \<comment> \<open>whether the next operations fail; none does after the last\<close>
  spills :: "nat list"  \<comment> \<open>how much the next writes push out of a full buffer\<close>

definition fs_fault :: "fstream \<Rightarrow> bool \<times> fstream" where
  "fs_fault s = (case faults s of [] \<Rightarrow> (False, s) | b # bs \<Rightarrow> (b, s\<lparr>faults := bs\<rparr>))"

text \<open>A write may push the older part of the buffer into the file, whatever its capacity.\<close>

definition fs_spill :: "fstream \<Rightarrow> fstream" where
  "fs_spill s =
     (case spills s of
        [] \<Rightarrow> s
      | n # ns \<Rightarrow> s\<lparr>spills := ns, on_disk := on_disk s @ take n (buffered s), buffered := drop n (buffered s)\<rparr>)"

definition fs_write :: "string \<Rightarrow> fstream \<Rightarrow> bool \<times> fstream" where
  "fs_write t s =
     (let (bad, s') = fs_fault s in
      if bad then (False, s') else (True, fs_spill (s'\<lparr>buffered := buffered s' @ t\<rparr>)))"

text \<open>\<open>FileSink::flush\<close>.\<close>

definition FileSink_flush :: "fstream \<Rightarrow> bool \<times> fstream" where
  "FileSink_flush s =
     (let (bad, s') = fs_fault s in
      if bad then (False, s')
      else (True, s'\<lparr>on_disk := on_disk s' @ buffered s', buffered := []\<rparr>))"

definition FileSink_log ::
    "(json \<Rightarrow> string option) \<Rightarrow> format \<Rightarrow> LogInfo \<Rightarrow> fstream \<Rightarrow> (bool \<times> fstream) outcome" where
  "FileSink_log jdump f i s =
     noexcept (obind (apply_format jdump f i) (\<lambda>inf.
       let (written, s1) = fs_write (inf @ [CHR 0x0A]) s in
       if \<not> written then Ret (False, s1)
       else if important_log (li_status i) then Ret (FileSink_flush s1)
       else Ret (True, s1)))"

text \<open>
  What the sinks rely on: \<open>dump\<close> for a record, and whether the standard output takes a text
  behind what was printed before. No two writes come behind the same text, so that a test of
  both covers every way in which writes can fail.
\<close>

record log_api =
  dump_line :: "json \<Rightarrow> string option"
  stdout_takes :: "string \<Rightarrow> string \<Rightarrow> bool"

definition print_line :: "log_api \<Rightarrow> string \<Rightarrow> string \<Rightarrow> string outcome" where
  "print_line lapi t out =
     (if stdout_takes lapi out (t @ [CHR 0x0A]) then Ret (out @ t @ [CHR 0x0A]) else Raise System_error)"

definition ConsoleSink_log ::
    "log_api \<Rightarrow> format \<Rightarrow> LogInfo \<Rightarrow> string \<Rightarrow> (bool \<times> string) outcome" where
  "ConsoleSink_log lapi f i out =
     noexcept (obind (apply_format (dump_line lapi) f i) (\<lambda>t.
       obind (print_line lapi t out) (\<lambda>out'. Ret (True, out'))))"

text \<open>A logger's sinks write to the standard output or to the stream of that number.\<close>

datatype sink = ConsoleSink format | FileSink format nat

record outputs =
  console :: string
  streams :: "fstream list"

fun sink_log :: "log_api \<Rightarrow> LogInfo \<Rightarrow> sink \<Rightarrow> outputs \<Rightarrow> outputs outcome" where
  "sink_log lapi i (ConsoleSink f) o1 =
     obind (ConsoleSink_log lapi f i (console o1)) (\<lambda>(_, c). Ret (o1\<lparr>console := c\<rparr>))"
| "sink_log lapi i (FileSink f n) o1 =
     obind (FileSink_log (dump_line lapi) f i (streams o1 ! n)) (\<lambda>(_, s). Ret (o1\<lparr>streams := (streams o1)[n := s]\<rparr>))"

record Logger =
  level :: log
  sinks :: "sink list"

fun log_all :: "log_api \<Rightarrow> LogInfo \<Rightarrow> sink list \<Rightarrow> outputs \<Rightarrow> outputs outcome" where
  "log_all lapi i [] o1 = Ret o1"
| "log_all lapi i (s # ss) o1 = obind (sink_log lapi i s o1) (log_all lapi i ss)"

definition Logger_log :: "log_api \<Rightarrow> Logger \<Rightarrow> LogInfo \<Rightarrow> outputs \<Rightarrow> outputs outcome" where
  "Logger_log lapi lg i o1 = noexcept (log_all lapi i (sinks lg) o1)"

text \<open>The other members: the overload that builds the record, the level, and the destructor of
  a file sink, whose \<open>close\<close> flushes and ignores a failure.\<close>

definition Logger_log_at ::
    "log_api \<Rightarrow> Logger \<Rightarrow> log \<Rightarrow> string \<Rightarrow> (string \<times> string) list \<Rightarrow> string \<times> nat \<times> nat \<Rightarrow>
     string \<Rightarrow> outputs \<Rightarrow> outputs outcome" where
  "Logger_log_at lapi lg lvl msg details loc now o1 =
     (case loc of (file, line, column) \<Rightarrow>
        Logger_log lapi lg
          \<lparr>li_status = lvl, li_info = msg, li_file = file, li_line = line, li_column = column,
           li_details = details, li_timepoint = now\<rparr> o1)"

definition Logger_set_level :: "log \<Rightarrow> Logger \<Rightarrow> Logger" where
  "Logger_set_level lvl lg = lg\<lparr>level := lvl\<rparr>"

definition FileSink_destroy :: "fstream \<Rightarrow> fstream" where
  "FileSink_destroy s = snd (FileSink_flush s)"

section \<open>The stream behind the log macros\<close>

text \<open>The fields a result code or an HTTP status adds behind the caller's details.\<close>

definition retcode_fields :: "retCode \<Rightarrow> (string \<times> string) list" where
  "retcode_fields code =
     [(''retCode'', dec (retcode_num code)), (''retMesg'', retMesg code),
      (''status'', dec (http_code (to_http_status code))),
      (''obsolete_reason'', obsolete_reason (to_http_status code))]"

definition status_fields :: "http \<Rightarrow> (string \<times> string) list" where
  "status_fields s = [(''status'', dec (http_code s)), (''obsolete_reason'', obsolete_reason s)]"

datatype subject = On_level log | On_retcode retCode | On_status http

fun subject_log :: "subject \<Rightarrow> log" where
  "subject_log (On_level l) = l"
| "subject_log (On_retcode c) = retcode_to_log c"
| "subject_log (On_status s) = http_to_log s"

fun subject_fields :: "subject \<Rightarrow> (string \<times> string) list" where
  "subject_fields (On_level l) = []"
| "subject_fields (On_retcode c) = retcode_fields c"
| "subject_fields (On_status s) = status_fields s"

text \<open>Where a macro stands, and the time its record is made.\<close>

record location =
  loc_file :: string
  loc_line :: nat
  loc_column :: nat
  loc_time :: string

definition LogStream_new :: "subject \<Rightarrow> location \<Rightarrow> string \<Rightarrow> (string \<times> string) list \<Rightarrow> LogInfo" where
  "LogStream_new subj loc msg details =
     \<lparr>li_status = subject_log subj, li_info = msg, li_file = loc_file loc, li_line = loc_line loc,
      li_column = loc_column loc, li_details = details @ subject_fields subj,
      li_timepoint = loc_time loc\<rparr>"

text \<open>
  The destructor: the texts streamed into it are the arguments of the message, a format
  error loses the record.
\<close>

definition LogStream_destroy ::
    "log_api \<Rightarrow> (string \<Rightarrow> string list \<Rightarrow> string option) \<Rightarrow> Logger \<Rightarrow> LogInfo \<Rightarrow>
     string list \<Rightarrow> outputs \<Rightarrow> outputs outcome" where
  "LogStream_destroy lapi vformat lg i buffer o1 =
     (case (if buffer \<noteq> [] then vformat (li_info i) buffer else Some (li_info i)) of
        None \<Rightarrow> Ret o1
      | Some t \<Rightarrow> Logger_log lapi lg (i\<lparr>li_info := t\<rparr>) o1)"

section \<open>What reaches a file\<close>

lemma format_quiet: "noexcept (apply_format jdump f i) = apply_format jdump f i"
  by (cases f) (auto simp: JsonFormat_def split: option.splits)

text \<open>A healthy stream: no operation fails any more.\<close>

definition logged_text :: "(json \<Rightarrow> string option) \<Rightarrow> format \<Rightarrow> LogInfo list \<Rightarrow> string" where
  "logged_text jdump f is =
     concat (map (\<lambda>i. (case apply_format jdump f i of Ret t \<Rightarrow> t @ [CHR 0x0A] | _ \<Rightarrow> [])) is)"

lemma logged_text_simps [simp]:
  "logged_text jdump f [] = []"
  "logged_text jdump f (i # is) =
     (case apply_format jdump f i of Ret t \<Rightarrow> t @ [CHR 0x0A] | _ \<Rightarrow> []) @ logged_text jdump f is"
  "logged_text jdump f (is @ is') = logged_text jdump f is @ logged_text jdump f is'"
  by (simp_all add: logged_text_def)

lemma fs_spill_total: "on_disk (fs_spill s) @ buffered (fs_spill s) = on_disk s @ buffered s"
  by (simp add: fs_spill_def split: list.split)

lemma fs_spill_same [simp]: "faults (fs_spill s) = faults s" "spills s = [] \<Longrightarrow> fs_spill s = s"
  by (simp_all add: fs_spill_def split: list.split)

lemma FileSink_log_healthy:
  assumes "faults s = []" "apply_format jdump f i = Ret t"
  shows "FileSink_log jdump f i s = Ret (True,
    let s1 = fs_spill (s\<lparr>buffered := buffered s @ t @ [CHR 0x0A]\<rparr>) in
    if important_log (li_status i) then s1\<lparr>on_disk := on_disk s1 @ buffered s1, buffered := []\<rparr> else s1)"
  using assms by (simp add: FileSink_log_def fs_write_def fs_fault_def FileSink_flush_def Let_def)

lemma FileSink_log_text:
  assumes "faults s = []" "apply_format jdump f i = Ret t"
  shows "\<exists>s'. FileSink_log jdump f i s = Ret (True, s') \<and> faults s' = [] \<and>
    on_disk s' @ buffered s' = on_disk s @ buffered s @ logged_text jdump f [i] \<and>
    (important_log (li_status i) \<longrightarrow> buffered s' = [])"
  using FileSink_log_healthy [OF assms] assms fs_spill_total [of "s\<lparr>buffered := buffered s @ t @ [CHR 0x0A]\<rparr>"]
  by (simp add: Let_def)

fun FileSink_run ::
    "(json \<Rightarrow> string option) \<Rightarrow> format \<Rightarrow> LogInfo list \<Rightarrow> fstream \<Rightarrow> (bool list \<times> fstream) outcome" where
  "FileSink_run jdump f [] s = Ret ([], s)"
| "FileSink_run jdump f (i # is) s =
     obind (FileSink_log jdump f i s) (\<lambda>(b, s').
     obind (FileSink_run jdump f is s') (\<lambda>(bs, s''). Ret (b # bs, s'')))"

lemma FileSink_run_healthy:
  assumes "faults s = []" "\<forall>i \<in> set is. \<exists>t. apply_format jdump f i = Ret t"
  shows "\<exists>s'. FileSink_run jdump f is s = Ret (replicate (length is) True, s') \<and> faults s' = [] \<and>
    on_disk s' @ buffered s' = on_disk s @ buffered s @ logged_text jdump f is"
  using assms
proof (induction "is" arbitrary: s)
  case (Cons i "is")
  obtain t where t: "apply_format jdump f i = Ret t" using Cons.prems(2) by auto
  from FileSink_log_text [OF Cons.prems(1) t] obtain s1
    where s1: "FileSink_log jdump f i s = Ret (True, s1)" "faults s1 = []"
      "on_disk s1 @ buffered s1 = on_disk s @ buffered s @ logged_text jdump f [i]" by blast
  with Cons.IH [of s1] Cons.prems(2) t show ?case by auto
qed simp

lemma FileSink_run_append:
  "FileSink_run jdump f (is @ js) s =
     obind (FileSink_run jdump f is s) (\<lambda>(bs, s1).
     obind (FileSink_run jdump f js s1) (\<lambda>(cs, s2). Ret (bs @ cs, s2)))"
proof (induction "is" arbitrary: s)
  case Nil
  then show ?case by (cases "FileSink_run jdump f js s") auto
qed (simp add: obind_assoc case_prod_unfold)

section \<open>Properties\<close>

text \<open>
  Nothing important is lost in a buffer: on a stream that does not fail, a run of records
  is written completely and in order, and when the last one is important (warning, error,
  critical, unknown) everything up to it has reached the file.
\<close>
theorem important_records_reach_disk:
  assumes "faults s = []" and "\<forall>i \<in> set (is @ [i]). \<exists>t. apply_format jdump f i = Ret t"
    and "important_log (li_status i)"
  shows "\<exists>s'. FileSink_run jdump f (is @ [i]) s = Ret (replicate (length is + 1) True, s') \<and>
    buffered s' = [] \<and>
    on_disk s' = on_disk s @ buffered s @
      concat (map (\<lambda>i. (case apply_format jdump f i of Ret t \<Rightarrow> t @ [CHR 0x0A] | _ \<Rightarrow> [])) (is @ [i]))"
proof -
  obtain t where t: "apply_format jdump f i = Ret t" using assms(2) by auto
  obtain s1 where s1: "FileSink_run jdump f is s = Ret (replicate (length is) True, s1)" "faults s1 = []"
      "on_disk s1 @ buffered s1 = on_disk s @ buffered s @ logged_text jdump f is"
    using FileSink_run_healthy [of s "is" jdump f] assms by auto
  obtain s2 where "FileSink_log jdump f i s1 = Ret (True, s2)"
      "on_disk s2 @ buffered s2 = on_disk s1 @ buffered s1 @ logged_text jdump f [i]" "buffered s2 = []"
    using FileSink_log_text [OF s1(2) t] assms(3) by blast
  with s1 show ?thesis
    by (simp add: FileSink_run_append replicate_append_same logged_text_def [symmetric])
qed

definition sample_record :: LogInfo where
  "sample_record = LogStream_new (On_level error)
     \<lparr>loc_file = ''server.cc'', loc_line = 7, loc_column = 3, loc_time = ''noon''\<rparr> ''down'' []"

theorem important_records_reach_disk_witness:
  "\<exists>s'. FileSink_run (\<lambda>_. Some ''x'') Format_json [sample_record, sample_record]
     \<lparr>buffered = ''a'', on_disk = [], faults = [], spills = [1]\<rparr> = Ret ([True, True], s') \<and>
     on_disk s' = ''ax'' @ [CHR 0x0A] @ ''x'' @ [CHR 0x0A]"
proof -
  have imp: "important_log (li_status sample_record)"
    by (simp add: sample_record_def LogStream_new_def)
  have fmt: "apply_format (\<lambda>_. Some ''x'') Format_json i = Ret ''x''" for i
    by (simp add: JsonFormat_def)
  show ?thesis
    using important_records_reach_disk [of "\<lparr>buffered = ''a'', on_disk = [], faults = [], spills = [1]\<rparr>"
        "[sample_record]" sample_record "\<lambda>_. Some ''x''" Format_json] imp fmt
    by (auto simp: numeral_2_eq_2)
qed

text \<open>
  The JSON format drops the message: two records that differ in nothing but the message
  are logged as the same line, whatever the dump function, while the console format shows
  the message in quotes.
\<close>
theorem json_format_drops_message:
  "JsonFormat jdump (i\<lparr>li_info := m\<rparr>) = JsonFormat jdump i \<and>
   (\<exists>a b. ConsoleFormat (i\<lparr>li_info := m\<rparr>) = a @ quoted m @ b)"
proof
  show "JsonFormat jdump (i\<lparr>li_info := m\<rparr>) = JsonFormat jdump i"
    by (simp add: JsonFormat_def log_json_def)
  let ?a = "''['' @ li_timepoint i @ ''] ['' @ colored_reason (li_status i) @ ''] '' @
    li_file i @ '':('' @ dec (li_line i) @ '':'' @ dec (li_column i) @ '') ''"
  let ?d = "'' details:'' @ [CHR 0x0A] @ concat (map detail_line (li_details i))"
  have "ConsoleFormat (i\<lparr>li_info := m\<rparr>) =
      ?a @ quoted m @ (if li_details i \<noteq> [] then butlast ?d else [])"
    by (simp add: ConsoleFormat_def Let_def butlast_append)
  then show "\<exists>a b. ConsoleFormat (i\<lparr>li_info := m\<rparr>) = a @ quoted m @ b" by blast
qed

end
