(* ===== verification/LogSystem.thy ===== *)
theory LogSystem
  imports Logging
begin

text \<open>
  \<open>src/src/logging/.../manager/logging_manager.{h,cc}\<close>, \<open>manager/logging_system.{h,cc}\<close>
  and the watcher of \<open>config/impl/macos.{h,cc}\<close>: the manager reads its configuration, the
  system holds a manager and a watcher thread, the log macros ask the system. The YAML
  library is the record \<open>yaml_api\<close> over its node type; its exceptions (indexing a scalar,
  converting to the wrong type) are \<open>std::runtime_error\<close>. A call on the system runs to its end before the next one (the
  system holds its mutex); the watcher's reload is a call of its own.
\<close>

section \<open>Configuration\<close>

record 'n yaml_api =
  y_load :: "string \<Rightarrow> 'n option"             \<comment> \<open>\<open>LoadFile\<close>; \<open>None\<close> is a \<open>YAML::Exception\<close>\<close>
  y_get :: "'n \<Rightarrow> string \<Rightarrow> 'n option"     \<comment> \<open>\<open>node[key]\<close>; \<open>None\<close> is an undefined node\<close>
  y_is_map :: "'n \<Rightarrow> bool"
  y_is_scalar :: "'n \<Rightarrow> bool"
  y_is_seq :: "'n \<Rightarrow> bool"
  y_size :: "'n \<Rightarrow> nat"
  y_first :: "'n \<Rightarrow> 'n \<times> 'n"               \<comment> \<open>the first entry of a mapping\<close>
  y_elems :: "'n \<Rightarrow> 'n list"                 \<comment> \<open>the elements of a sequence\<close>
  y_bool :: "'n \<Rightarrow> bool option"              \<comment> \<open>\<open>as<bool>\<close>; \<open>None\<close> is \<open>BadConversion\<close>\<close>
  y_string :: "'n \<Rightarrow> string"

definition as_bool :: "'n yaml_api \<Rightarrow> 'n \<Rightarrow> bool outcome" where
  "as_bool y n = (case y_bool y n of None \<Rightarrow> Raise (Runtime_error ''bad conversion'') | Some b \<Rightarrow> Ret b)"

text \<open>\<open>create\<close> of the two sinks; \<open>opens\<close> says which files can be opened for appending.\<close>

definition ConsoleSink_create :: "'n yaml_api \<Rightarrow> 'n \<Rightarrow> sink option" where
  "ConsoleSink_create y config =
     (if \<not> y_is_map y config then None
      else
        (case y_get y config ''format'' of
           None \<Rightarrow> None
         | Some n \<Rightarrow>
             if \<not> y_is_scalar y n then None
             else map_option ConsoleSink (FormatIs (y_string y n))))"

text \<open>
  The constructor of a file sink: an empty path stands for a name with the time; a file that
  cannot be opened makes it throw. The new stream gets the next number.
\<close>

definition FileSink_new :: "(string \<Rightarrow> bool) \<Rightarrow> string \<Rightarrow> string \<Rightarrow> string outcome" where
  "FileSink_new opens default_path path =
     (let path' = (if length path = 0 then default_path else path) in
      if \<not> opens path' then Raise (Runtime_error (''Failed to open file `'' @ path' @ ''`''))
      else Ret path')"

definition FileSink_create ::
    "'n yaml_api \<Rightarrow> (string \<Rightarrow> bool) \<Rightarrow> string \<Rightarrow> 'n \<Rightarrow> string list \<Rightarrow> sink option \<times> string list" where
  "FileSink_create y opens default_path config files =
     (if \<not> y_is_map y config then (None, files)
      else
        (case (y_get y config ''format'', y_get y config ''path'') of
           (Some n, Some pn) \<Rightarrow>
             if \<not> y_is_scalar y n then (None, files)
             else if \<not> y_is_scalar y pn then (None, files)
             else
               (case FormatIs (y_string y n) of
                  None \<Rightarrow> (None, files)
                | Some f \<Rightarrow>
                    (case FileSink_new opens default_path (y_string y pn) of
                       Ret path \<Rightarrow> (Some (FileSink f (length files)), files @ [path])
                     | _ \<Rightarrow> (None, files)))
         | _ \<Rightarrow> (None, files)))"

definition CreateSink ::
    "'n yaml_api \<Rightarrow> (string \<Rightarrow> bool) \<Rightarrow> string \<Rightarrow> 'n \<Rightarrow> string list \<Rightarrow> (sink option \<times> string list) outcome" where
  "CreateSink y opens default_path n files =
     (if \<not> y_is_map y n \<or> y_size y n \<noteq> 1 then Ret (None, files)
      else
        (let (sink_name, settings) = y_first y n in
         if \<not> y_is_scalar y sink_name then Ret (None, files)
         else if \<not> y_is_map y settings then Ret (None, files)
         else
           (case y_get y settings ''enabled'' of
              None \<Rightarrow> Ret (None, files)
            | Some en \<Rightarrow>
                if \<not> y_is_scalar y en then Ret (None, files)
                else
                  obind (as_bool y en) (\<lambda>b.
                  if \<not> b then Ret (None, files)
                  else if y_string y sink_name = ''console'' then
                    Ret (ConsoleSink_create y settings, files)
                  else if y_string y sink_name = ''file'' then
                    Ret (FileSink_create y opens default_path settings files)
                  else Ret (None, files)))))"

fun create_sinks ::
    "'n yaml_api \<Rightarrow> (string \<Rightarrow> bool) \<Rightarrow> string \<Rightarrow> 'n list \<Rightarrow> string list \<Rightarrow> (sink list \<times> string list) outcome" where
  "create_sinks y opens default_path [] files = Ret ([], files)"
| "create_sinks y opens default_path (n # ns) files =
     obind (CreateSink y opens default_path n files) (\<lambda>(created_sink, files').
     obind (create_sinks y opens default_path ns files') (\<lambda>(rest, files'').
     Ret (case created_sink of None \<Rightarrow> (rest, files'') | Some s \<Rightarrow> (s # rest, files''))))"

section \<open>LogManager\<close>

record log_manager =
  lm_logger :: "Logger option"
  paused :: bool

definition LogManager_Pause :: "log_manager \<Rightarrow> log_manager" where
  "LogManager_Pause l = l\<lparr>paused := True\<rparr>"

definition LogManager_Remain :: "log_manager \<Rightarrow> log_manager" where
  "LogManager_Remain l = l\<lparr>paused := False\<rparr>"

definition LogManager_Paused :: "log_manager \<Rightarrow> bool" where
  "LogManager_Paused l = paused l"

definition LogManager_ShutDown :: "log_manager \<Rightarrow> log_manager" where
  "LogManager_ShutDown l = l\<lparr>lm_logger := None\<rparr>"

definition LogManager_Get :: "log_manager \<Rightarrow> Logger option" where
  "LogManager_Get l = (if lm_logger l = None \<or> paused l then None else lm_logger l)"

definition LogManager_GetLevel :: "log_manager \<Rightarrow> log" where
  "LogManager_GetLevel l = (case lm_logger l of None \<Rightarrow> log.unknown | Some lg \<Rightarrow> level lg)"

text \<open>
  The configuration and the manager with its pause set or removed. Both may be followed by
  an exception of the library; the manager is then returned with it.
\<close>

text \<open>The files the sinks write to are opened anew at each reading.\<close>

definition parse_sinks ::
    "'n yaml_api \<Rightarrow> (string \<Rightarrow> bool) \<Rightarrow> string \<Rightarrow> 'n \<Rightarrow> Logger option outcome" where
  "parse_sinks y opens default_path lgn =
     (case (y_get y lgn ''level'', y_get y lgn ''sinks'') of
        (Some lv, Some sk) \<Rightarrow>
          if \<not> y_is_scalar y lv then Ret None
          else if \<not> y_is_seq y sk then Ret None
          else
            (let lvl = string_to_log (y_string y lv) in
             if lvl = log.unknown then Ret None
             else obind (create_sinks y opens default_path (y_elems y sk) [])
                    (\<lambda>(ss, _). Ret (Some \<lparr>level = lvl, sinks = ss\<rparr>)))
      | _ \<Rightarrow> Ret None)"

definition ParseLogConfig ::
    "'n yaml_api \<Rightarrow> (string \<Rightarrow> bool) \<Rightarrow> string \<Rightarrow> string \<Rightarrow> log_manager \<Rightarrow>
     Logger option outcome \<times> log_manager" where
  "ParseLogConfig y opens default_path path l =
     (case y_load y path of
        None \<Rightarrow> (Ret None, l)
      | Some config \<Rightarrow>
        if y_is_scalar y config then (Raise (Runtime_error ''bad subscript''), l)
        else
        (case y_get y config ''logging'' of
           None \<Rightarrow> (Ret None, l)
         | Some lgn \<Rightarrow>
             if \<not> y_is_map y lgn then (Ret None, l)
             else
               (case y_get y lgn ''enabled'' of
                  None \<Rightarrow> (parse_sinks y opens default_path lgn, l)
                | Some en \<Rightarrow>
                    if \<not> y_is_scalar y en then (Ret None, l)
                    else
                      (case as_bool y en of
                         Ret False \<Rightarrow> (Ret None, LogManager_Pause l)
                       | Ret True \<Rightarrow> (parse_sinks y opens default_path lgn, LogManager_Remain l)
                       | Raise e \<Rightarrow> (Raise e, l)
                       | _ \<Rightarrow> (Diverge, l)))))"

definition LogManager_Init ::
    "'n yaml_api \<Rightarrow> (string \<Rightarrow> bool) \<Rightarrow> string \<Rightarrow> string \<Rightarrow> log_manager \<Rightarrow> bool outcome \<times> log_manager" where
  "LogManager_Init y opens default_path path l =
     (case ParseLogConfig y opens default_path path l of
        (Ret None, l') \<Rightarrow> (Ret False, l')
      | (Ret (Some lg), l') \<Rightarrow> (Ret True, l'\<lparr>lm_logger := Some lg\<rparr>)
      | (Raise e, l') \<Rightarrow> (Raise e, l')
      | (_, l') \<Rightarrow> (Diverge, l'))"

definition fresh_manager :: log_manager where
  "fresh_manager = \<lparr>lm_logger = None, paused = False\<rparr>"

text \<open>The constructor: an exception of the library leaves it.\<close>

definition LogManager_new ::
    "'n yaml_api \<Rightarrow> (string \<Rightarrow> bool) \<Rightarrow> string \<Rightarrow> string \<Rightarrow> log_manager outcome" where
  "LogManager_new y opens default_path path =
     (case LogManager_Init y opens default_path path fresh_manager of
        (Ret _, l) \<Rightarrow> Ret l
      | (Raise e, _) \<Rightarrow> Raise e
      | (_, _) \<Rightarrow> Diverge)"

section \<open>The watcher\<close>

text \<open>
  The descriptors of the file and the queue; \<open>joinable\<close>: the member \<open>worker_\<close> holds a thread
  that was not joined.
\<close>

record watcher =
  w_fd :: int
  w_kq :: int
  started :: bool
  joinable :: bool

text \<open>
  The constructor from what the system answers: whether the file exists, the descriptors of
  \<open>open\<close> and \<open>kqueue\<close>, the result of \<open>kevent\<close>. It returns the descriptors it closed.
\<close>

definition Watcher_new :: "string \<Rightarrow> bool \<Rightarrow> int \<Rightarrow> int \<Rightarrow> int \<Rightarrow> watcher outcome \<times> int list" where
  "Watcher_new path exists_path fd kq ret =
     (if \<not> exists_path then (Raise (Runtime_error (''File not found: '' @ path)), [])
      else if fd = - 1 then (Raise (Runtime_error (''Unable to open file for watching: '' @ path)), [])
      else if kq = - 1 then (Raise (Runtime_error ''kqueue failed to return a descriptor''), [fd])
      else if ret = - 1 then (Raise (Runtime_error ''kevent registration error''), [kq, fd])
      else (Ret \<lparr>w_fd = fd, w_kq = kq, started = False, joinable = False\<rparr>, []))"

text \<open>
  The constructor of \<open>std::thread\<close> throws when there is no thread to be had (\<open>thread_made\<close>);
  \<open>started_\<close> is set by then. Assigning a thread to a member that is joinable ends the process.
\<close>

definition Watcher_Start :: "bool \<Rightarrow> watcher \<Rightarrow> unit outcome \<times> watcher" where
  "Watcher_Start thread_made c =
     (let c' = c\<lparr>started := True\<rparr> in
      if \<not> thread_made then (Raise System_error, c')
      else if joinable c' then (Terminate, c')
      else (Ret (), c'\<lparr>joinable := True\<rparr>))"

definition Watcher_Stop :: "watcher \<Rightarrow> watcher" where
  "Watcher_Stop c =
     (if \<not> started c then c\<lparr>started := False\<rparr>
      else c\<lparr>started := False, joinable := False\<rparr>)"

text \<open>
  The destructor stops first, then closes its descriptors, which it returns; destroying a
  joinable thread ends the process.
\<close>

definition Watcher_destroy :: "watcher \<Rightarrow> int list outcome" where
  "Watcher_destroy c =
     (let c' = Watcher_Stop c;
          closed = (if w_fd c' \<noteq> - 1 then [w_fd c'] else []) @ (if w_kq c' \<noteq> - 1 then [w_kq c'] else []) in
      if joinable c' then Terminate else Ret closed)"

section \<open>LogSystem\<close>

record log_system =
  lm :: "log_manager option"
  cw :: "watcher option"

definition no_system :: log_system where
  "no_system = \<lparr>lm = None, cw = None\<rparr>"

text \<open>
  A call gives its result and the system it leaves, also when it throws. The part \<open>Init\<close> and
  \<open>Start(path)\<close> share: both objects are made, an exception of the second leaves the new manager
  in place; the old watcher is destroyed when it is replaced. Both catch the exceptions of the
  constructors, but not that of a thread.
\<close>

definition make_parts ::
    "log_manager outcome \<Rightarrow> watcher outcome \<Rightarrow> log_system \<Rightarrow> bool outcome \<times> log_system" where
  "make_parts new_lm new_cw s =
     (case new_lm of
        Raise e \<Rightarrow> (Ret False, s)
      | Ret l \<Rightarrow>
          (case new_cw of
             Raise e \<Rightarrow> (Ret False, s\<lparr>lm := Some l\<rparr>)
           | Ret c \<Rightarrow>
               (obind (case cw s of None \<Rightarrow> Ret [] | Some old \<Rightarrow> Watcher_destroy old) (\<lambda>_. Ret True),
                s\<lparr>lm := Some l, cw := Some c\<rparr>)
           | Terminate \<Rightarrow> (Terminate, s)
           | Diverge \<Rightarrow> (Diverge, s))
      | Terminate \<Rightarrow> (Terminate, s)
      | Diverge \<Rightarrow> (Diverge, s))"

definition LogSystem_Init ::
    "log_manager outcome \<Rightarrow> watcher outcome \<Rightarrow> log_system \<Rightarrow> bool outcome \<times> log_system" where
  "LogSystem_Init new_lm new_cw s =
     (case make_parts new_lm new_cw s of
        (Ret True, s') \<Rightarrow> (Ret True, s'\<lparr>lm := map_option LogManager_Pause (lm s')\<rparr>)
      | (r, s') \<Rightarrow> (r, s'))"

definition LogSystem_Start :: "bool \<Rightarrow> log_system \<Rightarrow> bool outcome \<times> log_system" where
  "LogSystem_Start thread_made s =
     (case (lm s, cw s) of
        (Some l, Some c) \<Rightarrow>
          (case Watcher_Start thread_made c of
             (Ret _, c') \<Rightarrow>
               (Ret True, s\<lparr>lm := Some (if paused l then LogManager_Remain l else l), cw := Some c'\<rparr>)
           | (r, c') \<Rightarrow> (obind r (\<lambda>_. Ret True), s\<lparr>cw := Some c'\<rparr>))
      | _ \<Rightarrow> (Ret False, s))"

definition LogSystem_Start_path ::
    "log_manager outcome \<Rightarrow> watcher outcome \<Rightarrow> bool \<Rightarrow> log_system \<Rightarrow> bool outcome \<times> log_system" where
  "LogSystem_Start_path new_lm new_cw thread_made s =
     (case make_parts new_lm new_cw s of
        (Ret True, s') \<Rightarrow>
          (case cw s' of
             None \<Rightarrow> (Ret True, s')
           | Some c \<Rightarrow>
               (case Watcher_Start thread_made c of
                  (r, c') \<Rightarrow> (obind r (\<lambda>_. Ret True), s'\<lparr>cw := Some c'\<rparr>)))
      | (r, s') \<Rightarrow> (r, s'))"

definition LogSystem_Stop :: "log_system \<Rightarrow> log_system" where
  "LogSystem_Stop s =
     (case (lm s, cw s) of
        (Some l, Some c) \<Rightarrow> s\<lparr>lm := Some (LogManager_Pause l), cw := Some (Watcher_Stop c)\<rparr>
      | _ \<Rightarrow> s)"

definition LogSystem_Get :: "log_system \<Rightarrow> Logger option" where
  "LogSystem_Get s = (case lm s of None \<Rightarrow> None | Some l \<Rightarrow> LogManager_Get l)"

definition LogSystem_GetLevel :: "log_system \<Rightarrow> log" where
  "LogSystem_GetLevel s = (case lm s of None \<Rightarrow> log.unknown | Some l \<Rightarrow> LogManager_GetLevel l)"

definition ShouldLog :: "log_system \<Rightarrow> log \<Rightarrow> bool" where
  "ShouldLog s lvl =
     (let set_level = LogSystem_GetLevel s in
      \<not> (log_num set_level = 0 \<or> set_level > lvl))"

text \<open>The macro \<open>LOG\<close> with the arguments streamed behind it.\<close>

definition LOG ::
    "log_api \<Rightarrow> (string \<Rightarrow> string list \<Rightarrow> string option) \<Rightarrow> log_system \<Rightarrow> subject \<Rightarrow>
     location \<Rightarrow> string \<Rightarrow> (string \<times> string) list \<Rightarrow> string list \<Rightarrow> outputs \<Rightarrow> outputs outcome" where
  "LOG lapi vformat s subj loc msg details args o1 =
     (if ShouldLog s (subject_log subj) then
        (case LogSystem_Get s of
           None \<Rightarrow> Ret o1
         | Some lg \<Rightarrow> LogStream_destroy lapi vformat lg (LogStream_new subj loc msg details) args o1)
      else Ret o1)"

text \<open>
  The watcher's callback on the path its descriptor has, while there is a thread; the watcher's
  thread swallows an exception of it.
\<close>

definition reload ::
    "'n yaml_api \<Rightarrow> (string \<Rightarrow> bool) \<Rightarrow> string \<Rightarrow> string \<Rightarrow> log_system \<Rightarrow> log_system" where
  "reload y opens default_path path s =
     (case (lm s, cw s) of
        (Some l, Some c) \<Rightarrow>
          if joinable c then s\<lparr>lm := Some (snd (LogManager_Init y opens default_path path l))\<rparr> else s
      | _ \<Rightarrow> s)"

section \<open>The life of the watcher\<close>

text \<open>
  The calls a program can make, with what the constructors return (a new manager and a new
  watcher, or an exception) and whether a thread can be made.
\<close>

datatype 'n log_op =
    Op_init "log_manager outcome" "watcher outcome"
  | Op_start bool
  | Op_start_path "log_manager outcome" "watcher outcome" bool
  | Op_stop
  | Op_reload "'n yaml_api" "string \<Rightarrow> bool" string string

fun run_op :: "'n log_op \<Rightarrow> log_system \<Rightarrow> bool outcome \<times> log_system" where
  "run_op (Op_init l c) s = LogSystem_Init l c s"
| "run_op (Op_start b) s = LogSystem_Start b s"
| "run_op (Op_start_path l c b) s = LogSystem_Start_path l c b s"
| "run_op Op_stop s = (Ret True, LogSystem_Stop s)"
| "run_op (Op_reload y opens d path) s = (Ret True, reload y opens d path s)"

text \<open>The constructors return objects they can make.\<close>

definition settles :: "'a outcome \<Rightarrow> bool" where
  "settles r \<longleftrightarrow> r \<noteq> Terminate \<and> r \<noteq> Diverge"

definition made_lm :: "log_manager outcome \<Rightarrow> bool" where
  "made_lm r \<longleftrightarrow> settles r"

definition made_cw :: "watcher outcome \<Rightarrow> bool" where
  "made_cw r \<longleftrightarrow> (\<exists>path ex fd kq ret. r = fst (Watcher_new path ex fd kq ret))"

fun op_ok :: "'n log_op \<Rightarrow> bool" where
  "op_ok (Op_init l c) \<longleftrightarrow> made_lm l \<and> made_cw c"
| "op_ok (Op_start_path l c b) \<longleftrightarrow> made_lm l \<and> made_cw c"
| "op_ok _ \<longleftrightarrow> True"

lemma made_cwE:
  assumes "made_cw r"
  obtains (raised) e where "r = Raise e"
    | (made) fd kq where "r = Ret \<lparr>w_fd = fd, w_kq = kq, started = False, joinable = False\<rparr>"
  using assms by (auto simp: made_cw_def Watcher_new_def split: if_splits)

lemma settles_simps [simp]: "settles (Ret x)" "settles (Raise e)"
  "\<not> settles Terminate" "\<not> settles Diverge"
  by (simp_all add: settles_def)

lemma settles_obind [intro]: "settles m \<Longrightarrow> (\<And>x. settles (f x)) \<Longrightarrow> settles (obind m f)"
  by (cases m) auto

text \<open>Reading a configuration always comes to an end, with a value or an exception.\<close>

lemma settles_as_bool [intro]: "settles (as_bool y n)"
  by (simp add: as_bool_def split: option.split)

lemma settles_CreateSink [intro]: "settles (CreateSink y opens d n files)"
  by (auto simp: CreateSink_def split: option.split prod.split)

lemma settles_create_sinks [intro]: "settles (create_sinks y opens d ns files)"
  by (induction ns arbitrary: files)
     (auto split: prod.split intro!: settles_obind settles_CreateSink)

lemma settles_parse_sinks: "settles (parse_sinks y opens d n)"
  by (auto simp: parse_sinks_def Let_def split: option.split)

lemma settles_ParseLogConfig: "settles (fst (ParseLogConfig y opens d path l))"
  by (simp add: ParseLogConfig_def as_bool_def settles_parse_sinks split: option.split bool.split)

lemma made_lm_new: "made_lm (LogManager_new y opens d path)"
  using settles_ParseLogConfig [of y opens d path fresh_manager]
  by (auto simp: made_lm_def LogManager_new_def LogManager_Init_def
      split: prod.split outcome.splits option.split)

text \<open>A thread is held only while the watcher is started, and the watcher has a manager.\<close>

definition watch_ok :: "log_system \<Rightarrow> bool" where
  "watch_ok s \<longleftrightarrow> (case cw s of None \<Rightarrow> True | Some c \<Rightarrow> (joinable c \<longrightarrow> started c) \<and> lm s \<noteq> None)"

definition watching :: "log_system \<Rightarrow> bool" where
  "watching s \<longleftrightarrow> (case cw s of None \<Rightarrow> False | Some c \<Rightarrow> joinable c)"

text \<open>A call that has to make a thread and cannot.\<close>

fun lacks_thread :: "'n log_op \<Rightarrow> log_system \<Rightarrow> bool" where
  "lacks_thread (Op_start b) s \<longleftrightarrow> \<not> b \<and> lm s \<noteq> None \<and> cw s \<noteq> None"
| "lacks_thread (Op_start_path l c b) s \<longleftrightarrow> \<not> b \<and> (\<exists>m. l = Ret m) \<and> (\<exists>w. c = Ret w)"
| "lacks_thread _ s \<longleftrightarrow> False"

lemma Watcher_stop_simp:
  "joinable (Watcher_Stop c) \<longleftrightarrow> \<not> started c \<and> joinable c" "\<not> started (Watcher_Stop c)"
  by (simp_all add: Watcher_Stop_def)

lemma make_parts_ok:
  assumes "made_lm l" "made_cw c" "watch_ok s" "make_parts l c s = (r, s')"
  obtains (refused) "r = Ret False" "watch_ok s'" "\<not> ((\<exists>m. l = Ret m) \<and> (\<exists>w. c = Ret w))"
    | (made) m w where "r = Ret True" "l = Ret m" "c = Ret w" "s' = s\<lparr>lm := Some m, cw := Some w\<rparr>"
      "\<not> joinable w" "\<not> started w"
proof -
  have "\<exists>closed. Watcher_destroy old = Ret closed" if "cw s = Some old" for old
    using assms(3) that by (auto simp: watch_ok_def Watcher_destroy_def Watcher_stop_simp Let_def)
  then have old: "obind (case cw s of None \<Rightarrow> Ret [] | Some old \<Rightarrow> Watcher_destroy old) (\<lambda>_. Ret True) = Ret True"
    by (cases "cw s") auto
  show thesis
  proof (cases "\<exists>m w. l = Ret m \<and> c = Ret w")
    case True
    then obtain m w where mw: "l = Ret m" "c = Ret w" by blast
    then have "\<not> joinable w" "\<not> started w" using assms(2) by (auto elim!: made_cwE)
    with mw assms(4) show thesis by (intro made [of m w]) (auto simp: make_parts_def old)
  next
    case False
    then have "r = Ret False \<and> watch_ok s'"
      using assms by (cases l) (auto simp: made_lm_def make_parts_def watch_ok_def elim!: made_cwE split: option.splits)
    with False show thesis by (intro refused) auto
  qed
qed

text \<open>What a call does to a system in good order.\<close>

lemma run_op_ok:
  assumes "op_ok op" "watch_ok s" "run_op op s = (r, s')"
  shows "watch_ok s'"
    "r = (if op = Op_start True \<and> watching s then Terminate
      else if lacks_thread op s then Raise System_error else Ret (r = Ret True))"
proof -
  have "watch_ok s' \<and> r = (if op = Op_start True \<and> watching s then Terminate
      else if lacks_thread op s then Raise System_error else Ret (r = Ret True))"
  proof (cases op)
    case (Op_init l c)
    obtain r1 s1 where parts: "make_parts l c s = (r1, s1)" by fastforce
    have "made_lm l" "made_cw c" using Op_init assms(1) by simp_all
    from this assms(2) parts show ?thesis
      by (cases rule: make_parts_ok)
         (use Op_init assms(3) parts in \<open>auto simp: LogSystem_Init_def watch_ok_def\<close>)
  next
    case (Op_start b)
    then show ?thesis
      using assms(2,3)
      by (auto simp: LogSystem_Start_def watch_ok_def watching_def Watcher_Start_def Let_def split: option.splits if_splits)
  next
    case (Op_start_path l c b)
    obtain r1 s1 where parts: "make_parts l c s = (r1, s1)" by fastforce
    have "made_lm l" "made_cw c" using Op_start_path assms(1) by simp_all
    from this assms(2) parts show ?thesis
      by (cases rule: make_parts_ok)
         (use Op_start_path assms(3) parts in
           \<open>auto simp: LogSystem_Start_path_def watch_ok_def Watcher_Start_def Let_def split: if_splits\<close>)
  next
    case Op_stop
    then show ?thesis
      using assms(2,3)
      by (auto simp: LogSystem_Stop_def watch_ok_def Watcher_stop_simp split: option.splits)
  next
    case (Op_reload y opens d path)
    then show ?thesis
      using assms(2,3) by (auto simp: reload_def watch_ok_def split: option.splits if_splits)
  qed
  then show "watch_ok s'" "r = (if op = Op_start True \<and> watching s then Terminate
      else if lacks_thread op s then Raise System_error else Ret (r = Ret True))" by blast+
qed

text \<open>A call that throws leaves a system on which the next can be made.\<close>

inductive sys_step :: "log_system \<Rightarrow> log_system \<Rightarrow> bool" where
  call: "op_ok (op :: nat log_op) \<Longrightarrow> run_op op s = (r, s') \<Longrightarrow> r \<noteq> Terminate \<Longrightarrow> r \<noteq> Diverge \<Longrightarrow> sys_step s s'"

interpretation log_machine: guarded_machine "\<lambda>s. s = no_system" sys_step watch_ok
proof unfold_locales
  show "sys_step s s' \<Longrightarrow> watch_ok s \<Longrightarrow> watch_ok s'" for s s'
    by (induction rule: sys_step.induct) (use run_op_ok(1) in fastforce)
qed (simp add: watch_ok_def no_system_def)

section \<open>Properties\<close>

text \<open>
  C28. The watcher's thread: from the start of the program on, after any sequence of calls on
  the log system, failed ones included, a call ends the process exactly when it is \<open>Start()\<close>
  on a watcher that still holds a thread and a new thread can be made (the assignment to a
  joinable thread). It throws exactly when it has to make a thread and there is none to be
  had, and then \<open>std::system_error\<close>; every other call returns.
\<close>
theorem log_system_terminates_iff:
  fixes op :: "nat log_op"
  assumes "sys_step\<^sup>*\<^sup>* no_system s" and "op_ok op"
  shows "(fst (run_op op s) = Terminate \<longleftrightarrow> op = Op_start True \<and> watching s) \<and>
    (\<forall>e. fst (run_op op s) = Raise e \<longleftrightarrow> lacks_thread op s \<and> e = System_error) \<and>
    fst (run_op op s) \<noteq> Diverge"
proof -
  have ok: "watch_ok s" using assms(1) log_machine.reachable_inv by blast
  obtain r s' where run: "run_op op s = (r, s')" by fastforce
  have "\<not> (op = Op_start True \<and> lacks_thread op s)" by auto
  with run_op_ok(2) [OF assms(2) ok run] show ?thesis
    unfolding run fst_conv by (cases "op = Op_start True \<and> watching s"; cases "lacks_thread op s") auto
qed

text \<open>A system that is started with a path, and then started again.\<close>

definition sample_watcher :: "watcher outcome" where
  "sample_watcher = fst (Watcher_new ''log.yaml'' True 3 4 0)"

theorem log_system_terminates_iff_witness:
  "\<exists>s1 s2. run_op (Op_start_path (Ret fresh_manager) sample_watcher False :: nat log_op) no_system = (Raise System_error, s1) \<and>
     run_op (Op_start True :: nat log_op) s1 = (Ret True, s2) \<and>
     fst (run_op (Op_start True :: nat log_op) s2) = Terminate \<and>
     fst (run_op (Op_start False :: nat log_op) s2) = Raise System_error"
proof -
  let ?op = "Op_start_path (Ret fresh_manager) sample_watcher False :: nat log_op"
  let ?again = "Op_start True :: nat log_op"
  have "made_cw sample_watcher" unfolding made_cw_def sample_watcher_def by blast
  then have op: "op_ok ?op" by (simp add: made_lm_def)
  define s1 where "s1 = \<lparr>lm = Some fresh_manager, cw = Some \<lparr>w_fd = 3, w_kq = 4, started = True, joinable = False\<rparr>\<rparr>"
  define s2 where "s2 = s1\<lparr>cw := Some \<lparr>w_fd = 3, w_kq = 4, started = True, joinable = True\<rparr>\<rparr>"
  have s1: "run_op ?op no_system = (Raise System_error, s1)"
    by (simp add: s1_def LogSystem_Start_path_def make_parts_def no_system_def sample_watcher_def
        Watcher_new_def Watcher_Start_def)
  have s2: "run_op ?again s1 = (Ret True, s2)" "watching s2" "lm s2 \<noteq> None" "cw s2 \<noteq> None"
    by (simp_all add: LogSystem_Start_def s1_def s2_def fresh_manager_def Watcher_Start_def watching_def)
  have "sys_step no_system s1" "sys_step s1 s2"
    using sys_step.call [OF op s1] sys_step.call [of ?again s1, OF _ s2(1)] by simp_all
  then have "sys_step\<^sup>*\<^sup>* no_system s2" by (meson rtranclp.rtrancl_into_rtrancl rtranclp.rtrancl_refl)
  note ends = log_system_terminates_iff [OF this]
  from ends [of ?again] ends [of "Op_start False"] s1 s2 show ?thesis by auto
qed

text \<open>
  C29. Reading the configuration, at the start or when the file changes, is all or nothing: it
  returns \<open>true\<close> with a new logger of a known level, or it leaves the logger that was
  there, whether the file cannot be read, does not have the shape, names an unknown level,
  disables logging or makes the library throw.
\<close>
theorem reading_configuration_is_atomic:
  "case LogManager_Init y opens d path l of (r, l') \<Rightarrow>
     (r = Ret True \<and> (\<exists>lg. lm_logger l' = Some lg \<and> level lg \<noteq> log.unknown)) \<or>
     (r \<noteq> Ret True \<and> lm_logger l' = lm_logger l)"
proof -
  have known: "level lg \<noteq> log.unknown" if "parse_sinks y opens d n = Ret (Some lg)" for n lg
    using that by (auto simp: parse_sinks_def Let_def outcome_simps split: option.splits if_splits)
  have "lm_logger l' = lm_logger l \<and> (r = Ret (Some lg) \<longrightarrow> level lg \<noteq> log.unknown)"
    if "ParseLogConfig y opens d path l = (r, l')" for r l' lg
    using that known
    by (auto simp: ParseLogConfig_def as_bool_def LogManager_Pause_def LogManager_Remain_def
        split: option.splits bool.splits if_splits)
  then show ?thesis
    by (cases "ParseLogConfig y opens d path l")
       (auto simp: LogManager_Init_def split: outcome.split option.split)
qed

text \<open>
  What a log macro does: when the system has a logger and is not paused, and the level of
  the record is not below the logger's, the record with the caller's details and then the
  fields of the result code or status goes to every sink of the logger in order; otherwise
  nothing is written.
\<close>
theorem log_macro_delivers:
  "LOG lapi vformat s subj loc msg details [] o1 =
     (case LogSystem_Get s of
        None \<Rightarrow> Ret o1
      | Some lg \<Rightarrow>
          if level lg \<noteq> log.unknown \<and> level lg \<le> subject_log subj
          then noexcept (log_all lapi
            \<lparr>li_status = subject_log subj, li_info = msg, li_file = loc_file loc,
             li_line = loc_line loc, li_column = loc_column loc,
             li_details = details @ subject_fields subj, li_timepoint = loc_time loc\<rparr> (sinks lg) o1)
          else Ret o1)"
  by (auto simp: LOG_def ShouldLog_def LogSystem_GetLevel_def LogSystem_Get_def LogManager_Get_def
      LogManager_GetLevel_def log_least not_less LogStream_destroy_def LogStream_new_def Logger_log_def Let_def
      split: option.split)

end
