(* ===== verification/LoggedCodec.thy ===== *)
theory LoggedCodec
  imports Pipeline LogSystem
begin

text \<open>
  \<open>HttpCodec::parse\<close>, \<open>HttpCodec::process\<close> and \<open>RouterManager::Route\<close> with their log
  statements. The other theories leave logging out; here it is shown when that is right
  (every log statement returns) and what happens when it is not. \<open>lg\<close> stands for a log
  statement, on a state of outputs; \<open>LOG_at\<close> is the macro on the log system, \<open>at\<close> the
  place and time of each statement.
\<close>

type_synonym 'o logf = "subject \<Rightarrow> string \<Rightarrow> (string \<times> string) list \<Rightarrow> 'o \<Rightarrow> 'o outcome"

definition LOG_at ::
    "log_api \<Rightarrow> (string \<Rightarrow> string list \<Rightarrow> string option) \<Rightarrow> log_system \<Rightarrow>
     (string \<Rightarrow> location) \<Rightarrow> outputs logf" where
  "LOG_at lapi vformat s at subj msg details o1 = LOG lapi vformat s subj (at msg) msg details [] o1"

section \<open>The codec with its log statements\<close>

definition target_fields :: "Method \<Rightarrow> string \<Rightarrow> (string \<times> string) list" where
  "target_fields mtd path = [(''method'', method_string mtd), (''path'', path)]"

text \<open>\<open>what\<close> is the message of the exception the JSON library throws for a body.\<close>

definition parse_logged ::
    "'o logf \<Rightarrow> json_parser \<Rightarrow> (string \<Rightarrow> string) \<Rightarrow> string \<Rightarrow> world \<Rightarrow> 'o \<Rightarrow>
     (Request option \<times> world \<times> 'o) outcome" where
  "parse_logged lg jparse what raw_req w o0 =
     obind (lg (On_level trace) ''Parsing incoming request'' [(''raw_size'', dec (length raw_req))] o0) (\<lambda>o1.
     let end_targets = int32 (sv_find raw_req crlf 0);
         end_headers = int32 (sv_find raw_req (crlf @ crlf) 0) in
     if sizet end_targets = npos then
       obind (lg (On_level warning) ''The request is not in the correct format'' [] o1)
         (\<lambda>o2. Ret (None, w, o2))
     else
     obind (sv_substr raw_req 0 (sizet end_targets)) (\<lambda>targets.
     obind (parse_target targets) (\<lambda>target.
     case target of
       None \<Rightarrow>
         obind (lg (On_level warning) ''Incorrectly specified method <UNKNOWN>'' [(''raw_target'', targets)] o1)
           (\<lambda>o2. Ret (None, w, o2))
     | Some (mtd, path, version) \<Rightarrow>
     obind (lg (On_level trace) ''Target line parsed'' (target_fields mtd path) o1) (\<lambda>o2.
     obind (sv_substr raw_req (sizet (end_targets + 2)) (sizet end_headers)) (\<lambda>headers.
     obind (parse_headers headers) (\<lambda>fields.
     case fields of
       None \<Rightarrow>
         obind (lg (On_level warning) ''The header field is missing from the request'' [] o2)
           (\<lambda>o3. Ret (None, w, o3))
     | Some hs \<Rightarrow>
     if um_count CaseInsensitiveEqual ''Host'' hs = 0 then
       obind (lg (On_level warning) ''Host is not specified in header'' [] o2) (\<lambda>o3. Ret (None, w, o3))
     else
     obind (lg (On_level trace) ''Headers parsed'' [(''header_count'', dec (length hs))] o2) (\<lambda>o3.
     obind (parse_body jparse raw_req end_headers) (\<lambda>body.
     case body of
       None \<Rightarrow>
         obind (lg (On_level warning) ''Failed to parse JSON body'' [(''error'', what raw_req)] o3)
           (\<lambda>o4. Ret (None, w, o4))
     | Some j \<Rightarrow>
     (let (rid, w') = fresh_uuid w in
      obind (lg (On_level debug) ''Request successfully parsed'' [(''request_id'', rid)] o3) (\<lambda>o4.
      Ret (Some \<lparr>req_id = rid, req_method = mtd, req_path = path, req_version = version,
                 req_headers = hs, req_body = j\<rparr>, w', o4)))))))))))"

definition Route_logged ::
    "'o logf \<Rightarrow> manager \<Rightarrow> Request \<Rightarrow> world \<Rightarrow> 'o \<Rightarrow> (Response option \<times> world \<times> 'o) outcome" where
  "Route_logged lg m req w o0 =
     noexcept (case m of
        None \<Rightarrow>
          obind (lg (On_level error) ''Router not initialized, request dropped'' [] o0)
            (\<lambda>o1. Ret (None, w, o1))
      | Some t \<Rightarrow>
          obind (lg (On_level trace) ''Routing request'' [] o0) (\<lambda>o1.
          obind (Router_route t req w) (\<lambda>(response, w').
          case response of
            None \<Rightarrow>
              obind (lg (On_level debug) ''No matching route found'' [] o1) (\<lambda>o2.
              (let (resp, w'') = makeResp NotFound (req_id req) (JObject []) w' in
               Ret (Some resp, w'', o2)))
          | Some resp \<Rightarrow> Ret (Some resp, w', o1))))"

definition serialize_logged :: "'o logf \<Rightarrow> json_dumper \<Rightarrow> Response \<Rightarrow> 'o \<Rightarrow> (string \<times> 'o) outcome" where
  "serialize_logged lg jdump resp o0 =
     noexcept (obind (lg (On_level trace) ''Serializing response''
         [(''status'', dec (http_code (resp_status resp)))] o0) (\<lambda>o1.
       obind (serialize jdump resp) (\<lambda>out. Ret (out, o1))))"

text \<open>\<open>process\<close>, in two parts: what follows \<open>parse_w\<close>, and the whole.\<close>

definition answer_logged ::
    "'o logf \<Rightarrow> json_dumper \<Rightarrow> manager \<Rightarrow> HttpCodec \<Rightarrow> Request option \<Rightarrow> world \<Rightarrow> 'o \<Rightarrow>
     (string \<times> HttpCodec \<times> world \<times> 'o) outcome" where
  "answer_logged lg jdump mgr c req w1 o1 =
     (let c' = (case req of None \<Rightarrow> c | Some r \<Rightarrow> c\<lparr>codec_req := r\<rparr>);
          fields = target_fields (req_method (codec_req c')) (req_path (codec_req c')) in
      obind
        (case req of
           None \<Rightarrow>
             obind (lg (On_level debug) ''Request parsing failed, returning error response'' [] o1) (\<lambda>o2.
             (let (resp, w2) = makeResp_fresh InvalidJsonOrParams (JObject []) w1 in Ret (resp, w2, o2)))
         | Some r \<Rightarrow>
             obind (Route_logged lg mgr r w1 o1) (\<lambda>(resp, w2, o2).
             case resp of
               None \<Rightarrow>
                 obind (lg (On_level critical) ''Router not initialized'' fields o2) (\<lambda>o3.
                 (let (x, w3) = makeResp_fresh InternalError (JObject []) w2 in Ret (x, w3, o3)))
             | Some x \<Rightarrow> Ret (x, w2, o2)))
        (\<lambda>(resp, w3, o3).
      obind (lg (On_status (resp_status resp)) [] fields o3) (\<lambda>o4.
      obind (serialize_logged lg jdump resp o4) (\<lambda>(out, o5). Ret (out, c', w3, o5)))))"

definition process_logged ::
    "'o logf \<Rightarrow> json_parser \<Rightarrow> json_dumper \<Rightarrow> (string \<Rightarrow> string) \<Rightarrow> manager \<Rightarrow> HttpCodec \<Rightarrow> string \<Rightarrow>
     world \<Rightarrow> 'o \<Rightarrow> (string \<times> HttpCodec \<times> world \<times> 'o) outcome" where
  "process_logged lg jparse jdump what mgr c raw_req w o0 =
     obind (parse_logged lg jparse what raw_req w o0)
       (\<lambda>(req, w1, o1). answer_logged lg jdump mgr c req w1 o1)"

lemma obind_cong: "(\<And>x. f x = g x) \<Longrightarrow> obind m f = obind m g"
  by (cases m) auto

lemma noexcept_obind: "noexcept (obind m (\<lambda>x. Ret (f x))) = obind (noexcept m) (\<lambda>x. Ret (f x))"
  by (cases m) auto

text \<open>What \<open>process\<close> does behind the parser.\<close>

text \<open>The second part without log statements.\<close>

definition answer_plain ::
    "json_dumper \<Rightarrow> manager \<Rightarrow> HttpCodec \<Rightarrow> Request option \<Rightarrow> world \<Rightarrow> (string \<times> HttpCodec \<times> world) outcome" where
  "answer_plain jdump mgr c req w1 =
     (let c' = (case req of None \<Rightarrow> c | Some r \<Rightarrow> c\<lparr>codec_req := r\<rparr>) in
      obind
        (case req of
           None \<Rightarrow> Ret (makeResp_fresh InvalidJsonOrParams (JObject []) w1)
         | Some r \<Rightarrow> obind (RouterManager_Route mgr r w1) (\<lambda>(resp, w2).
             case resp of
               None \<Rightarrow> Ret (makeResp_fresh InternalError (JObject []) w2)
             | Some x \<Rightarrow> Ret (x, w2)))
        (\<lambda>(resp, w3). obind (serialize jdump resp) (\<lambda>out. Ret (out, c', w3))))"

lemma process_plain:
  "process jparse jdump mgr c raw w = obind (parse jparse raw w) (\<lambda>(req, w1). answer_plain jdump mgr c req w1)"
  unfolding process_def parse_w_def answer_plain_def Let_def
  by (auto simp: obind_assoc split_beta intro!: obind_cong split: option.split)

section \<open>When log statements return\<close>

locale returning_log =
  fixes lg :: "'o logf" and after :: "subject \<Rightarrow> string \<Rightarrow> (string \<times> string) list \<Rightarrow> 'o \<Rightarrow> 'o"
  assumes returns: "lg subj msg d o1 = Ret (after subj msg d o1)"
begin

lemma parse_transparent:
  "obind (parse_logged lg jparse what raw w o0) (\<lambda>(req, w', _). Ret (req, w')) = parse jparse raw w"
  unfolding parse_logged_def parse_def Let_def returns
  by (auto simp: obind_assoc returns split_beta intro!: obind_cong split: option.split)

lemma Route_transparent:
  "obind (Route_logged lg m req w o0) (\<lambda>(resp, w', _). Ret (resp, w')) = RouterManager_Route m req w"
proof (cases m)
  case (Some t)
  then show ?thesis
    by (cases "Router_route t req w")
       (auto simp: Route_logged_def RouterManager_Route_def returns split_beta split: option.split)
qed (simp add: Route_logged_def RouterManager_Route_def returns)

lemma serialize_eq:
  "serialize_logged lg jdump resp o0 =
   obind (serialize jdump resp)
     (\<lambda>out. Ret (out, after (On_level trace) ''Serializing response''
        [(''status'', dec (http_code (resp_status resp)))] o0))"
  by (auto simp: serialize_logged_def returns serialize_def split: option.split)

lemma answer_transparent:
  "obind (answer_logged lg jdump mgr c req w1 o1) (\<lambda>(out, c', w', _). Ret (out, c', w')) =
   answer_plain jdump mgr c req w1"
proof (cases req)
  case None
  then show ?thesis
    by (simp add: answer_logged_def answer_plain_def returns obind_assoc split_beta serialize_eq Let_def)
next
  case (Some r)
  show ?thesis
    unfolding answer_logged_def answer_plain_def Some option.case Let_def
      Route_transparent [of mgr r w1 o1, symmetric]
    by (auto simp: returns obind_assoc split_beta serialize_eq intro!: obind_cong split: option.split)
qed

lemma process_transparent:
  "obind (process_logged lg jparse jdump what mgr c raw w o0) (\<lambda>(out, c', w', _). Ret (out, c', w')) =
   process jparse jdump mgr c raw w"
  unfolding process_plain parse_transparent [of jparse what raw w o0, symmetric] process_logged_def
  by (auto simp: obind_assoc answer_transparent intro!: obind_cong)

end

section \<open>The macro as the log statement\<close>

fun sink_format :: "sink \<Rightarrow> format" where
  "sink_format (ConsoleSink f) = f"
| "sink_format (FileSink f n) = f"

text \<open>
  The format of the sink can print the record: only the JSON format can fail. The sink can
  write it: what goes to the standard output is taken there, whatever was printed before.
\<close>

definition formats :: "log_api \<Rightarrow> LogInfo \<Rightarrow> sink \<Rightarrow> bool" where
  "formats lapi i k \<longleftrightarrow> sink_format k = Format_console \<or> dump_line lapi (log_json i) \<noteq> None"

definition printable_by :: "log_api \<Rightarrow> LogInfo \<Rightarrow> sink \<Rightarrow> bool" where
  "printable_by lapi i k \<longleftrightarrow> formats lapi i k \<and>
     (case k of
        ConsoleSink f \<Rightarrow> \<forall>t. apply_format (dump_line lapi) f i = Ret t \<longrightarrow> (\<forall>out. stdout_takes lapi out (t @ [CHR 0x0A]))
      | FileSink f n \<Rightarrow> True)"

lemma formats_iff:
  "formats lapi i k \<longleftrightarrow> (\<exists>t. apply_format (dump_line lapi) (sink_format k) i = Ret t)"
  "\<not> formats lapi i k \<longleftrightarrow> apply_format (dump_line lapi) (sink_format k) i = Terminate"
  by (cases "sink_format k"; auto simp: formats_def JsonFormat_def split: option.split)+

lemma sink_log_cases:
  "sink_log lapi i k o1 = Terminate \<or> (\<exists>o2. sink_log lapi i k o1 = Ret o2)"
proof (cases "formats lapi i k")
  case True
  then obtain t where "apply_format (dump_line lapi) (sink_format k) i = Ret t" by (auto simp: formats_iff)
  then show ?thesis
    by (cases k) (auto simp: ConsoleSink_log_def print_line_def FileSink_log_def split_beta Let_def)
next
  case False
  then show ?thesis
    by (cases k) (auto simp: formats_iff(2) ConsoleSink_log_def FileSink_log_def)
qed

lemma sink_log_end:
  "printable_by lapi i k \<Longrightarrow> \<exists>o2. sink_log lapi i k o1 = Ret o2"
  "\<not> formats lapi i k \<Longrightarrow> sink_log lapi i k o1 = Terminate"
proof -
  show "sink_log lapi i k o1 = Terminate" if "\<not> formats lapi i k"
    using that by (cases k) (auto simp: formats_iff(2) ConsoleSink_log_def FileSink_log_def)
  show "\<exists>o2. sink_log lapi i k o1 = Ret o2" if ok: "printable_by lapi i k"
  proof -
    obtain t where "apply_format (dump_line lapi) (sink_format k) i = Ret t"
      using ok by (auto simp: printable_by_def formats_iff(1))
    with ok show ?thesis
      by (cases k) (auto simp: printable_by_def ConsoleSink_log_def print_line_def FileSink_log_def split_beta Let_def)
  qed
qed

lemma log_all_cases:
  "log_all lapi i ks o1 = Terminate \<or> (\<exists>o2. log_all lapi i ks o1 = Ret o2)"
proof (induction ks arbitrary: o1)
  case (Cons k ks)
  show ?case
  proof (cases "sink_log lapi i k o1")
    case (Ret o2)
    then show ?thesis using Cons.IH [of o2] by simp
  qed (use sink_log_cases [of lapi i k o1] in simp_all)
qed simp

lemma log_all_end:
  "list_all (printable_by lapi i) ks \<Longrightarrow> \<exists>o2. log_all lapi i ks o1 = Ret o2"
  "\<not> list_all (formats lapi i) ks \<Longrightarrow> log_all lapi i ks o1 = Terminate"
proof (induction ks arbitrary: o1)
  case (Cons k ks)
  {
    case 1
    then show ?case using Cons.IH(1) sink_log_end(1) [of lapi i k o1] by auto
  next
    case 2
    show ?case
    proof (cases "sink_log lapi i k o1")
      case (Ret o2)
      with 2 sink_log_end(2) [of lapi i k o1] have "\<not> list_all (formats lapi i) ks" by auto
      with Ret Cons.IH(2) show ?thesis by simp
    qed (use sink_log_cases [of lapi i k o1] in simp_all)
  }
qed simp_all

text \<open>The record a statement without message arguments logs.\<close>

definition statement_record ::
    "(string \<Rightarrow> location) \<Rightarrow> subject \<Rightarrow> string \<Rightarrow> (string \<times> string) list \<Rightarrow> LogInfo" where
  "statement_record at subj msg details = LogStream_new subj (at msg) msg details"

definition logs_at :: "log_system \<Rightarrow> log \<Rightarrow> Logger option" where
  "logs_at s lvl = (if ShouldLog s lvl then LogSystem_Get s else None)"

lemma LOG_at_end:
  "LOG_at lapi vformat s at subj msg d o1 =
   (case logs_at s (subject_log subj) of
      None \<Rightarrow> Ret o1
    | Some lg \<Rightarrow> noexcept (log_all lapi (statement_record at subj msg d) (sinks lg) o1))"
  by (simp add: LOG_at_def LOG_def logs_at_def LogStream_destroy_def Logger_log_def
      statement_record_def split: option.split)

section \<open>When a log statement ends the process\<close>

text \<open>A call that may end the process where another does what it does.\<close>

definition cut_short :: "'a outcome \<Rightarrow> 'a outcome \<Rightarrow> bool" where
  "cut_short x y \<longleftrightarrow> x = Terminate \<or> x = y"

lemma cut_refl: "cut_short x x"
  by (simp add: cut_short_def)

lemma cut_obind: "cut_short m m' \<Longrightarrow> (\<And>x. cut_short (f x) (f' x)) \<Longrightarrow> cut_short (obind m f) (obind m' f')"
  unfolding cut_short_def by (cases m') fastforce+

lemma cut_noexcept: "cut_short m m' \<Longrightarrow> cut_short (noexcept m) (noexcept m')"
  by (cases m) (auto simp: cut_short_def)

lemmas cut_intros = cut_obind cut_noexcept cut_refl

lemma parse_cut:
  assumes "\<And>subj msg d o1. cut_short (lg subj msg d o1) (lg' subj msg d o1)"
  shows "cut_short (parse_logged lg jparse what raw w o0) (parse_logged lg' jparse what raw w o0)"
  unfolding parse_logged_def Let_def using assms
  by (auto simp: split_beta intro!: cut_intros split: option.split)

lemma Route_cut:
  assumes "\<And>subj msg d o1. cut_short (lg subj msg d o1) (lg' subj msg d o1)"
  shows "cut_short (Route_logged lg m req w o0) (Route_logged lg' m req w o0)"
  unfolding Route_logged_def Let_def using assms
  by (auto simp: split_beta intro!: cut_intros split: option.split)

text \<open>The log statement with its failures left out.\<close>

definition unfailing :: "'o logf \<Rightarrow> 'o logf" where
  "unfailing lg subj msg d o1 = (case lg subj msg d o1 of Ret o2 \<Rightarrow> Ret o2 | _ \<Rightarrow> Ret o1)"

definition next_output :: "'o logf \<Rightarrow> subject \<Rightarrow> string \<Rightarrow> (string \<times> string) list \<Rightarrow> 'o \<Rightarrow> 'o" where
  "next_output lg subj msg d o1 = (case lg subj msg d o1 of Ret o2 \<Rightarrow> o2 | _ \<Rightarrow> o1)"

interpretation kept: returning_log "unfailing lg" "next_output lg" for lg :: "'o logf"
  by unfold_locales (simp add: unfailing_def next_output_def split: outcome.split)

lemma LOG_at_cut:
  "cut_short (LOG_at lapi vformat s at subj msg d o1) (unfailing (LOG_at lapi vformat s at) subj msg d o1)"
proof -
  have "LOG_at lapi vformat s at subj msg d o1 = Terminate \<or>
      (\<exists>o2. LOG_at lapi vformat s at subj msg d o1 = Ret o2)"
  proof (cases "logs_at s (subject_log subj)")
    case (Some lg)
    then show ?thesis
      using log_all_cases [of lapi "statement_record at subj msg d" "sinks lg" o1]
      by (auto simp: LOG_at_end)
  qed (simp add: LOG_at_end)
  then show ?thesis by (auto simp: cut_short_def unfailing_def)
qed

text \<open>A system whose sinks can print every record never fails.\<close>

lemma LOG_at_unfailing:
  assumes "\<And>subj msg d lg k. logs_at s (subject_log subj) = Some lg \<Longrightarrow> k \<in> set (sinks lg) \<Longrightarrow>
    printable_by lapi (statement_record at subj msg d) k"
  shows "LOG_at lapi vformat s at = unfailing (LOG_at lapi vformat s at)"
proof (intro ext)
  fix subj msg d o1
  show "LOG_at lapi vformat s at subj msg d o1 = unfailing (LOG_at lapi vformat s at) subj msg d o1"
  proof (cases "logs_at s (subject_log subj)")
    case (Some lg)
    then have "list_all (printable_by lapi (statement_record at subj msg d)) (sinks lg)"
      using assms by (simp add: list_all_iff)
    then show ?thesis
      using log_all_end(1) [of lapi "statement_record at subj msg d" "sinks lg" o1] Some
      by (auto simp: LOG_at_end unfailing_def)
  qed (simp add: LOG_at_end unfailing_def)
qed

text \<open>A logged call that did not end the process gives what the call without logging gives.\<close>

lemma parse_logged_cases:
  "parse_logged (LOG_at lapi vformat s at) jparse what raw w o0 = Terminate \<or>
   obind (parse_logged (LOG_at lapi vformat s at) jparse what raw w o0) (\<lambda>(req, w', _). Ret (req, w')) =
     parse jparse raw w"
proof -
  let ?lg = "LOG_at lapi vformat s at"
  have "cut_short (parse_logged ?lg jparse what raw w o0) (parse_logged (unfailing ?lg) jparse what raw w o0)"
    by (rule parse_cut) (rule LOG_at_cut)
  then show ?thesis
    using kept.parse_transparent [of ?lg jparse what raw w o0]
    by (auto simp: cut_short_def)
qed

lemma Route_logged_cases:
  "Route_logged (LOG_at lapi vformat s at) m req w o0 = Terminate \<or>
   obind (Route_logged (LOG_at lapi vformat s at) m req w o0) (\<lambda>(resp, w', _). Ret (resp, w')) =
     RouterManager_Route m req w"
proof -
  let ?lg = "LOG_at lapi vformat s at"
  have "cut_short (Route_logged ?lg m req w o0) (Route_logged (unfailing ?lg) m req w o0)"
    by (rule Route_cut) (rule LOG_at_cut)
  then show ?thesis
    using kept.Route_transparent [of ?lg m req w o0]
    by (auto simp: cut_short_def)
qed

section \<open>Properties\<close>

text \<open>
  Logging does not change what the server answers, as long as every record can be printed
  by every sink it goes to: then \<open>process\<close> with all its log statements computes what it
  computes without them, on every input and with every router.
\<close>
theorem logging_is_transparent:
  assumes "\<And>subj msg d lg k. logs_at s (subject_log subj) = Some lg \<Longrightarrow> k \<in> set (sinks lg) \<Longrightarrow>
    printable_by lapi (statement_record at subj msg d) k"
  shows "obind (process_logged (LOG_at lapi vformat s at) jparse jdump what mgr c raw w o0)
      (\<lambda>(out, c', w', _). Ret (out, c', w')) = process jparse jdump mgr c raw w"
proof -
  have "LOG_at lapi vformat s at = unfailing (LOG_at lapi vformat s at)"
    by (rule LOG_at_unfailing) (rule assms)
  then show ?thesis using kept.process_transparent [of "LOG_at lapi vformat s at"] by simp
qed

text \<open>A started system with one sink, that logs everything, and the outputs before it.\<close>

definition sample_system :: "format \<Rightarrow> log_system" where
  "sample_system f = \<lparr>lm = Some \<lparr>lm_logger = Some \<lparr>level = trace, sinks = [ConsoleSink f]\<rparr>,
     paused = False\<rparr>, cw = None\<rparr>"

text \<open>A standard output that takes everything.\<close>

definition sample_api :: "(json \<Rightarrow> string option) \<Rightarrow> log_api" where
  "sample_api dump = \<lparr>dump_line = dump, stdout_takes = (\<lambda>_ _. True)\<rparr>"

definition sample_outputs :: outputs where
  "sample_outputs = \<lparr>console = [], streams = []\<rparr>"

definition nowhere :: "string \<Rightarrow> location" where
  "nowhere _ = \<lparr>loc_file = [], loc_line = 1, loc_column = 1, loc_time = []\<rparr>"

theorem logging_is_transparent_witness:
  "obind (process_logged (LOG_at (sample_api (\<lambda>_. None)) (\<lambda>_ _. None) (sample_system Format_console) nowhere)
      (\<lambda>_. Parse_error) (\<lambda>_. Some ''{}'') (\<lambda>_. []) None new_codec ''GET /uni'' sample_world sample_outputs)
      (\<lambda>(out, c', w', _). Ret (out, c', w')) =
   process (\<lambda>_. Parse_error) (\<lambda>_. Some ''{}'') None new_codec ''GET /uni'' sample_world"
  by (rule logging_is_transparent)
     (auto simp: logs_at_def LogSystem_Get_def LogManager_Get_def sample_system_def printable_by_def
       formats_def sample_api_def split: if_splits)

text \<open>
  C17. A request whose path the JSON library refuses to print (it is not UTF-8) takes its worker
  down: with a logger that has a JSON sink and a level not above that of the answer, the
  process ends before the answer is serialised, although the request is well formed and
  has an answer.
\<close>
theorem unprintable_path_kills_worker:
  assumes "length raw < 2 ^ 31"
    and "run_registrations rs (RouterManager_Init m0) = Ret (bs, m)"
    and "parse_ref jparse raw w = Ret (Some r, w1)"
    and "expected_answer jparse rs raw w = Ret (resp, w2)"
    and "logs_at s (http_to_log (resp_status resp)) = Some lg"
    and "\<exists>k \<in> set (sinks lg). sink_format k = Format_json"
    and "\<And>i. (''path'', req_path r) \<in> set (li_details i) \<Longrightarrow> dump_line lapi (log_json i) = None"
  shows "process_logged (LOG_at lapi vformat s at) jparse jdump what m c raw w o0 = Terminate"
proof (cases "parse_logged (LOG_at lapi vformat s at) jparse what raw w o0 = Terminate")
  case False
  then have "obind (parse_logged (LOG_at lapi vformat s at) jparse what raw w o0)
      (\<lambda>(req, w', _). Ret (req, w')) = Ret (Some r, w1)"
    using parse_logged_cases parse_ref_eq [OF assms(1)] assms(3) by metis
  then obtain o1 where parsed:
      "parse_logged (LOG_at lapi vformat s at) jparse what raw w o0 = Ret (Some r, w1, o1)"
    by (auto simp: outcome_simps split: prod.splits)
  have route: "RouterManager_Route m r w1 = Ret (Some resp, w2)"
    using assms(3,4) by (simp add: route_registered [OF assms(2)] expected_answer_def)
  let ?f = "target_fields (req_method r) (req_path r)"
  let ?i = "statement_record at (On_status (resp_status resp)) [] ?f"
  have "dump_line lapi (log_json ?i) = None"
    by (rule assms(7)) (simp add: statement_record_def LogStream_new_def target_fields_def)
  then have "\<not> list_all (formats lapi ?i) (sinks lg)"
    using assms(6) by (force simp: list_all_iff formats_def)
  then have stop: "LOG_at lapi vformat s at (On_status (resp_status resp)) [] ?f o2 = Terminate" for o2
    using assms(5) log_all_end(2) [of lapi ?i "sinks lg" o2] by (simp add: LOG_at_end)
  show ?thesis
  proof (cases "Route_logged (LOG_at lapi vformat s at) m r w1 o1")
    case (Ret x)
    then obtain o2 where "Route_logged (LOG_at lapi vformat s at) m r w1 o1 = Ret (Some resp, w2, o2)"
      using Route_logged_cases [of lapi vformat s at m r w1 o1] route by (auto split: prod.splits)
    then show ?thesis by (simp add: process_logged_def parsed answer_logged_def stop Let_def)
  qed (use Route_logged_cases [of lapi vformat s at m r w1 o1] route in
      \<open>auto simp: process_logged_def parsed answer_logged_def Let_def\<close>)
qed (simp add: process_logged_def)

theorem unprintable_path_kills_worker_witness:
  "process_logged (LOG_at (sample_api (\<lambda>_. None)) (\<lambda>_ _. None) (sample_system Format_json) nowhere)
      (\<lambda>_. Parse_error) (\<lambda>_. Some ''{}'') (\<lambda>_. []) (manager_of (Some [])) new_codec
      (print_request ''GET'' [CHR ''/'', CHR 0xFF] ''HTTP/1.1'' [(''Host'', ''x'')] []) sample_world sample_outputs =
   Terminate"
proof -
  let ?raw = "print_request ''GET'' [CHR ''/'', CHR 0xFF] ''HTTP/1.1'' [(''Host'', ''x'')] []"
  have ok: "printable ''GET'' [CHR ''/'', CHR 0xFF] ''HTTP/1.1'' [(''Host'', ''x'')]" by code_simp
  have len: "length ?raw < 2 ^ 31"
    by (simp add: print_request_def request_line_def header_lines_def crlf_def)
  have regs: "run_registrations [] (RouterManager_Init None) = Ret ([], manager_of (Some []))"
    unfolding run_registrations_manager by simp
  obtain r w1 where parsed: "parse_ref (\<lambda>_. Parse_error) ?raw sample_world = Ret (Some r, w1)"
    by (simp add: parse_ref_print [OF ok])
  let ?answer = "makeResp NotFound (req_id r) (JObject []) w1"
  have answer: "expected_answer (\<lambda>_. Parse_error) [] ?raw sample_world = Ret (fst ?answer, snd ?answer)"
    by (simp add: expected_answer_def parsed route_answer_def first_handler_def)
  have "trace \<le> http_to_log (to_http_status NotFound)"
    unfolding http_to_log_def http_code_to_http_status by (simp add: Let_def less_eq_log_def)
  then have lg: "logs_at (sample_system Format_json) (http_to_log (resp_status (fst ?answer))) =
      Some \<lparr>level = trace, sinks = [ConsoleSink Format_json]\<rparr>"
    by (simp add: logs_at_def ShouldLog_def LogSystem_GetLevel_def LogManager_GetLevel_def
        LogSystem_Get_def LogManager_Get_def sample_system_def not_less)
  show ?thesis
    by (rule unprintable_path_kills_worker [OF len regs parsed answer lg]) (simp_all add: sample_api_def)
qed

end
