(* ===== verification/LogExposure.thy ===== *)
theory LogExposure
  imports LoggedCodec
begin

text \<open>
  What a client can do to the log by what it sends (\<open>http_codec.cc\<close> with its log statements,
  over the sinks of \<open>logging.cc\<close>): the console format puts bytes of the request into the
  log as they are, and every malformed request is logged as a warning, which flushes.
\<close>

section \<open>What a property of the log keeps\<close>

text \<open>A condition on the value of a call, when it has one.\<close>

definition post :: "'a outcome \<Rightarrow> ('a \<Rightarrow> bool) \<Rightarrow> bool" where
  "post m P \<longleftrightarrow> (\<forall>x. m = Ret x \<longrightarrow> P x)"

lemma post_Ret [simp]: "post (Ret x) P \<longleftrightarrow> P x"
  by (simp add: post_def)

lemma post_obind: "(\<And>x. post (f x) P) \<Longrightarrow> post (obind m f) P"
  by (auto simp: post_def obind_Ret_iff)

lemma post_log: "I o1 \<Longrightarrow> (\<And>o1 o2. I o1 \<Longrightarrow> lg subj msg d o1 = Ret o2 \<Longrightarrow> J o2) \<Longrightarrow>
    (\<And>o2. J o2 \<Longrightarrow> post (f o2) P) \<Longrightarrow> post (obind (lg subj msg d o1) f) P"
  by (auto simp: post_def obind_Ret_iff)

text \<open>
  \<open>I\<close> is kept by every statement, a warning establishes \<open>W\<close> besides. A request that
  \<open>parse\<close> gives up on has had a warning as its last statement.
\<close>

lemma parse_logged_None:
  assumes any: "\<And>subj msg d o1 o2. I o1 \<Longrightarrow> lg subj msg d o1 = Ret o2 \<Longrightarrow> I o2"
    and warn: "\<And>msg d o1 o2. I o1 \<Longrightarrow> lg (On_level warning) msg d o1 = Ret o2 \<Longrightarrow> W o2"
    and "I o0"
  shows "post (parse_logged lg jparse what raw w o0) (\<lambda>(req, _, o2). req = None \<longrightarrow> I o2 \<and> W o2)"
proof -
  let ?P = "\<lambda>(req, _, o2). req = None \<longrightarrow> I o2 \<and> W o2"
  have give_up: "post (obind (lg (On_level warning) msg d o1) (\<lambda>o2. Ret (None, w, o2))) ?P"
    if "I o1" for msg d o1
    using that any warn by (auto simp: post_def obind_Ret_iff)
  have go_on: "post (obind (lg subj msg d o1) f) ?P" if "I o1" "\<And>o2. I o2 \<Longrightarrow> post (f o2) ?P"
    for subj msg d o1 f
    by (rule post_log [where I = I and J = I]) (use that any in blast)+
  have body: "post (obind (lg subj msg d o1) (\<lambda>o2. Ret (Some r, w1, o2))) ?P" for subj msg d o1 r w1
    by (auto simp: post_def obind_Ret_iff)
  show ?thesis unfolding parse_logged_def Let_def
    apply (rule go_on [OF \<open>I o0\<close>])
    apply (simp only: split: if_split)
    apply (intro conjI impI)
     apply (erule give_up)
    apply (rule post_obind)+
    apply (split option.split, intro conjI allI impI)
     apply (erule give_up)
    apply (simp only: split_paired_all prod.case)
    apply (rule go_on, assumption)
    apply (rule post_obind)+
    apply (split option.split, intro conjI allI impI)
     apply (erule give_up)
    apply (simp only: split: if_split)
    apply (intro conjI impI)
     apply (erule give_up)
    apply (rule go_on, assumption)
    apply (rule post_obind)
    apply (split option.split, intro conjI allI impI)
     apply (erule give_up)
    apply (simp only: split_beta)
    apply (rule body)
    done
qed

lemma answer_logged_None:
  assumes any: "\<And>subj msg d o1 o2. I o1 \<Longrightarrow> lg subj msg d o1 = Ret o2 \<Longrightarrow> I o2"
    and "I o0" "answer_logged lg jdump m c None w o0 = Ret (out, c', w', o1)"
  shows "I o1"
proof -
  let ?resp = "fst (makeResp_fresh InvalidJsonOrParams (JObject []) w)"
  from assms(3) obtain o2 o3 msg d fields where
      "lg (On_level debug) msg d o0 = Ret o2" "lg (On_status (resp_status ?resp)) [] fields o2 = Ret o3"
    and ser: "serialize_logged lg jdump ?resp o3 = Ret (out, o1)"
    by (auto simp: answer_logged_def obind_Ret_iff Let_def split_beta)
  then have "I o3" using any \<open>I o0\<close> by metis
  with ser any show ?thesis by (auto simp: serialize_logged_def obind_Ret_iff noexcept_Ret_iff)
qed

section \<open>Files only grow\<close>

definition healthy :: "outputs \<Rightarrow> bool" where
  "healthy o1 \<longleftrightarrow> (\<forall>s \<in> set (streams o1). faults s = [])"

definition file_text :: "nat \<Rightarrow> outputs \<Rightarrow> string" where
  "file_text n o1 = on_disk (streams o1 ! n)"

definition all_text :: "nat \<Rightarrow> outputs \<Rightarrow> string" where
  "all_text n o1 = on_disk (streams o1 ! n) @ buffered (streams o1 ! n)"

definition grows :: "nat \<Rightarrow> outputs \<Rightarrow> outputs \<Rightarrow> bool" where
  "grows n o1 o2 \<longleftrightarrow> healthy o2 \<and> n < length (streams o2) \<and>
     prefix (file_text n o1) (file_text n o2) \<and> prefix (all_text n o1) (all_text n o2)"

lemma grows_trans: "grows n o1 o2 \<Longrightarrow> grows n o2 o3 \<Longrightarrow> grows n o1 o3"
  by (auto simp: grows_def intro: prefix_order.trans)

lemma grows_refl: "healthy o1 \<Longrightarrow> n < length (streams o1) \<Longrightarrow> grows n o1 o1"
  by (simp add: grows_def)

lemma FileSink_log_grows:
  assumes "faults s = []" "FileSink_log jdump f i s = Ret (b, s')"
  shows "faults s' = []" "prefix (on_disk s) (on_disk s')"
    "prefix (on_disk s @ buffered s) (on_disk s' @ buffered s')"
    "important_log (li_status i) \<Longrightarrow> prefix (on_disk s @ buffered s) (on_disk s')"
proof -
  obtain t where t: "apply_format jdump f i = Ret t"
    using assms(2) by (cases "apply_format jdump f i") (auto simp: FileSink_log_def)
  let ?s = "fs_spill (s\<lparr>buffered := buffered s @ t @ [CHR 0x0A]\<rparr>)"
  have "prefix (on_disk s) (on_disk ?s)" by (simp add: fs_spill_def split: list.split)
  moreover note FileSink_log_healthy [OF assms(1) t] assms
    fs_spill_total [of "s\<lparr>buffered := buffered s @ t @ [CHR 0x0A]\<rparr>"]
  ultimately show "faults s' = []" "prefix (on_disk s) (on_disk s')"
    "prefix (on_disk s @ buffered s) (on_disk s' @ buffered s')"
    "important_log (li_status i) \<Longrightarrow> prefix (on_disk s @ buffered s) (on_disk s')"
    by (auto simp: Let_def prefix_def split: if_splits)
qed

lemma sink_log_grows:
  assumes "healthy o1" "n < length (streams o1)" "sink_log lapi i k o1 = Ret o2"
  shows "grows n o1 o2"
    "important_log (li_status i) \<Longrightarrow> k = FileSink f n \<Longrightarrow> prefix (all_text n o1) (file_text n o2)"
proof -
  have "grows n o1 o2 \<and> (important_log (li_status i) \<longrightarrow> k = FileSink f n \<longrightarrow> prefix (all_text n o1) (file_text n o2))"
  proof (cases k)
    case (ConsoleSink g)
    with assms show ?thesis
      by (auto simp: outcome_simps grows_def healthy_def file_text_def all_text_def)
  next
    case (FileSink g m)
    then obtain b s' where s': "FileSink_log (dump_line lapi) g i (streams o1 ! m) = Ret (b, s')"
        "o2 = o1\<lparr>streams := (streams o1)[m := s']\<rparr>"
      using assms(3) by (auto simp: outcome_simps)
    show ?thesis
    proof (cases "m < length (streams o1)")
      case True
      then have "faults (streams o1 ! m) = []" using assms(1) by (simp add: healthy_def)
      note log = FileSink_log_grows [OF this s'(1)]
      have "\<forall>s \<in> set (streams o2). faults s = []"
        using assms(1) log(1) s'(2) by (auto simp: healthy_def dest!: set_update_subset_insert [THEN subsetD])
      with log(2-4) s'(2) assms(2) FileSink True show ?thesis
        by (auto simp: grows_def healthy_def file_text_def all_text_def nth_list_update)
    next
      case False
      then have "o2 = o1" "m \<noteq> n" using s'(2) assms(2) by (simp_all add: list_update_beyond)
      with assms(1,2) FileSink show ?thesis by (simp add: grows_refl)
    qed
  qed
  then show "grows n o1 o2"
    "important_log (li_status i) \<Longrightarrow> k = FileSink f n \<Longrightarrow> prefix (all_text n o1) (file_text n o2)" by simp_all
qed

lemma log_all_grows:
  assumes "healthy o1" "n < length (streams o1)" "log_all lapi i ks o1 = Ret o2"
  shows "grows n o1 o2 \<and>
    (important_log (li_status i) \<longrightarrow> FileSink f n \<in> set ks \<longrightarrow> prefix (all_text n o1) (file_text n o2))"
  using assms
proof (induction ks arbitrary: o1)
  case (Cons k ks)
  then obtain o' where o': "sink_log lapi i k o1 = Ret o'" "log_all lapi i ks o' = Ret o2"
    by (auto simp: outcome_simps)
  note one = sink_log_grows [OF Cons.prems(1,2) o'(1)]
  then have "healthy o'" "n < length (streams o')" by (auto simp: grows_def)
  from Cons.IH [OF this o'(2)] one show ?case
    by (auto simp: grows_def intro: prefix_order.trans)
qed (simp add: grows_refl)

lemma LOG_at_grows:
  assumes "grows n o0 o1" "LOG_at lapi vformat s at subj msg d o1 = Ret o2"
  shows "grows n o0 o2"
    "logs_at s (subject_log subj) = Some lg \<Longrightarrow> FileSink f n \<in> set (sinks lg) \<Longrightarrow>
      important_log (subject_log subj) \<Longrightarrow> prefix (all_text n o0) (file_text n o2)"
proof -
  have ready: "healthy o1" "n < length (streams o1)" using assms(1) by (auto simp: grows_def)
  have logged: "grows n o1 o2 \<and> (important_log (subject_log subj) \<longrightarrow> FileSink f n \<in> set (sinks lg) \<longrightarrow>
      prefix (all_text n o1) (file_text n o2))"
    if "logs_at s (subject_log subj) = Some lg" for lg
    using log_all_grows [OF ready, of lapi "statement_record at subj msg d" "sinks lg" o2 f] assms(2) that
    by (simp add: LOG_at_end noexcept_Ret_iff statement_record_def LogStream_new_def)
  show "grows n o0 o2"
  proof (cases "logs_at s (subject_log subj)")
    case None
    with assms show ?thesis by (simp add: LOG_at_end)
  next
    case (Some lg)
    with logged assms(1) show ?thesis by (blast intro: grows_trans)
  qed
  show "prefix (all_text n o0) (file_text n o2)"
    if "logs_at s (subject_log subj) = Some lg" "FileSink f n \<in> set (sinks lg)" "important_log (subject_log subj)"
    using logged that assms(1) by (auto simp: grows_def intro: prefix_order.trans)
qed

section \<open>The forged record\<close>

lemma ConsoleFormat_last: "butlast (ConsoleFormat i) @ [CHR 0x22] = ConsoleFormat i"
proof -
  have "\<exists>u. concat (map detail_line (d # ds)) = u @ [CHR 0x22, CHR 0x0A]" for d ds
  proof (induction ds arbitrary: d)
    case Nil
    show ?case by (simp add: detail_line_def quoted_def)
  next
    case (Cons e ds)
    from Cons.IH [of e] show ?case by auto
  qed
  then have "li_details i \<noteq> [] \<Longrightarrow> \<exists>u. concat (map detail_line (li_details i)) = u @ [CHR 0x22, CHR 0x0A]"
    by (cases "li_details i") simp_all
  then have "\<exists>u. ConsoleFormat i = u @ [CHR 0x22]"
    by (fastforce simp: ConsoleFormat_def Let_def quoted_def butlast_append)
  then show ?thesis by auto
qed

lemma to_method_X: "to_method (CHR ''X'' # s) = UNKNOWN"
proof -
  have "tolower (CHR ''X'') = CHR ''x''" by code_simp
  then show ?thesis by (simp add: to_method_def Let_def)
qed

text \<open>A target line that is no method, as the last thing of a request.\<close>

lemma takeWhile_all: "c \<notin> set t \<Longrightarrow> takeWhile (\<lambda>x. x \<noteq> c) t = t"
  by (auto intro: takeWhile_eq_all_conv [THEN iffD2])

lemma parse_logged_no_method:
  assumes "CHR 0x0D \<notin> set t" "length t + 4 < 2 ^ 31" "to_method (takeWhile (\<lambda>c. c \<noteq> CHR '' '') t) = UNKNOWN"
    and "\<And>n. lg (On_level trace) ''Parsing incoming request'' [(''raw_size'', n)] o0 = Ret o0"
  shows "parse_logged lg jparse what (t @ crlf @ crlf) w o0 =
    obind (lg (On_level warning) ''Incorrectly specified method <UNKNOWN>'' [(''raw_target'', t)] o0)
      (\<lambda>o2. Ret (None, w, o2))"
proof -
  let ?raw = "t @ crlf @ crlf"
  have "sv_find ?raw crlf 0 = length t"
    using first_match_crlf_append [OF assms(1)] by (simp add: sv_find_def)
  moreover have "sizet (int (length t)) = length t" using assms(2) by (subst sizet_small) auto
  moreover have "int32 (length t) = int (length t)" using assms(2) by (simp add: int32_small)
  moreover have "length t \<noteq> npos" using small_npos assms(2) by simp
  moreover have "sv_substr ?raw 0 (length t) = Ret t" by (simp add: sv_substr_def)
  moreover have "parse_target t = Ret None"
    using parse_target_ref [of t] assms(2,3)
    by (cases "CHR '' '' \<in> set t") (auto simp: target_words_def Let_def takeWhile_all)
  ultimately show ?thesis by (simp add: parse_logged_def assms(4) Let_def)
qed

text \<open>A detail whose value closes its quote adds a line of its own choice.\<close>

lemma ConsoleFormat_detail:
  "ConsoleFormat (i\<lparr>li_details := [(k, v @ [CHR 0x22, CHR 0x0A] @ butlast (ConsoleFormat j))]\<rparr>) =
     ConsoleFormat (i\<lparr>li_details := [(k, v)]\<rparr>) @ [CHR 0x0A] @ ConsoleFormat j"
  using ConsoleFormat_last [of j]
  by (simp add: ConsoleFormat_def [of "i\<lparr>li_details := d\<rparr>" for d] Let_def detail_line_def quoted_def butlast_append)

lemma set_butlast: "x \<notin> set xs \<Longrightarrow> x \<notin> set (butlast xs)"
  by (auto dest: in_set_butlastD)

section \<open>Properties\<close>

text \<open>
  C18. A client can write records into the log. For any record whose console line has no
  carriage return, at any level and from any file, there is a request that is logged as one
  warning about an unknown method whose target is \<open>X\<close>, followed by the line of that record,
  byte for byte as if the program had logged it: the console format does not escape what the
  client sent. (The standard output is one that takes what is printed next.)
\<close>
theorem client_can_forge_log_records:
  assumes "LogSystem_Get s = Some lg" "trace < level lg" "level lg \<le> warning"
    and "sinks lg = [ConsoleSink Format_console]"
    and "CHR 0x0D \<notin> set (ConsoleFormat i)" "length (ConsoleFormat i) < 2 ^ 30"
    and "\<And>t. stdout_takes lapi (console o0) t"
  shows "\<exists>raw. parse_logged (LOG_at lapi vformat s at) jparse what raw w o0 = Ret (None, w,
    o0\<lparr>console := console o0 @
      ConsoleFormat (statement_record at (On_level warning) ''Incorrectly specified method <UNKNOWN>''
        [(''raw_target'', ''X'')]) @ [CHR 0x0A] @
      ConsoleFormat i @ [CHR 0x0A]\<rparr>)"
proof -
  let ?t = "CHR ''X'' # [CHR 0x22, CHR 0x0A] @ butlast (ConsoleFormat i)"
  have shown: "logs_at s warning = Some lg" and hidden: "logs_at s trace = None"
    using assms(1-3)
    by (auto simp: logs_at_def ShouldLog_def LogSystem_GetLevel_def LogSystem_Get_def LogManager_Get_def
        LogManager_GetLevel_def less_log_def less_eq_log_def split: option.splits if_splits)
  have "parse_logged (LOG_at lapi vformat s at) jparse what (?t @ crlf @ crlf) w o0 =
      obind (LOG_at lapi vformat s at (On_level warning) ''Incorrectly specified method <UNKNOWN>''
        [(''raw_target'', ?t)] o0) (\<lambda>o2. Ret (None, w, o2))"
  proof (rule parse_logged_no_method)
    show "CHR 0x0D \<notin> set ?t" using assms(5) by (auto dest: in_set_butlastD)
    show "length ?t + 4 < 2 ^ 31" using assms(6) by simp
    show "to_method (takeWhile (\<lambda>c. c \<noteq> CHR '' '') ?t) = UNKNOWN" by (simp add: to_method_X)
    show "LOG_at lapi vformat s at (On_level trace) ''Parsing incoming request'' [(''raw_size'', n)] o0 = Ret o0"
      for n using hidden by (simp add: LOG_at_end)
  qed
  also have "\<dots> = Ret (None, w, o0\<lparr>console := console o0 @
      ConsoleFormat (statement_record at (On_level warning) ''Incorrectly specified method <UNKNOWN>''
        [(''raw_target'', ?t)]) @ [CHR 0x0A]\<rparr>)"
    using shown assms(4,7) by (simp add: LOG_at_end ConsoleSink_log_def print_line_def)
  finally show ?thesis
    using ConsoleFormat_detail [where i = "statement_record at (On_level warning) ''Incorrectly specified method <UNKNOWN>'' []"
        and k = "''raw_target''" and v = "''X''" and j = i]
    by (auto simp: statement_record_def LogStream_new_def)
qed

theorem client_can_forge_log_records_witness:
  "\<exists>raw. parse_logged (LOG_at (sample_api (\<lambda>_. None)) (\<lambda>_ _. None)
      \<lparr>lm = Some \<lparr>lm_logger = Some \<lparr>level = warning, sinks = [ConsoleSink Format_console]\<rparr>, paused = False\<rparr>,
       cw = None\<rparr> nowhere) (\<lambda>_. Parse_error) (\<lambda>_. []) raw sample_world sample_outputs = Ret (None, sample_world,
    sample_outputs\<lparr>console := console sample_outputs @
      ConsoleFormat (statement_record nowhere (On_level warning) ''Incorrectly specified method <UNKNOWN>''
        [(''raw_target'', ''X'')]) @ [CHR 0x0A] @
      ConsoleFormat sample_record @ [CHR 0x0A]\<rparr>)"
proof (rule client_can_forge_log_records)
  show "trace < level \<lparr>level = warning, sinks = [ConsoleSink Format_console]\<rparr>" by (simp add: less_log_def)
  show "CHR 0x0D \<notin> set (ConsoleFormat sample_record)" by code_simp
  have "length (ConsoleFormat sample_record) = 46" by code_simp
  then show "length (ConsoleFormat sample_record) < 2 ^ 30" by simp
qed (simp_all add: LogSystem_Get_def LogManager_Get_def sample_api_def)

text \<open>
  C19. A request that cannot be parsed makes the process write out everything its log file's
  buffer held before the request arrived, whoever put it there (a forked worker: the
  server), as long as warnings are logged to the file, no stream fails and the call returns.
\<close>
theorem malformed_request_flushes_log:
  assumes "logs_at s warning = Some lg" "FileSink f n \<in> set (sinks lg)"
    and "\<forall>st \<in> set (streams o0). faults st = []" "n < length (streams o0)"
    and "parse_logged (LOG_at lapi vformat s at) jparse what raw w o0 = Ret (None, w1, o1)"
    and "process_logged (LOG_at lapi vformat s at) jparse jdump what mgr c raw w o0 = Ret (out, c', w2, o2)"
  shows "prefix (on_disk (streams o0 ! n) @ buffered (streams o0 ! n)) (on_disk (streams o2 ! n))"
proof -
  let ?lg = "LOG_at lapi vformat s at" and ?W = "\<lambda>o1. prefix (all_text n o0) (file_text n o1)"
  have start: "grows n o0 o0" using assms(3,4) by (simp add: grows_refl healthy_def)
  have keep: "grows n o0 oa \<Longrightarrow> ?lg subj msg d oa = Ret ob \<Longrightarrow> grows n o0 ob" for subj msg d oa ob
    by (rule LOG_at_grows)
  have warn: "?W ob" if "grows n o0 oa" "?lg (On_level warning) msg d oa = Ret ob" for msg d oa ob
    using LOG_at_grows(2) [OF that, of lg f] assms(1,2) by simp
  have parsed: "grows n o0 o1 \<and> ?W o1"
    using parse_logged_None [of "grows n o0" ?lg ?W o0 jparse what raw w, OF keep warn start] assms(5)
    by (simp add: post_def)
  have step: "grows n o1 ob" if "grows n o1 oa" "?lg subj msg d oa = Ret ob" for subj msg d oa ob
    using that by (rule LOG_at_grows)
  have "answer_logged ?lg jdump mgr c None w1 o1 = Ret (out, c', w2, o2)"
    using assms(5,6) by (simp add: process_logged_def)
  from answer_logged_None [of "grows n o1" ?lg, OF step _ this] have "grows n o1 o2"
    using parsed grows_refl by (auto simp: grows_def)
  with parsed show ?thesis
    by (auto simp: grows_def all_text_def file_text_def intro: prefix_order.trans)
qed

text \<open>The text \<open>GET\<close>, with a record of the server still in the buffer.\<close>

definition file_system :: log_system where
  "file_system = \<lparr>lm = Some \<lparr>lm_logger = Some \<lparr>level = warning, sinks = [FileSink Format_console 0]\<rparr>,
     paused = False\<rparr>, cw = None\<rparr>"

definition pending_outputs :: outputs where
  "pending_outputs = \<lparr>console = [], streams = [\<lparr>buffered = ''up'', on_disk = [], faults = [], spills = []\<rparr>]\<rparr>"

theorem malformed_request_flushes_log_witness:
  "\<exists>out c' w2 o2. process_logged (LOG_at (sample_api (\<lambda>_. None)) (\<lambda>_ _. None) file_system nowhere)
      (\<lambda>_. Parse_error) (\<lambda>_. Some ''{}'') (\<lambda>_. []) None new_codec ''GET'' sample_world pending_outputs =
      Ret (out, c', w2, o2) \<and> prefix ''up'' (on_disk (streams o2 ! 0))"
proof -
  let ?lg = "LOG_at (sample_api (\<lambda>_. None)) (\<lambda>_ _. None) file_system nowhere"
  let ?logger = "\<lparr>level = warning, sinks = [FileSink Format_console 0]\<rparr>"
  have "?lg = unfailing ?lg"
    by (rule LOG_at_unfailing)
       (auto simp: logs_at_def LogSystem_Get_def LogManager_Get_def file_system_def printable_by_def formats_def split: if_splits)
  then have same: "unfailing ?lg = ?lg" by (rule sym)
  have plain: "parse (\<lambda>_. Parse_error) ''GET'' sample_world = Ret (None, sample_world)"
  proof -
    have "first_match crlf ''GET'' = None" by code_simp
    then show ?thesis by (subst parse_ref_eq) (simp_all add: parse_ref_def)
  qed
  then have "obind (parse_logged ?lg (\<lambda>_. Parse_error) (\<lambda>_. []) ''GET'' sample_world pending_outputs)
      (\<lambda>(req, w', _). Ret (req, w')) = Ret (None, sample_world)"
    using kept.parse_transparent [of ?lg] by (simp add: same)
  then obtain o1 where o1: "parse_logged ?lg (\<lambda>_. Parse_error) (\<lambda>_. []) ''GET'' sample_world pending_outputs =
      Ret (None, sample_world, o1)" by (auto simp: obind_Ret_iff)
  have "\<exists>r. process (\<lambda>_. Parse_error) (\<lambda>_. Some ''{}'') None new_codec ''GET'' sample_world = Ret r"
    by (simp add: process_plain plain answer_plain_def serialize_def split_beta)
  then obtain r where "obind (process_logged ?lg (\<lambda>_. Parse_error) (\<lambda>_. Some ''{}'') (\<lambda>_. []) None new_codec
      ''GET'' sample_world pending_outputs) (\<lambda>(out, c', w', _). Ret (out, c', w')) = Ret r"
    using kept.process_transparent [of ?lg] by (auto simp: same)
  then obtain out c' w2 o2 where whole: "process_logged ?lg (\<lambda>_. Parse_error) (\<lambda>_. Some ''{}'') (\<lambda>_. []) None
      new_codec ''GET'' sample_world pending_outputs = Ret (out, c', w2, o2)"
    by (auto simp: obind_Ret_iff)
  have "prefix (on_disk (streams pending_outputs ! 0) @ buffered (streams pending_outputs ! 0)) (on_disk (streams o2 ! 0))"
    by (rule malformed_request_flushes_log [OF _ _ _ _ o1 whole, where lg = ?logger and f = Format_console])
       (simp_all add: logs_at_def ShouldLog_def LogSystem_GetLevel_def LogManager_GetLevel_def LogSystem_Get_def
         LogManager_Get_def file_system_def pending_outputs_def less_log_def)
  with whole show ?thesis by (auto simp: pending_outputs_def)
qed

end
