(* ===== verification/LoggedConnection.thy ===== *)
theory LoggedConnection
  imports Worker LogExposure
begin

text \<open>
  \<open>http_connection.cc\<close> and \<open>https_connection.cc\<close> with their log statements: the theories
  \<open>Connection\<close> and \<open>Worker\<close> once more, with a log statement wherever the source has one.
  \<open>lg\<close> stands for a log statement and what is streamed into it; \<open>val\<close> gives the texts
  of \<open>errno\<close>, \<open>strerror\<close> and OpenSSL that an error record carries. The relation
  \<open>follows\<close> compares a call with its model without log statements.
\<close>

type_synonym 'o logs = "subject \<Rightarrow> string \<Rightarrow> (string \<times> string) list \<Rightarrow> string list \<Rightarrow> 'o \<Rightarrow> 'o outcome"

definition LOG_args ::
    "log_api \<Rightarrow> (string \<Rightarrow> string list \<Rightarrow> string option) \<Rightarrow> log_system \<Rightarrow>
     (string \<Rightarrow> location) \<Rightarrow> outputs logs" where
  "LOG_args lapi vformat s at subj msg details args o1 = LOG lapi vformat s subj (at msg) msg details args o1"

definition without_args :: "'o logs \<Rightarrow> 'o logf" where
  "without_args lg subj msg details = lg subj msg details []"

section \<open>The fields of the records\<close>

definition id_field :: "ClientConnection \<Rightarrow> string \<times> string" where
  "id_field cl = (''client_id'', client_id cl)"

definition client_fields :: "ClientConnection \<Rightarrow> (string \<times> string) list" where
  "client_fields cl = [id_field cl, (''client_ip'', ip cl), (''client_port'', dec (port cl))]"

definition errno_fields :: "(string \<Rightarrow> string) \<Rightarrow> (string \<times> string) list" where
  "errno_fields val = [(''errno'', val ''errno''), (''strerror'', val ''strerror'')]"

definition ssl_fields :: "(string \<Rightarrow> string) \<Rightarrow> (string \<times> string) list" where
  "ssl_fields val = [(''ssl_error_code'', val ''ssl_error_code''), (''openssl_error'', val ''openssl_error'')]"

definition int_text :: "int \<Rightarrow> string" where
  "int_text i = (if i < 0 then ''-'' @ dec (nat (- i)) else dec (nat i))"

section \<open>Sending\<close>

function http_send_logged ::
    "'o logs \<Rightarrow> (string \<Rightarrow> string) \<Rightarrow> ClientConnection \<Rightarrow> send_result list \<Rightarrow> string \<Rightarrow> nat \<Rightarrow> string \<Rightarrow> 'o \<Rightarrow>
     ((bool \<times> send_result list \<times> string) \<times> 'o) outcome" where
  "http_send_logged lg val cl script resp total_send out o0 =
     (if \<not> total_send < length resp then
        obind (lg (On_level trace) ''Response sent successfully''
                [id_field cl, (''bytes_sent'', dec (length resp))] [] o0)
          (\<lambda>o1. Ret ((True, script, out), o1))
      else
        (case script of
           [] \<Rightarrow> Diverge
         | Send_retry # script' \<Rightarrow> http_send_logged lg val cl script' resp total_send out o0
         | Accepts k # script' \<Rightarrow>
             (let numbytes = min k (length resp - total_send) in
              if numbytes = 0 then
                obind (lg (On_level warning) ''Send returned 0, connection likely closed'' [id_field cl] [] o0)
                  (\<lambda>o1. Ret ((False, script', out), o1))
              else http_send_logged lg val cl script' resp (total_send + numbytes)
                     (out @ take numbytes (drop total_send resp)) o0)
         | _ # script' \<Rightarrow>
             obind (lg (On_level error) ''Error from ::send'' (id_field cl # errno_fields val) [] o0)
               (\<lambda>o1. Ret ((False, script', out), o1))))"
  by pat_completeness auto
termination by (relation "measure (\<lambda>(_, _, _, script, _, _, _, _). length script)") simp_all

declare http_send_logged.simps [simp del]

function tls_send_logged ::
    "'o logs \<Rightarrow> (string \<Rightarrow> string) \<Rightarrow> ClientConnection \<Rightarrow> send_result list \<Rightarrow> string \<Rightarrow> nat \<Rightarrow> string \<Rightarrow> 'o \<Rightarrow>
     ((bool \<times> send_result list \<times> string) \<times> 'o) outcome" where
  "tls_send_logged lg val cl script resp total_sent out o0 =
     (if \<not> total_sent < length resp then
        obind (lg (On_level trace) ''Response sent successfully''
                [id_field cl, (''bytes_sent'', dec (length resp))] [] o0)
          (\<lambda>o1. Ret ((True, script, out), o1))
      else
        (let chunk = int32 (length resp - total_sent);
             fail = (\<lambda>script'. obind (lg (On_level error) ''Error from SSL_write''
               (id_field cl # errno_fields val @ ssl_fields val) [] o0)
               (\<lambda>o1. Ret ((False, script', out), o1))) in
         case script of
           [] \<Rightarrow> Diverge
         | a # script' \<Rightarrow>
             if chunk \<le> 0 then fail script'
             else
             (case a of
                Accepts k \<Rightarrow>
                  (let numbytes = min k (nat chunk) in
                   if numbytes > 0 then
                     tls_send_logged lg val cl script' resp (total_sent + numbytes)
                       (out @ take numbytes (drop total_sent resp)) o0
                   else fail script')
              | Send_retry \<Rightarrow>
                  obind (lg (On_level trace) ''SSL_write returned WANT_READ/WANT_WRITE, retrying'' [] [] o0)
                    (\<lambda>o1. tls_send_logged lg val cl script' resp total_sent out o1)
              | Send_closed \<Rightarrow>
                  obind (lg (On_level debug) ''Connection closed by peer during SSL_write'' [] [] o0)
                    (\<lambda>o1. Ret ((False, script', out), o1))
              | Send_failed \<Rightarrow> fail script')))"
  by pat_completeness auto
termination by (relation "measure (\<lambda>(_, _, _, script, _, _, _, _). length script)") simp_all

declare tls_send_logged.simps [simp del]

type_synonym 'o sender = "string \<Rightarrow> endpoint \<Rightarrow> 'o \<Rightarrow> ((bool \<times> endpoint) \<times> 'o) outcome"

definition HttpConnection_send_logged :: "'o logs \<Rightarrow> (string \<Rightarrow> string) \<Rightarrow> ClientConnection \<Rightarrow> 'o sender" where
  "HttpConnection_send_logged lg val cl resp ep o0 =
     obind (http_send_logged lg val cl (sends ep) resp 0 (wire ep) o0) (\<lambda>((result, script, out), o1).
       Ret ((result, ep\<lparr>sends := script, wire := out\<rparr>), o1))"

definition HttpsConnection_send_logged :: "'o logs \<Rightarrow> (string \<Rightarrow> string) \<Rightarrow> ClientConnection \<Rightarrow> 'o sender" where
  "HttpsConnection_send_logged lg val cl resp ep o0 =
     obind (tls_send_logged lg val cl (sends ep) resp 0 (wire ep) o0) (\<lambda>((result, script, out), o1).
       Ret ((result, ep\<lparr>sends := script, wire := out\<rparr>), o1))"

section \<open>Receiving\<close>

definition send_status_logged ::
    "'o logs \<Rightarrow> json_dumper \<Rightarrow> 'o sender \<Rightarrow> retCode \<Rightarrow> endpoint \<Rightarrow> world \<Rightarrow> 'o \<Rightarrow>
     ((endpoint \<times> world) \<times> 'o) outcome" where
  "send_status_logged lg jdump send code ep w o0 =
     (let (resp, w') = makeResp_fresh code (JObject []) w in
      obind (serialize_logged (without_args lg) jdump resp o0) (\<lambda>(text, o1).
      obind (send text ep o1) (\<lambda>((_, ep'), o2). Ret ((ep', w'), o2))))"

text \<open>The two built-in answers: what is logged before them, and the result of \<open>recv\<close>.\<close>

definition refuse_logged ::
    "'o logs \<Rightarrow> json_dumper \<Rightarrow> 'o sender \<Rightarrow> retCode \<Rightarrow> endpoint \<Rightarrow> world \<Rightarrow> 'o outcome \<Rightarrow>
     ((string option \<times> endpoint \<times> world) \<times> 'o) outcome" where
  "refuse_logged lg jdump send code ep w logged =
     obind logged (\<lambda>o1.
     obind (send_status_logged lg jdump send code ep w o1) (\<lambda>((ep2, w2), o2). Ret ((None, ep2, w2), o2)))"

function http_recv_logged ::
    "'o logs \<Rightarrow> (string \<Rightarrow> string) \<Rightarrow> json_dumper \<Rightarrow> ClientConnection \<Rightarrow> string \<Rightarrow> nat \<Rightarrow> string \<Rightarrow> nat \<Rightarrow>
     string \<Rightarrow> endpoint \<Rightarrow> world \<Rightarrow> 'o \<Rightarrow> ((string option \<times> endpoint \<times> world) \<times> 'o) outcome" where
  "http_recv_logged lg val jdump cl beyond bufsz buf resbytes req ep w o0 =
     (case receive bufsz (arrivals ep) of
        None \<Rightarrow> Diverge
      | Some (a, as) \<Rightarrow>
        (let ep' = ep\<lparr>arrivals := as\<rparr>;
             refuse = refuse_logged lg jdump (HttpConnection_send_logged lg val cl);
             failed = lg (On_level error) ''Error from ::recv'' (errno_fields val) [] o0;
             gone = obind (lg (On_level debug) ''Client disconnected'' [] [] o0)
               (\<lambda>o1. Ret ((None, ep', w), o1)) in
         case a of
           Retry \<Rightarrow> refuse InternalError ep' w failed
         | Failed \<Rightarrow> refuse InternalError ep' w failed
         | Closed \<Rightarrow> gone
         | Bytes s \<Rightarrow>
             if s = [] then gone
             else if resbytes + length s \<ge> kReceptionBufLimit then
               refuse RequestBufferOverflow ep' w (lg (On_retcode RequestBufferOverflow) [] [] [] o0)
             else
               (let buf' = s @ drop (length s) buf;
                    req' = req @ c_string buf' beyond in
                obind (lg (On_level trace) ''`{}` bytes were received'' (client_fields cl) [dec (length s)] o0) (\<lambda>o1.
                if length s < bufsz then
                  obind (lg (On_level debug) ''A total of `{}` bytes received from the client''
                          (client_fields cl) [dec (resbytes + length s)] o1)
                    (\<lambda>o2. Ret ((Some req', ep', w), o2))
                else http_recv_logged lg val jdump cl beyond bufsz buf' (resbytes + length s) req' ep' w o1))))"
  by pat_completeness auto
termination
proof (relation "measure (\<lambda>(_, _, _, _, _, _, _, _, _, ep, _, _). script_size (arrivals ep))")
  fix lg :: "'o logs" and val and jdump :: json_dumper and cl beyond bufsz and buf :: string and resbytes req
    and ep :: endpoint and w :: world and o0 :: 'o
    and x a as ep' refuse failed gone s and buf' :: string and req' :: string and o1 :: 'o
  assume "receive bufsz (arrivals ep) = Some x" "(a, as) = x" "a = Bytes s" "s \<noteq> []"
    and ep': "ep' = ep\<lparr>arrivals := as\<rparr>"
  then have "script_size as < script_size (arrivals ep)" by (auto dest: receive_size)
  then show "((lg, val, jdump, cl, beyond, bufsz, buf', resbytes + length s, req', ep', w, o1),
      lg, val, jdump, cl, beyond, bufsz, buf, resbytes, req, ep, w, o0)
      \<in> measure (\<lambda>(_, _, _, _, _, _, _, _, _, ep, _, _). script_size (arrivals ep))"
    by (simp add: ep')
qed simp

declare http_recv_logged.simps [simp del]

definition HttpConnection_recv_logged ::
    "'o logs \<Rightarrow> (string \<Rightarrow> string) \<Rightarrow> json_dumper \<Rightarrow> string \<Rightarrow> string \<Rightarrow> HttpConnection \<Rightarrow> endpoint \<Rightarrow>
     world \<Rightarrow> 'o \<Rightarrow> ((bool \<times> HttpConnection \<times> endpoint \<times> world) \<times> 'o) outcome" where
  "HttpConnection_recv_logged lg val jdump buf beyond conn ep w o0 =
     noexcept (obind (http_recv_logged lg val jdump (client conn) beyond (bufsize conn) buf 0 [] ep w o0)
       (\<lambda>((req, ep', w'), o1). case req of
          None \<Rightarrow> Ret ((False, conn, ep', w'), o1)
        | Some r \<Rightarrow> Ret ((True, conn\<lparr>conn_req := r\<rparr>, ep', w'), o1)))"

text \<open>
  Under TLS the record of an error comes behind that of the client; the branch in which
  \<open>SSL_read\<close> takes no bytes is the one of \<open>SSL_ERROR_ZERO_RETURN\<close>.
\<close>

function tls_recv_logged ::
    "'o logs \<Rightarrow> (string \<Rightarrow> string) \<Rightarrow> json_dumper \<Rightarrow> ClientConnection \<Rightarrow> nat \<Rightarrow> nat \<Rightarrow>
     string \<Rightarrow> endpoint \<Rightarrow> world \<Rightarrow> 'o \<Rightarrow> ((string option \<times> endpoint \<times> world) \<times> 'o) outcome" where
  "tls_recv_logged lg val jdump cl bufsz resbytes req ep w o0 =
     (case receive bufsz (arrivals ep) of
        None \<Rightarrow> Diverge
      | Some (a, as) \<Rightarrow>
        (let ep' = ep\<lparr>arrivals := as\<rparr>;
             refuse = refuse_logged lg jdump (HttpsConnection_send_logged lg val cl);
             gone = obind (lg (On_level debug) ''Client closed TLS connection (close_notify)'' [] [] o0)
               (\<lambda>o1. Ret ((None, ep', w), o1)) in
         case a of
           Bytes s \<Rightarrow>
             if s \<noteq> [] then
               (if resbytes + length s \<ge> kReceptionBufLimit then
                  refuse RequestBufferOverflow ep' w (lg (On_retcode RequestBufferOverflow) [] [] [] o0)
                else
                  (let req' = req @ s in
                   obind (lg (On_level trace) ''`{}` bytes were received'' (client_fields cl) [dec (length s)] o0)
                     (\<lambda>o1.
                   if length s < bufsz then
                     obind (lg (On_level debug) ''A total of `{}` bytes received from the client''
                             (client_fields cl) [dec (resbytes + length s)] o1)
                       (\<lambda>o2. Ret ((Some req', ep', w), o2))
                   else tls_recv_logged lg val jdump cl bufsz (resbytes + length s) req' ep' w o1)))
             else gone
         | Retry \<Rightarrow>
             obind (lg (On_level trace) ''SSL_read returned WANT_READ/WANT_WRITE, retrying'' [] [] o0)
               (\<lambda>o1. tls_recv_logged lg val jdump cl bufsz resbytes req ep' w o1)
         | Closed \<Rightarrow> gone
         | Failed \<Rightarrow> refuse InternalError ep' w
             (lg (On_level error) ''Error from SSL_read'' (id_field cl # errno_fields val @ ssl_fields val) [] o0)))"
  by pat_completeness auto
termination
proof (relation "measure (\<lambda>(_, _, _, _, _, _, _, ep, _, _). script_size (arrivals ep))")
  fix lg :: "'o logs" and val and jdump :: json_dumper and cl bufsz resbytes and req q1 :: string
    and ep :: endpoint and w :: world and o0 o1 :: 'o and x a as ep'
  assume r: "receive bufsz (arrivals ep) = Some x" "(a, as) = x" and ep': "ep' = ep\<lparr>arrivals := as\<rparr>"
  have less: "script_size as < script_size (arrivals ep)" if "a \<noteq> Bytes []"
    using r that by (auto dest: receive_size)
  show "((lg, val, jdump, cl, bufsz, resbytes + length s, q1, ep', w, o1),
      lg, val, jdump, cl, bufsz, resbytes, req, ep, w, o0)
      \<in> measure (\<lambda>(_, _, _, _, _, _, _, ep, _, _). script_size (arrivals ep))"
    if "a = Bytes s" "s \<noteq> []" for s :: string
    using less that by (simp add: ep')
  show "((lg, val, jdump, cl, bufsz, resbytes, req, ep', w, o1),
      lg, val, jdump, cl, bufsz, resbytes, req, ep, w, o0)
      \<in> measure (\<lambda>(_, _, _, _, _, _, _, ep, _, _). script_size (arrivals ep))"
    if "a = Retry"
    using less that by (simp add: ep')
qed simp

declare tls_recv_logged.simps [simp del]

definition HttpsConnection_recv_logged ::
    "'o logs \<Rightarrow> (string \<Rightarrow> string) \<Rightarrow> json_dumper \<Rightarrow> HttpConnection \<Rightarrow> endpoint \<Rightarrow>
     world \<Rightarrow> 'o \<Rightarrow> ((bool \<times> HttpConnection \<times> endpoint \<times> world) \<times> 'o) outcome" where
  "HttpsConnection_recv_logged lg val jdump conn ep w o0 =
     noexcept (obind (tls_recv_logged lg val jdump (client conn) (bufsize conn) 0 [] ep w o0)
       (\<lambda>((req, ep', w'), o1). case req of
          None \<Rightarrow> Ret ((False, conn, ep', w'), o1)
        | Some r \<Rightarrow> Ret ((True, conn\<lparr>conn_req := r\<rparr>, ep', w'), o1)))"

section \<open>Serving one request\<close>

definition execution_logged ::
    "'o logs \<Rightarrow> json_parser \<Rightarrow> json_dumper \<Rightarrow> (string \<Rightarrow> string) \<Rightarrow> manager \<Rightarrow> HttpConnection \<Rightarrow> world \<Rightarrow> 'o \<Rightarrow>
     ((string \<times> world) \<times> 'o) outcome" where
  "execution_logged lg jparse jdump what mgr conn w o0 =
     noexcept (obind (lg (On_level trace) ''Routing request'' [id_field (client conn)] [] o0) (\<lambda>o1.
       obind (process_logged (without_args lg) jparse jdump what mgr new_codec (conn_req conn) w o1)
         (\<lambda>(resp, codec, w', o2). Ret ((resp, w'), o2))))"

definition HttpConnection_process_logged ::
    "'o logs \<Rightarrow> (string \<Rightarrow> string) \<Rightarrow> json_parser \<Rightarrow> json_dumper \<Rightarrow> (string \<Rightarrow> string) \<Rightarrow> manager \<Rightarrow> string \<Rightarrow>
     string \<Rightarrow> HttpConnection \<Rightarrow> endpoint \<Rightarrow> world \<Rightarrow> 'o \<Rightarrow>
     ((bool \<times> HttpConnection \<times> endpoint \<times> world) \<times> 'o) outcome" where
  "HttpConnection_process_logged lg val jparse jdump what mgr buf beyond conn ep w o0 =
     obind (lg (On_level trace) ''Processing new request'' [id_field (client conn)] [] o0) (\<lambda>o1.
     obind (HttpConnection_recv_logged lg val jdump buf beyond conn ep w o1) (\<lambda>((good, conn', ep', w'), o2).
     if \<not> good then Ret ((False, conn', ep', w'), o2)
     else
       obind (execution_logged lg jparse jdump what mgr conn' w' o2) (\<lambda>((resp, w2), o3).
       obind (noexcept (HttpConnection_send_logged lg val (client conn') resp ep' o3))
         (\<lambda>((sent, ep2), o4). Ret ((sent, conn', ep2, w2), o4)))))"

definition HttpsConnection_process_logged ::
    "'o logs \<Rightarrow> (string \<Rightarrow> string) \<Rightarrow> json_parser \<Rightarrow> json_dumper \<Rightarrow> (string \<Rightarrow> string) \<Rightarrow> manager \<Rightarrow>
     HttpConnection \<Rightarrow> endpoint \<Rightarrow> world \<Rightarrow> 'o \<Rightarrow>
     ((bool \<times> HttpConnection \<times> endpoint \<times> world) \<times> 'o) outcome" where
  "HttpsConnection_process_logged lg val jparse jdump what mgr conn ep w o0 =
     obind (lg (On_level trace) ''Processing new HTTPS request'' [id_field (client conn)] [] o0) (\<lambda>o1.
     obind (HttpsConnection_recv_logged lg val jdump conn ep w o1) (\<lambda>((good, conn', ep', w'), o2).
     if \<not> good then Ret ((False, conn', ep', w'), o2)
     else
       obind (execution_logged lg jparse jdump what mgr conn' w' o2) (\<lambda>((resp, w2), o3).
       obind (noexcept (HttpsConnection_send_logged lg val (client conn') resp ep' o3))
         (\<lambda>((sent, ep2), o4). Ret ((sent, conn', ep2, w2), o4)))))"

section \<open>Construction and destruction\<close>

definition new_http_logged :: "'o logs \<Rightarrow> ClientConnection \<Rightarrow> nat \<Rightarrow> 'o \<Rightarrow> (HttpConnection \<times> 'o) outcome" where
  "new_http_logged lg cl n o0 =
     obind (lg (On_level debug) ''New HttpConnection created''
             (client_fields cl @ [(''bufsize'', dec n)]) [] o0)
       (\<lambda>o1. Ret (new_connection cl n, o1))"

definition new_https_logged :: "'o logs \<Rightarrow> ClientConnection \<Rightarrow> nat \<Rightarrow> 'o \<Rightarrow> (HttpConnection \<times> 'o) outcome" where
  "new_https_logged lg cl n o0 =
     obind (new_http_logged lg cl n o0) (\<lambda>(conn, o1).
     obind (lg (On_level trace) ''New HttpsConnection created''
             (client_fields (client conn) @ [(''bufsize'', dec n)]) [] o1)
       (\<lambda>o2. Ret (conn, o2)))"

definition closeConnection_logged :: "'o logs \<Rightarrow> int \<Rightarrow> endpoint \<Rightarrow> 'o \<Rightarrow> ((int \<times> endpoint) \<times> 'o) outcome" where
  "closeConnection_logged lg fd ep o0 =
     (if fd > 0 then Ret ((kEmptyDescriptor, close_fd fd ep), o0)
      else
        obind (lg (On_level warning) ''Attempted to close an already invalid socket''
                [(''sockfd'', int_text fd)] [] o0)
          (\<lambda>o1. Ret ((kInvalidSocket, ep), o1)))"

definition HttpConnection_destroy_logged ::
    "'o logs \<Rightarrow> HttpConnection \<Rightarrow> endpoint \<Rightarrow> 'o \<Rightarrow> (endpoint \<times> 'o) outcome" where
  "HttpConnection_destroy_logged lg conn ep o0 =
     obind (closeConnection_logged lg (sockfd (client conn)) ep o0) (\<lambda>((fd, ep'), o1).
     obind (lg (On_level debug) ''Client socket was closed'' (client_fields (client conn)) [] o1) (\<lambda>o2.
     Ret (ClientConnection_destroy ((client conn)\<lparr>sockfd := fd\<rparr>) ep', o2)))"

text \<open>\<open>shut\<close>: whether \<open>SSL_shutdown\<close> did not fail.\<close>

definition HttpsConnection_destroy_logged ::
    "'o logs \<Rightarrow> (string \<Rightarrow> string) \<Rightarrow> bool \<Rightarrow> HttpConnection \<Rightarrow> endpoint \<Rightarrow> 'o \<Rightarrow> (endpoint \<times> 'o) outcome" where
  "HttpsConnection_destroy_logged lg val shut conn ep o0 =
     obind (if shut then Ret o0
            else lg (On_level warning) ''SSL_shutdown did not complete cleanly''
                   [id_field (client conn), (''openssl_error'', val ''openssl_error'')] [] o0) (\<lambda>o1.
     (let ep' = ep\<lparr>ssl_freed := ssl_freed ep + 1\<rparr> in
     obind (lg (On_level debug) ''HttpsConnection destroyed, SSL freed'' [id_field (client conn)] [] o1) (\<lambda>o2.
     HttpConnection_destroy_logged lg conn ep' o2)))"

text \<open>The child processes.\<close>

definition http_worker_logged ::
    "'o logs \<Rightarrow> (string \<Rightarrow> string) \<Rightarrow> json_parser \<Rightarrow> json_dumper \<Rightarrow> (string \<Rightarrow> string) \<Rightarrow> manager \<Rightarrow> string \<Rightarrow>
     string \<Rightarrow> int \<Rightarrow> ClientConnection \<Rightarrow> nat \<Rightarrow> endpoint \<Rightarrow> world \<Rightarrow> 'o \<Rightarrow> (endpoint \<times> 'o) outcome" where
  "http_worker_logged lg val jparse jdump what m buf beyond lsock cl bufsz ep w o0 =
     noexcept (obind (new_http_logged lg cl bufsz o0) (\<lambda>(conn, o1).
       obind (HttpConnection_process_logged lg val jparse jdump what m buf beyond conn (close_fd lsock ep) w o1)
         (\<lambda>((_, conn', ep', _), o2). HttpConnection_destroy_logged lg conn' ep' o2)))"

definition https_worker_logged ::
    "'o logs \<Rightarrow> (string \<Rightarrow> string) \<Rightarrow> bool \<Rightarrow> json_parser \<Rightarrow> json_dumper \<Rightarrow> (string \<Rightarrow> string) \<Rightarrow> manager \<Rightarrow>
     int \<Rightarrow> ClientConnection \<Rightarrow> nat \<Rightarrow> endpoint \<Rightarrow> world \<Rightarrow> 'o \<Rightarrow> (endpoint \<times> 'o) outcome" where
  "https_worker_logged lg val shut jparse jdump what m lsock cl bufsz ep w o0 =
     noexcept (obind (new_https_logged lg cl bufsz o0) (\<lambda>(conn, o1).
       obind (HttpsConnection_process_logged lg val jparse jdump what m conn (close_fd lsock ep) w o1)
         (\<lambda>((_, conn', ep', _), o2). HttpsConnection_destroy_logged lg val shut conn' ep' o2)))"

end
