(* ===== verification/LoggedWorker.thy ===== *)
theory LoggedWorker
  imports LoggedConnection
begin

text \<open>
  What the log statements of \<open>LoggedConnection\<close> change: nothing, unless a record cannot be
  printed.
\<close>

section \<open>A call and its model without log statements\<close>

definition follows :: "bool \<Rightarrow> ('a \<times> 'o) outcome \<Rightarrow> 'a outcome \<Rightarrow> bool" where
  "follows may_end x y \<longleftrightarrow> (may_end \<and> x = Terminate) \<or> obind x (\<lambda>(a, _). Ret a) = y"

lemma follows_Ret: "follows P (Ret (a, o1)) (Ret a)"
  by (simp add: follows_def)

lemma follows_Diverge: "follows P Diverge Diverge"
  by (simp add: follows_def)

lemma follows_obind:
  assumes "follows P x y" "\<And>a o1. follows P (f (a, o1)) (g a)"
  shows "follows P (obind x f) (obind y g)"
proof (cases x)
  case (Ret r)
  obtain a o1 where "r = (a, o1)" by fastforce
  with Ret assms(1) assms(2) [of a o1] show ?thesis by (auto simp: follows_def)
qed (use assms in \<open>auto simp: follows_def\<close>)

lemma follows_noexcept: "follows P x y \<Longrightarrow> follows P (noexcept x) (noexcept y)"
  by (cases x) (auto simp: follows_def)

lemma follows_last: "follows P x y \<Longrightarrow> (\<And>a o1. follows P (f (a, o1)) (Ret a)) \<Longrightarrow> follows P (obind x f) y"
  using follows_obind [of P x y f Ret] by (cases y) auto

lemma answer_cut:
  assumes "\<And>subj msg d o1. cut_short (lg subj msg d o1) (lg' subj msg d o1)"
  shows "cut_short (answer_logged lg jdump mgr c req w o1) (answer_logged lg' jdump mgr c req w o1)"
  unfolding answer_logged_def serialize_logged_def Let_def using assms Route_cut [OF assms]
  by (auto simp: split_beta intro!: cut_intros split: option.split)

lemma process_cut:
  assumes "\<And>subj msg d o1. cut_short (lg subj msg d o1) (lg' subj msg d o1)"
  shows "cut_short (process_logged lg jparse jdump what mgr c raw w o1)
    (process_logged lg' jparse jdump what mgr c raw w o1)"
  unfolding process_logged_def using parse_cut [OF assms] answer_cut [OF assms]
  by (auto simp: split_beta intro!: cut_obind)

locale ending_log =
  fixes lg :: "'o logs" and may_end :: bool
  assumes ends: "(may_end \<and> lg subj msg d args o1 = Terminate) \<or> (\<exists>o2. lg subj msg d args o1 = Ret o2)"
begin

lemma follows_log:
  "(\<And>o2. follows may_end (f o2) y) \<Longrightarrow> follows may_end (obind (lg subj msg d args o1) f) y"
  using ends [of subj msg d args o1] by (elim disjE exE conjE) (simp_all add: follows_def)

lemma follows_process:
  "follows may_end
     (obind (process_logged (without_args lg) jparse jdump what mgr c raw w o1)
       (\<lambda>(resp, c', w', o2). Ret ((resp, c', w'), o2)))
     (process jparse jdump mgr c raw w)"
proof -
  let ?lg = "without_args lg"
  let ?run = "\<lambda>lg. process_logged lg jparse jdump what mgr c raw w o1"
  have cut: "cut_short (?run ?lg) (?run (unfailing ?lg))"
  proof (rule process_cut)
    show "cut_short (?lg subj msg d o2) (unfailing ?lg subj msg d o2)" for subj msg d o2
      using ends [of subj msg d "[]" o2] by (auto simp: cut_short_def unfailing_def without_args_def)
  qed
  have same: "unfailing ?lg = ?lg" if "\<not> may_end"
  proof (intro ext)
    show "unfailing ?lg subj msg d o2 = ?lg subj msg d o2" for subj msg d o2
      using ends [of subj msg d "[]" o2] that by (auto simp: unfailing_def without_args_def)
  qed
  have plain: "obind (obind (?run (unfailing ?lg)) (\<lambda>(resp, c', w', o2). Ret ((resp, c', w'), o2)))
      (\<lambda>(a, _). Ret a) = process jparse jdump mgr c raw w"
    unfolding kept.process_transparent [of ?lg jparse jdump what mgr c raw w o1, symmetric]
    by (cases "?run (unfailing ?lg)") auto
  show ?thesis
  proof (cases may_end)
    case False
    from same [OF this] plain show ?thesis by (simp only: follows_def simp_thms)
  next
    case True
    from cut plain True show ?thesis unfolding follows_def cut_short_def by (elim disjE) simp_all
  qed
qed

lemma follows_serialize:
  "follows may_end (serialize_logged (without_args lg) jdump resp o1) (serialize jdump resp)"
  using ends [of "On_level trace" "''Serializing response''" "[(''status'', dec (http_code (resp_status resp)))]"
      "[]" o1]
  by (auto simp: follows_def serialize_logged_def serialize_def without_args_def split: option.split)

lemmas follows_intros = follows_log follows_Ret follows_Diverge

lemma http_send_follows:
  "follows may_end (http_send_logged lg val cl script resp i out o1) (http_send_loop script resp i out)"
proof (induction script arbitrary: i out o1)
  case Nil
  show ?case
    by (subst http_send_logged.simps, subst http_send_loop.simps) (auto intro!: follows_intros)
next
  case (Cons a script)
  then show ?case
    by (subst http_send_logged.simps, subst http_send_loop.simps, cases a)
       (auto simp: Let_def intro!: follows_intros)
qed

lemma tls_send_follows:
  "follows may_end (tls_send_logged lg val cl script resp i out o1) (tls_send_loop script resp i out)"
proof (induction script arbitrary: i out o1)
  case Nil
  show ?case
    by (subst tls_send_logged.simps, subst tls_send_loop.simps) (auto simp: Let_def intro!: follows_intros)
next
  case (Cons a script)
  then show ?case
    by (subst tls_send_logged.simps, subst tls_send_loop.simps, cases a)
       (auto simp: Let_def intro!: follows_intros)
qed

lemma http_sender_follows:
  "follows may_end (HttpConnection_send_logged lg val cl resp ep o1) (HttpConnection_send resp ep)"
  unfolding HttpConnection_send_logged_def HttpConnection_send_def
  by (rule follows_obind [OF http_send_follows]) (auto intro: follows_Ret)

lemma tls_sender_follows:
  "follows may_end (HttpsConnection_send_logged lg val cl resp ep o1) (HttpsConnection_send resp ep)"
  unfolding HttpsConnection_send_logged_def HttpsConnection_send_def
  by (rule follows_obind [OF tls_send_follows]) (auto intro: follows_Ret)

lemma refuse_follows:
  assumes "\<And>resp ep o1. follows may_end (send' resp ep o1) (send resp ep)"
  shows "follows may_end (refuse_logged lg jdump send' code ep w (lg subj msg d args o1))
    (obind (send_status jdump send code ep w) (\<lambda>(ep2, w2). Ret (None, ep2, w2)))"
  unfolding refuse_logged_def send_status_logged_def send_status_def Let_def
  by (auto simp: split_beta
      intro!: follows_log follows_Ret follows_obind follows_serialize assms)

lemma http_recv_follows:
  "follows may_end (http_recv_logged lg val jdump cl beyond bufsz buf resbytes req ep w o1)
    (http_recv_loop jdump beyond bufsz buf resbytes req ep w)"
proof (induction jdump beyond bufsz buf resbytes req ep w arbitrary: o1 rule: http_recv_loop.induct)
  case (1 jdump beyond bufsz buf resbytes req ep w)
  show ?case
  proof (cases "receive bufsz (arrivals ep)")
    case None
    then show ?thesis by (subst http_recv_logged.simps, subst http_recv_loop.simps) (simp add: follows_Diverge)
  next
    case (Some x)
    obtain a as where x: "x = (a, as)" by fastforce
    show ?thesis
      using "1.IH" [OF Some x [symmetric] refl]
      by (subst http_recv_logged.simps, subst http_recv_loop.simps, cases a)
         (auto simp: Some x Let_def intro!: follows_intros refuse_follows http_sender_follows)
  qed
qed

lemma tls_recv_follows:
  "follows may_end (tls_recv_logged lg val jdump cl bufsz resbytes req ep w o1)
    (tls_recv_loop jdump bufsz resbytes req ep w)"
proof (induction jdump bufsz resbytes req ep w arbitrary: o1 rule: tls_recv_loop.induct)
  case (1 jdump bufsz resbytes req ep w)
  show ?case
  proof (cases "receive bufsz (arrivals ep)")
    case None
    then show ?thesis by (subst tls_recv_logged.simps, subst tls_recv_loop.simps) (simp add: follows_Diverge)
  next
    case (Some x)
    obtain a as where x: "x = (a, as)" by fastforce
    show ?thesis
      using "1.IH" [OF Some x [symmetric] refl]
      by (subst tls_recv_logged.simps, subst tls_recv_loop.simps, cases a)
         (auto simp: Some x Let_def intro!: follows_intros refuse_follows tls_sender_follows)
  qed
qed

lemma execution_follows:
  "follows may_end (execution_logged lg jparse jdump what mgr conn w o1) (execution jparse jdump mgr conn w)"
proof -
  let ?p = "\<lambda>o2. process_logged (without_args lg) jparse jdump what mgr new_codec (conn_req conn) w o2"
  have "obind (?p o2) (\<lambda>(resp, codec, w', o3). Ret ((resp, w'), o3)) =
      obind (obind (?p o2) (\<lambda>(resp, c', w', o3). Ret ((resp, c', w'), o3))) (\<lambda>((resp, c', w'), o3). Ret ((resp, w'), o3))"
    for o2 by (cases "?p o2") auto
  then show ?thesis
    unfolding execution_logged_def execution_def
    by (auto intro!: follows_noexcept follows_log follows_obind follows_process follows_Ret)
qed

lemma http_process_follows:
  "follows may_end (HttpConnection_process_logged lg val jparse jdump what mgr buf beyond conn ep w o1)
    (HttpConnection_process jparse jdump mgr buf beyond conn ep w)"
  unfolding HttpConnection_process_logged_def HttpConnection_process_def
    HttpConnection_recv_logged_def HttpConnection_recv_def
  by (auto split: option.split
      intro!: follows_log follows_noexcept follows_obind http_recv_follows execution_follows http_sender_follows follows_Ret)

lemma https_process_follows:
  "follows may_end (HttpsConnection_process_logged lg val jparse jdump what mgr conn ep w o1)
    (HttpsConnection_process jparse jdump mgr conn ep w)"
  unfolding HttpsConnection_process_logged_def HttpsConnection_process_def
    HttpsConnection_recv_logged_def HttpsConnection_recv_def
  by (auto split: option.split
      intro!: follows_log follows_noexcept follows_obind tls_recv_follows execution_follows tls_sender_follows follows_Ret)

lemma http_destroy_follows:
  "follows may_end (HttpConnection_destroy_logged lg conn ep o1) (Ret (HttpConnection_destroy conn ep))"
  unfolding HttpConnection_destroy_logged_def HttpConnection_destroy_def closeConnection_logged_def
    HttpConnection_closeConnection_def
  by (auto simp: obind_assoc intro!: follows_log follows_Ret)

lemma https_destroy_follows:
  "follows may_end (HttpsConnection_destroy_logged lg val shut conn ep o1) (Ret (HttpsConnection_destroy conn ep))"
  unfolding HttpsConnection_destroy_logged_def HttpsConnection_destroy_def Let_def
  by (auto intro!: follows_log http_destroy_follows)

lemma http_worker_follows:
  "follows may_end (http_worker_logged lg val jparse jdump what m buf beyond lsock cl bufsz ep w o1)
    (http_worker jparse jdump m buf beyond lsock cl bufsz ep w)"
  unfolding http_worker_logged_def http_worker_def new_http_logged_def
  by (auto simp: obind_assoc
      intro!: follows_noexcept follows_log follows_obind http_process_follows http_destroy_follows)

lemma https_worker_follows:
  "follows may_end (https_worker_logged lg val shut jparse jdump what m lsock cl bufsz ep w o1)
    (https_worker jparse jdump m lsock cl bufsz ep w)"
  unfolding https_worker_logged_def https_worker_def new_https_logged_def new_http_logged_def
  by (auto simp: obind_assoc
      intro!: follows_noexcept follows_log follows_obind https_process_follows https_destroy_follows)

end

section \<open>The log system\<close>

text \<open>There is a record that one of the sinks that would get it cannot print.\<close>

definition unprintable :: "log_api \<Rightarrow> log_system \<Rightarrow> bool" where
  "unprintable lapi s \<longleftrightarrow>
     (\<exists>i lg k. logs_at s (li_status i) = Some lg \<and> k \<in> set (sinks lg) \<and> \<not> printable_by lapi i k)"

text \<open>A statement returns, or there is a record of it that one of its sinks cannot print.\<close>

lemma LOG_args_end:
  "(\<exists>o2. LOG_args lapi vformat s at subj msg d args o1 = Ret o2) \<or>
   LOG_args lapi vformat s at subj msg d args o1 = Terminate \<and>
   (\<exists>t lg k. logs_at s (subject_log subj) = Some lg \<and> k \<in> set (sinks lg) \<and>
      \<not> printable_by lapi ((LogStream_new subj (at msg) msg d)\<lparr>li_info := t\<rparr>) k)"
proof (cases "logs_at s (subject_log subj)")
  case None
  then show ?thesis by (auto simp: LOG_args_def LOG_def logs_at_def split: if_splits)
next
  case (Some lg)
  let ?i = "LogStream_new subj (at msg) msg d"
  have "LOG_args lapi vformat s at subj msg d args o1 = LogStream_destroy lapi vformat lg ?i args o1"
    using Some by (simp add: LOG_args_def LOG_def logs_at_def split: if_splits)
  also have "\<dots> = (case (if args \<noteq> [] then vformat msg args else Some msg) of None \<Rightarrow> Ret o1
      | Some t \<Rightarrow> noexcept (log_all lapi (?i\<lparr>li_info := t\<rparr>) (sinks lg) o1))"
    by (simp only: LogStream_destroy_def Logger_log_def) (simp add: LogStream_new_def)
  finally have run: "LOG_args lapi vformat s at subj msg d args o1 = \<dots>" .
  show ?thesis
  proof (cases "if args \<noteq> [] then vformat msg args else Some msg")
    case None
    with run show ?thesis by (simp only: option.case) blast
  next
    case (Some t)
    let ?it = "?i\<lparr>li_info := t\<rparr>"
    note run = run [unfolded Some option.case]
    show ?thesis
    proof (cases "log_all lapi ?it (sinks lg) o1 = Terminate")
      case True
      then have "\<not> list_all (printable_by lapi ?it) (sinks lg)"
        using log_all_end(1) [of lapi ?it "sinks lg" o1] by auto
      then obtain k where "k \<in> set (sinks lg)" "\<not> printable_by lapi ?it k"
        by (auto simp: list_all_iff)
      with True \<open>logs_at s (subject_log subj) = Some lg\<close> show ?thesis by (auto simp: run)
    next
      case False
      then show ?thesis using log_all_cases [of lapi ?it "sinks lg" o1] by (auto simp: run)
    qed
  qed
qed

interpretation logged: ending_log "LOG_args lapi vformat s at" "unprintable lapi s"
  for lapi vformat s at
proof unfold_locales
  fix subj msg d args o1
  have "li_status ((LogStream_new subj (at msg) msg d)\<lparr>li_info := t\<rparr>) = subject_log subj" for t
    by (simp add: LogStream_new_def)
  then show "(unprintable lapi s \<and> LOG_args lapi vformat s at subj msg d args o1 = Terminate) \<or>
      (\<exists>o2. LOG_args lapi vformat s at subj msg d args o1 = Ret o2)"
    using LOG_args_end [of lapi vformat s at subj msg d args o1] unfolding unprintable_def by metis
qed

section \<open>Properties\<close>

text \<open>
  C13. Logging never changes what a worker does. For both kinds of server, every client, every
  state of the log system and of its files, the worker with all its log statements (those of
  the connection, the codec and the router manager) leaves what the worker without them
  leaves, or it ends the process, and then there is a record that a sink cannot print: the
  JSON library refuses it, or the standard output its text.
\<close>
theorem logging_never_changes_a_worker:
  "(obind (http_worker_logged (LOG_args lapi vformat s at) val jparse jdump what m buf beyond lsock cl bufsz ep w o1)
       (\<lambda>(ep', _). Ret ep') = http_worker jparse jdump m buf beyond lsock cl bufsz ep w \<or>
    unprintable lapi s \<and>
    http_worker_logged (LOG_args lapi vformat s at) val jparse jdump what m buf beyond lsock cl bufsz ep w o1 =
      Terminate) \<and>
   (obind (https_worker_logged (LOG_args lapi vformat s at) val shut jparse jdump what m lsock cl bufsz ep w o1)
       (\<lambda>(ep', _). Ret ep') = https_worker jparse jdump m lsock cl bufsz ep w \<or>
    unprintable lapi s \<and>
    https_worker_logged (LOG_args lapi vformat s at) val shut jparse jdump what m lsock cl bufsz ep w o1 =
      Terminate)"
  by (intro conjI; subst disj_commute)
     (rule logged.http_worker_follows [unfolded follows_def] logged.https_worker_follows [unfolded follows_def])+

end
