(* ===== verification/LoggedServer.thy ===== *)
theory LoggedServer
  imports LoggedWorker
begin

text \<open>
  \<open>http_server.{h,cc}\<close> and \<open>https_server.cc\<close> with their log statements: the theories
  \<open>Server\<close> and \<open>Intake\<close> once more. The texts of the system and of OpenSSL that a record
  carries come from \<open>val\<close>, as in \<open>LoggedConnection\<close>. A log statement that ends the process
  ends the call.
\<close>

definition dash :: string where
  "dash = [CHR 0xE2, CHR 0x80, CHR 0x94]"

definition address_fields :: "string \<Rightarrow> string \<Rightarrow> (string \<times> string) list" where
  "address_fields host prt = [(''host'', host), (''port'', prt)]"

section \<open>The server object\<close>

definition HttpServer_new_logged :: "'o logs \<Rightarrow> 'o \<Rightarrow> (http_server \<times> 'o) outcome" where
  "HttpServer_new_logged lg o0 =
     obind (lg (On_level debug) ''HttpServer instance created'' [] [] o0) (\<lambda>o1. Ret (new_server, o1))"

definition freeAddrInfo_logged ::
    "'o logs \<Rightarrow> nat option \<Rightarrow> trace_log \<Rightarrow> 'o \<Rightarrow> ((nat option \<times> trace_log) \<times> 'o) outcome" where
  "freeAddrInfo_logged lg ai l o0 =
     obind (lg (On_level trace) ''Freeing addrinfo'' [] [] o0) (\<lambda>o1.
     Ret ((None, case ai of None \<Rightarrow> l | Some p \<Rightarrow> freeaddrinfo p l), o1))"

definition HttpServer_destroy_logged ::
    "'o logs \<Rightarrow> http_server \<Rightarrow> trace_log \<Rightarrow> 'o \<Rightarrow> (trace_log \<times> 'o) outcome" where
  "HttpServer_destroy_logged lg s l o0 =
     obind (freeAddrInfo_logged lg (servinfo s) l o0) (\<lambda>((_, l1), o1).
     (let (_, l2) = closeConnection (srv_sockfd s) l1 in
     obind (lg (On_level debug) ''HttpServer instance destroyed'' [] [] o1) (\<lambda>o2. Ret (l2, o2))))"

section \<open>Binding\<close>

definition applyOption_logged ::
    "'o logs \<Rightarrow> (string \<Rightarrow> string) \<Rightarrow> sys \<Rightarrow> int \<Rightarrow> nat \<Rightarrow> 'o \<Rightarrow> (bool \<times> 'o) outcome" where
  "applyOption_logged lg val os fd opt o0 =
     (if setsockopt_ret os fd opt = - 1 then
        obind (lg (On_level error) ''Error from ::setsockopt()'' (errno_fields val) [] o0) (\<lambda>o1. Ret (False, o1))
      else Ret (True, o0))"

fun setSockOptions_logged ::
    "'o logs \<Rightarrow> (string \<Rightarrow> string) \<Rightarrow> sys \<Rightarrow> int \<Rightarrow> nat list \<Rightarrow> 'o \<Rightarrow> (bool \<times> 'o) outcome" where
  "setSockOptions_logged lg val os fd [] o0 = Ret (False, o0)"
| "setSockOptions_logged lg val os fd [opt] o0 = applyOption_logged lg val os fd opt o0"
| "setSockOptions_logged lg val os fd (opt # opts) o0 =
     obind (applyOption_logged lg val os fd opt o0) (\<lambda>(_, o1). setSockOptions_logged lg val os fd opts o1)"

function bind_loop_logged ::
    "'o logs \<Rightarrow> (string \<Rightarrow> string) \<Rightarrow> sys \<Rightarrow> nat \<Rightarrow> nat \<Rightarrow> trace_log \<Rightarrow> 'o \<Rightarrow>
     ((bind_result \<times> trace_log) \<times> 'o) outcome" where
  "bind_loop_logged lg val os n p l o0 =
     (if p \<ge> n then Ret ((Exhausted, l), o0)
      else if is_freed p l then Ret ((Use_after_free p, l), o0)
      else
        (let next_p = p + 1; sockfd = socket_ret os p in
         if sockfd = kInvalidSocket then
           obind (lg (On_level warning) ''Error from ::socket(), trying next address'' (errno_fields val) [] o0)
             (\<lambda>o1. bind_loop_logged lg val os n next_p (freeaddrinfo p l) o1)
         else
           obind (setSockOptions_logged lg val os sockfd [SO_REUSEADDR, SO_REUSEPORT] o0) (\<lambda>(success, o1).
           if \<not> success then
             obind (lg (On_level error) ''Error from HttpServer::setSockOptions()'' (errno_fields val) [] o1)
               (\<lambda>o2. Ret ((Options_failed, snd (closeConnection sockfd (freeaddrinfo p l))), o2))
           else if bind_ret os sockfd p = - 1 then
             obind (lg (On_level warning) ''Error from ::bind(), trying next address'' (errno_fields val) [] o1)
               (\<lambda>o2. bind_loop_logged lg val os n next_p (snd (closeConnection sockfd l)) o2)
           else Ret ((Bound p sockfd, l), o1))))"
  by pat_completeness auto
termination by (relation "measure (\<lambda>(_, _, _, n, p, _, _). n - p)") auto

declare bind_loop_logged.simps [simp del]

definition buildSocket_logged ::
    "'o logs \<Rightarrow> (string \<Rightarrow> string) \<Rightarrow> sys \<Rightarrow> http_server \<Rightarrow> string \<Rightarrow> string \<Rightarrow> trace_log \<Rightarrow> 'o \<Rightarrow>
     ((build_result \<times> trace_log) \<times> 'o) outcome" where
  "buildSocket_logged lg val os s host prt l o0 =
     (case gai os (hints s) host prt of
        None \<Rightarrow>
          obind (lg (On_level error) ''Error from ::getaddrinfo()''
                  [(''gai_strerror'', val ''gai_strerror'')] [] o0)
            (\<lambda>o1. Ret ((Build_false, l), o1))
      | Some n \<Rightarrow>
          obind (bind_loop_logged lg val os n 0 l o0) (\<lambda>((r, l'), o1).
          case r of
            Use_after_free p \<Rightarrow> Ret ((Build_undefined p, l'), o1)
          | Options_failed \<Rightarrow> Ret ((Build_false, l'), o1)
          | Exhausted \<Rightarrow>
              obind (lg (On_level critical) ''HttpServer failed to bind to any resolved address''
                      (address_fields host prt) [] o1)
                (\<lambda>o2. Ret ((Build_false, l'), o2))
          | Bound p fd \<Rightarrow>
              obind (lg (On_level debug) ''Socket bound successfully'' [(''sockfd'', int_text fd)] [] o1)
                (\<lambda>o2. Ret ((Built (s\<lparr>servinfo := Some p, srv_sockfd := fd\<rparr>),
                   snd (closeConnection (srv_sockfd s) l')), o2))))"

section \<open>Listening\<close>

definition listenInternal_logged ::
    "'o logs \<Rightarrow> (string \<Rightarrow> string) \<Rightarrow> sys \<Rightarrow> http_server \<Rightarrow> int \<Rightarrow> int \<Rightarrow> 'o \<Rightarrow> (listen_result \<times> 'o) outcome" where
  "listenInternal_logged lg val os s max_connections bufsz o0 =
     (if max_connections \<le> 0 then
        obind (lg (On_level error) ''The number of connections must be greater than 0''
                [(''max_connections'', int_text max_connections)] [] o0)
          (\<lambda>o1. Ret (Refused, o1))
      else if bufsz \<le> 0 then
        obind (lg (On_level error) ''The buffer size must be strictly greater than 0''
                [(''bufsize'', int_text bufsz)] [] o0)
          (\<lambda>o1. Ret (Refused, o1))
      else if listen_ret os (srv_sockfd s) max_connections = - 1 then
        obind (lg (On_level critical) (''Error from ::listen() '' @ dash @ '' server cannot accept connections'')
                (errno_fields val) [] o0)
          (\<lambda>o1. Ret (Refused, o1))
      else
        obind (lg (On_level info) ''Server listening for connections''
                [(''max_connections'', int_text max_connections), (''bufsize'', int_text bufsz)] [] o0)
          (\<lambda>o1. Ret (Serving s (nat bufsz), o1)))"

definition listen_logged ::
    "'o logs \<Rightarrow> (string \<Rightarrow> string) \<Rightarrow> sys \<Rightarrow> http_server \<Rightarrow> string \<Rightarrow> string \<Rightarrow> int \<Rightarrow> int \<Rightarrow> trace_log \<Rightarrow>
     'o \<Rightarrow> ((listen_result \<times> trace_log) \<times> 'o) outcome" where
  "listen_logged lg val os s host prt max_connections bufsz l o0 =
     obind (lg (On_level info) ''Starting HTTP server''
             (address_fields host prt @ [(''max_connections'', int_text max_connections)]) [] o0) (\<lambda>o1.
     obind (buildSocket_logged lg val os s host prt l o1) (\<lambda>((b, l'), o2).
     obind (case b of
              Built s' \<Rightarrow> listenInternal_logged lg val os s' max_connections bufsz o2
            | Build_false \<Rightarrow> Ret (Refused, o2)
            | Build_undefined p \<Rightarrow> Ret (Undefined p, o2)) (\<lambda>(r, o3).
     if r = Refused then
       obind (lg (On_level critical)
               (''HttpServer failed to start listening '' @ dash @ '' server cannot accept connections'')
               (address_fields host prt) [] o3)
         (\<lambda>o4. Ret ((Refused, l'), o4))
     else Ret ((r, l'), o3))))"

section \<open>Accepting a client\<close>

definition acceptConnection_logged ::
    "'o logs \<Rightarrow> (string \<Rightarrow> string) \<Rightarrow> int \<Rightarrow> peer \<Rightarrow> world \<Rightarrow> 'o \<Rightarrow> ((ClientConnection \<times> world) \<times> 'o) outcome" where
  "acceptConnection_logged lg val cli_sock a w o0 =
     (if cli_sock = kInvalidSocket then
        obind (lg (On_level error) ''Error from ::accept()'' (errno_fields val) [] o0)
          (\<lambda>o1. Ret ((default_client, w), o1))
      else
        (let (cli_id, w') = fresh_uuid w;
             cl = \<lparr>client_id = cli_id, sockfd = cli_sock, ip = getIpAddr a,
                   port = unat (ntohs (getSinPort a))\<rparr> in
         obind (lg (On_level info) ''Accepted new client connection'' (client_fields cl) [] o0)
           (\<lambda>o1. Ret ((cl, w'), o1))))"

definition openssl_fields :: "(string \<Rightarrow> string) \<Rightarrow> (string \<times> string) list" where
  "openssl_fields val = [(''OpenSSL_error_code'', val ''OpenSSL_error_code''),
     (''OpenSSL_error_string'', val ''OpenSSL_error_string'')]"

definition sslHandshake_logged ::
    "'o logs \<Rightarrow> (string \<Rightarrow> string) \<Rightarrow> ClientConnection \<Rightarrow> bool \<Rightarrow> int \<Rightarrow> 'o \<Rightarrow> ((bool \<times> nat) \<times> 'o) outcome" where
  "sslHandshake_logged lg val cl ssl_new ssl_accept o0 =
     (if \<not> ssl_new then
        obind (lg (On_level error) ''Failed to allocate SSL object'' (id_field cl # openssl_fields val) [] o0)
          (\<lambda>o1. Ret ((False, 0), o1))
      else if ssl_accept \<le> 0 then
        obind (lg (On_level debug) ''TLS handshake failed''
                (id_field cl # (''client_ip'', ip cl) # openssl_fields val) [] o0)
          (\<lambda>o1. Ret ((False, 1), o1))
      else
        obind (lg (On_level debug) ''TLS handshake successful'' [id_field cl, (''client_ip'', ip cl)] [] o0)
          (\<lambda>o1. Ret ((True, 0), o1)))"

section \<open>The intake cycles\<close>

text \<open>
  What the system answers in one turn: \<open>accept\<close> and the peer's address, \<open>SSL_new\<close> and
  \<open>SSL_accept\<close> (only under TLS), and \<open>fork\<close> (\<open>None\<close>: it failed).
\<close>

record client_event =
  ev_sock :: int
  ev_peer :: peer
  ev_ssl_new :: bool
  ev_ssl_accept :: int
  ev_fork :: "nat option"

definition http_turn_logged ::
    "'o logs \<Rightarrow> (string \<Rightarrow> string) \<Rightarrow> client_event \<Rightarrow> intake \<Rightarrow> world \<Rightarrow> 'o \<Rightarrow> ((intake \<times> world) \<times> 'o) outcome" where
  "http_turn_logged lg val e s w o0 =
     obind (acceptConnection_logged lg val (ev_sock e) (ev_peer e) w o0) (\<lambda>((cl, w'), o1).
     if sockfd cl = kInvalidSocket then
       obind (lg (On_level warning) ''Skipping invalid client connection'' [] [] o1) (\<lambda>o2. Ret ((s, w'), o2))
     else
       obind (lg (On_level trace) ''Dispatching new HttpConnection'' [id_field cl] [] o1) (\<lambda>o2.
       (let s1 = s\<lparr>pc := Dispatching (sockfd cl), fds := sockfd cl # fds s\<rparr> in
        Ret ((case ev_fork e of
                None \<Rightarrow> next_turn (sockfd cl) s1
              | Some _ \<Rightarrow> next_turn (sockfd cl) (fork_child (sockfd cl) s1), w'), o2))))"

definition tls_turn_logged ::
    "'o logs \<Rightarrow> (string \<Rightarrow> string) \<Rightarrow> client_event \<Rightarrow> intake \<Rightarrow> world \<Rightarrow> 'o \<Rightarrow> ((intake \<times> world) \<times> 'o) outcome" where
  "tls_turn_logged lg val e s w o0 =
     obind (acceptConnection_logged lg val (ev_sock e) (ev_peer e) w o0) (\<lambda>((cl, w'), o1).
     if sockfd cl = kInvalidSocket then
       obind (lg (On_level warning) ''Skipping invalid client connection'' [] [] o1) (\<lambda>o2. Ret ((s, w'), o2))
     else
       (let s1 = s\<lparr>pc := Handshaking (sockfd cl), fds := sockfd cl # fds s\<rparr> in
        obind (sslHandshake_logged lg val cl (ev_ssl_new e) (ev_ssl_accept e) o1) (\<lambda>((ssl, _), o2).
        if \<not> ssl then
          obind (lg (On_level debug) ''Secure connection with the client was not established'' [] [] o2)
            (\<lambda>o3. Ret ((next_turn (sockfd cl) s1, w'), o3))
        else
          (let s2 = s1\<lparr>pc := Dispatching (sockfd cl), ssls := ssls s1 + 1\<rparr> in
           obind (lg (On_level trace) ''Dispatching new HttpsConnection'' [id_field cl] [] o2) (\<lambda>o3.
           Ret ((case ev_fork e of
                   None \<Rightarrow> next_turn (sockfd cl) s2
                 | Some _ \<Rightarrow> next_turn (sockfd cl) (fork_child (sockfd cl) s2), w'), o3))))))"

text \<open>The parent in any number of turns, with its log statements and without.\<close>

type_synonym 'o turn = "client_event \<Rightarrow> intake \<Rightarrow> world \<Rightarrow> 'o \<Rightarrow> ((intake \<times> world) \<times> 'o) outcome"

fun intake_logged :: "'o turn \<Rightarrow> client_event list \<Rightarrow> intake \<Rightarrow> world \<Rightarrow> 'o \<Rightarrow> ((intake \<times> world) \<times> 'o) outcome" where
  "intake_logged turn [] s w o0 = Ret ((s, w), o0)"
| "intake_logged turn (e # es) s w o0 =
     obind (turn e s w o0) (\<lambda>((s', w'), o1). intake_logged turn es s' w' o1)"

definition http_event_turn :: "client_event \<Rightarrow> intake \<times> world \<Rightarrow> intake \<times> world" where
  "http_event_turn e = (\<lambda>(s, w). (http_turn (ev_sock e) (ev_fork e) s,
     snd (acceptConnection (ev_sock e) (ev_peer e) w)))"

definition tls_event_turn :: "client_event \<Rightarrow> intake \<times> world \<Rightarrow> intake \<times> world" where
  "tls_event_turn e = (\<lambda>(s, w).
     (tls_turn (ev_sock e) (fst (sslHandshake (ev_ssl_new e) (ev_ssl_accept e))) (ev_fork e) s,
      snd (acceptConnection (ev_sock e) (ev_peer e) w)))"

section \<open>The TLS server object\<close>

text \<open>
  The constructor; the base class is made first. An exception is not caught in the program,
  so that the process ends where it is thrown.
\<close>

definition HttpsServer_new_logged ::
    "'o logs \<Rightarrow> (string \<Rightarrow> string) \<Rightarrow> tls_api \<Rightarrow> string \<Rightarrow> string \<Rightarrow> 'o \<Rightarrow> (http_server \<times> 'o) outcome" where
  "HttpsServer_new_logged lg val api cert key o0 =
     (let cannot = '' '' @ dash @ '' server cannot start in HTTPS mode'';
          reasons = [(''OpenSSL_error_code'', val ''OpenSSL_error_code''), (''OpenSSL_error_string'', ssl_err api)];
          fail = (\<lambda>msg fields text o1. obind (lg (On_level critical) msg fields [] o1)
            (\<lambda>_. Raise (Runtime_error text))) in
      obind (HttpServer_new_logged lg o0) (\<lambda>(s, o1).
      obind (lg (On_level debug) ''Initializing TLS context'' [] [] o1) (\<lambda>o2.
      if \<not> ctx_new api then fail (''Failed to create SSL_CTX object'' @ cannot) reasons (ssl_err api) o2
      else if use_certificate api cert \<le> 0 then
        fail (''Failed to load certificate file'' @ cannot) ((''cert_path'', cert) # reasons) (ssl_err api) o2
      else if use_private_key api key \<le> 0 then
        fail (''Failed to load private key file'' @ cannot) ((''key_path'', key) # reasons) (ssl_err api) o2
      else if \<not> check_private_key api then fail key_mismatch [] key_mismatch o2
      else
        obind (lg (On_level info) ''TLS context initialized successfully'' [(''cert_path'', cert)] [] o2)
          (\<lambda>o3. Ret (s, o3)))))"

definition HttpsServer_destroy_logged ::
    "'o logs \<Rightarrow> http_server \<Rightarrow> nat \<Rightarrow> trace_log \<Rightarrow> 'o \<Rightarrow> ((nat \<times> trace_log) \<times> 'o) outcome" where
  "HttpsServer_destroy_logged lg s ctx_frees l o0 =
     obind (lg (On_level debug) ''HttpsServer destroyed, SSL_CTX freed'' [] [] o0) (\<lambda>o1.
     obind (HttpServer_destroy_logged lg s l o1) (\<lambda>(l', o2). Ret ((ctx_frees + 1, l'), o2)))"

section \<open>The servers and their models without log statements\<close>

text \<open>The names of the fields in the records of the servers.\<close>

definition record_keys :: "string list" where
  "record_keys = [''client_id'', ''client_ip'', ''client_port'', ''host'', ''port'', ''max_connections'',
     ''bufsize'', ''sockfd'', ''errno'', ''strerror'', ''gai_strerror'', ''OpenSSL_error_code'',
     ''OpenSSL_error_string'', ''cert_path'', ''key_path'', ''path'']"

definition fields_ok :: "(string \<Rightarrow> bool) \<Rightarrow> (string \<times> string) list \<Rightarrow> bool" where
  "fields_ok clean d \<longleftrightarrow> list_all (\<lambda>(k, v). k \<in> set record_keys \<and> clean v) d"

lemma fields_ok_simps [simp]:
  "fields_ok clean []"
  "fields_ok clean ((k, v) # d) \<longleftrightarrow> k \<in> set record_keys \<and> clean v \<and> fields_ok clean d"
  "fields_ok clean (d @ d') \<longleftrightarrow> fields_ok clean d \<and> fields_ok clean d'"
  by (simp_all add: fields_ok_def)

text \<open>
  \<open>clean\<close> is a set of texts: a record whose fields have clean values is logged, or the log
  statement ends the process and \<open>may_end\<close> holds. Numbers are clean.
\<close>

lemma follows_value:
  assumes "follows P x (Ret a)" "\<And>o1. follows P (f (a, o1)) y"
  shows "follows P (obind x f) y"
proof (cases x)
  case (Ret r)
  with assms(1) obtain o1 where "r = (a, o1)" by (cases r) (simp add: follows_def)
  with Ret assms(2) [of o1] show ?thesis by simp
qed (use assms(1) in \<open>simp_all add: follows_def\<close>)

locale clean_log =
  fixes lg :: "'o logs" and may_end :: bool and clean :: "string \<Rightarrow> bool"
  assumes ends: "fields_ok clean d \<Longrightarrow>
      (may_end \<and> lg (On_level lvl) msg d args o1 = Terminate) \<or> (\<exists>o2. lg (On_level lvl) msg d args o1 = Ret o2)"
    and clean_dec: "clean (dec n)" and clean_minus: "clean (''-'' @ dec n)"
begin

lemma clean_log:
  assumes "fields_ok clean d" "\<And>o2. follows may_end (f o2) y"
  shows "follows may_end (obind (lg (On_level lvl) msg d args o1) f) y"
  using ends [OF assms(1), of lvl msg args o1] assms(2) by (elim disjE exE conjE) (simp_all add: follows_def)

lemma clean_int: "clean (int_text i)"
  using clean_dec clean_minus by (simp add: int_text_def)

text \<open>The texts of the system, and those of a client.\<close>

lemma clean_errno: "(\<And>k. clean (val k)) \<Longrightarrow> fields_ok clean (errno_fields val)"
  by (simp add: errno_fields_def record_keys_def)

lemma clean_openssl: "(\<And>k. clean (val k)) \<Longrightarrow> fields_ok clean (openssl_fields val)"
  by (simp add: openssl_fields_def record_keys_def)

lemma clean_client: "clean (client_id cl) \<Longrightarrow> clean (ip cl) \<Longrightarrow> fields_ok clean (client_fields cl)"
  by (simp add: client_fields_def id_field_def clean_dec record_keys_def)

lemmas clean_intros = clean_log follows_Ret clean_errno clean_openssl clean_client

lemma options_follow:
  assumes "\<And>k. clean (val k)"
  shows "follows may_end (setSockOptions_logged lg val os fd opts o0) (Ret (setSockOptions os fd opts))"
proof (induction os fd opts arbitrary: o0 rule: setSockOptions.induct)
  case (2 os fd opt)
  show ?case by (auto simp: applyOption_logged_def applyOption_def intro!: clean_intros assms)
next
  case (3 os fd opt opt' opts)
  then show ?case
    by (auto simp: applyOption_logged_def obind_assoc intro!: clean_intros assms)
qed (simp add: follows_Ret)

lemma bind_loop_follows:
  assumes "\<And>k. clean (val k)"
  shows "follows may_end (bind_loop_logged lg val os n p l o0) (Ret (bind_loop os n p l))"
proof (induction os n p l arbitrary: o0 rule: bind_loop.induct)
  case (1 os n p l)
  then show ?case
    by (subst bind_loop_logged.simps, subst bind_loop.simps)
       (auto simp: Let_def simp del: setSockOptions_logged.simps setSockOptions.simps
         intro!: clean_intros follows_value [OF options_follow] assms)
qed

lemma build_follows:
  assumes "\<And>k. clean (val k)" "clean host" "clean prt"
  shows "follows may_end (buildSocket_logged lg val os s host prt l o0) (Ret (buildSocket os s host prt l))"
proof (cases "gai os (hints s) host prt")
  case None
  then show ?thesis
    by (auto simp: buildSocket_logged_def buildSocket_def record_keys_def intro!: clean_intros assms)
next
  case (Some n)
  obtain r l' where "bind_loop os n 0 l = (r, l')" by fastforce
  with Some assms show ?thesis
    by (cases r)
       (auto simp: buildSocket_logged_def buildSocket_def address_fields_def clean_int record_keys_def
         intro!: clean_intros follows_value [OF bind_loop_follows])
qed

lemma listen_internal_follows:
  assumes "\<And>k. clean (val k)"
  shows "follows may_end (listenInternal_logged lg val os s mc bufsz o0) (Ret (listenInternal os s mc bufsz))"
  using assms by (auto simp: listenInternal_logged_def listenInternal_def clean_int record_keys_def intro!: clean_intros)

lemma listen_follows:
  assumes "\<And>k. clean (val k)" "clean host" "clean prt"
  shows "follows may_end (listen_logged lg val os s host prt mc bufsz l o0) (Ret (listen os s host prt mc bufsz l))"
proof -
  obtain b l' where build: "buildSocket os s host prt l = (b, l')" by fastforce
  let ?r = "case b of Built s' \<Rightarrow> listenInternal os s' mc bufsz | Build_false \<Rightarrow> Refused | Build_undefined p \<Rightarrow> Undefined p"
  have "follows may_end (case b of
      Built s' \<Rightarrow> listenInternal_logged lg val os s' mc bufsz o2
    | Build_false \<Rightarrow> Ret (Refused, o2) | Build_undefined p \<Rightarrow> Ret (Undefined p, o2)) (Ret ?r)" for o2
    by (cases b) (auto intro: listen_internal_follows follows_Ret assms(1))
  moreover have "listen os s host prt mc bufsz l = (?r, l')"
    by (cases b) (simp_all add: listen_def build)
  ultimately show ?thesis
    using assms build_follows [OF assms, where os = os and s = s and l = l]
    by (auto simp: listen_logged_def address_fields_def clean_int build record_keys_def
        intro!: clean_intros follows_value [of may_end _ "(b, l')"] follows_value [of may_end _ ?r])
qed

lemma new_server_follows: "follows may_end (HttpServer_new_logged lg o0) (Ret new_server)"
  by (auto simp: HttpServer_new_logged_def intro!: clean_intros)

lemma destroy_follows: "follows may_end (HttpServer_destroy_logged lg s l o0) (Ret (HttpServer_destroy s l))"
  by (auto simp: HttpServer_destroy_logged_def HttpServer_destroy_def freeAddrInfo_logged_def freeAddrInfo_def
      obind_assoc Let_def split_beta intro!: clean_intros)

lemma tls_destroy_follows:
  "follows may_end (HttpsServer_destroy_logged lg s n l o0) (Ret (HttpsServer_destroy s n l))"
  by (auto simp: HttpsServer_destroy_logged_def HttpsServer_destroy_def
      intro!: clean_intros follows_value [OF destroy_follows])

lemma tls_new_follows:
  assumes "\<And>k. clean (val k)" "clean (ssl_err api)" "clean cert" "clean key"
  shows "follows may_end (HttpsServer_new_logged lg val api cert key o0) (HttpsServer_new api cert key)"
proof -
  have raise: "follows may_end (obind (lg (On_level lvl) msg d [] o1) (\<lambda>_. Raise e)) (Raise e)"
    if "fields_ok clean d" for lvl msg d o1 and e :: exn
    using that by (intro clean_log) (simp_all add: follows_def)
  show ?thesis
    unfolding HttpsServer_new_logged_def Let_def
    by (rule follows_value [OF new_server_follows])
       (use assms in \<open>auto simp: HttpsServer_new_def record_keys_def intro!: clean_intros raise\<close>)
qed

end

text \<open>The same with a system whose texts are clean, and identifiers that are.\<close>

locale clean_system = clean_log lg may_end clean
  for lg :: "'o logs" and may_end :: bool and clean :: "string \<Rightarrow> bool" +
  fixes val :: "string \<Rightarrow> string"
  assumes clean_val: "clean (val k)" and clean_uuid: "clean (fst (fresh_uuid w))"
begin

lemma accept_follows:
  assumes "clean (getIpAddr a)"
  shows "follows may_end (acceptConnection_logged lg val fd a w o0) (Ret (acceptConnection fd a w))"
  using assms clean_val clean_uuid [of w]
  by (auto simp: acceptConnection_logged_def acceptConnection_def Let_def split_beta intro!: clean_intros)

lemma handshake_follows:
  assumes "clean (ip cl)" "clean (client_id cl)"
  shows "follows may_end (sslHandshake_logged lg val cl n a o0) (Ret (sslHandshake n a))"
  using assms clean_val clean_openssl [of val]
  by (auto simp: sslHandshake_logged_def sslHandshake_def id_field_def record_keys_def intro!: clean_intros)

lemma accepted:
  "fst (acceptConnection fd a w) = (if fd = kInvalidSocket then default_client
     else \<lparr>client_id = fst (fresh_uuid w), sockfd = fd, ip = getIpAddr a, port = unat (ntohs (getSinPort a))\<rparr>)"
  by (simp add: acceptConnection_def split_beta Let_def)

lemma http_turn_follows:
  assumes "clean (getIpAddr (ev_peer e))"
  shows "follows may_end (http_turn_logged lg val e s w o0) (Ret (http_event_turn e (s, w)))"
  unfolding http_turn_logged_def
  by (rule follows_value [OF accept_follows [OF assms]])
     (auto simp: http_event_turn_def http_turn_def accepted split_beta Let_def default_client_def id_field_def
        clean_uuid record_keys_def intro!: clean_intros split: option.split)

lemma tls_turn_follows:
  assumes "clean (getIpAddr (ev_peer e))"
  shows "follows may_end (tls_turn_logged lg val e s w o0) (Ret (tls_event_turn e (s, w)))"
  unfolding tls_turn_logged_def
  by (rule follows_value [OF accept_follows [OF assms]])
     (auto simp: tls_event_turn_def tls_turn_def accepted split_beta Let_def default_client_def id_field_def
        clean_uuid assms record_keys_def intro!: clean_intros follows_value [OF handshake_follows] split: option.split)

lemma intake_follows:
  assumes "\<And>e s w o1. e \<in> set es \<Longrightarrow> follows may_end (turn e s w o1) (Ret (plain e (s, w)))"
  shows "follows may_end (intake_logged turn es s w o1) (Ret (fold plain es (s, w)))"
  using assms
proof (induction es arbitrary: s w o1)
  case (Cons e es)
  obtain s' w' where "plain e (s, w) = (s', w')" by fastforce
  with Cons.IH [of s' w'] Cons.prems show ?case
    by (auto intro!: follows_value [OF Cons.prems [of e]])
qed (simp add: follows_Ret)

end

section \<open>The log system\<close>

text \<open>On the log system every text is clean, as long as a statement may end the process.\<close>

interpretation any_text: clean_system "LOG_args lapi vformat s at" "unprintable lapi s" "\<lambda>_. True" val
  for lapi vformat s at val
  by unfold_locales (use logged.ends in auto)

text \<open>
  The JSON library refuses text that is not UTF-8; it prints a record of ASCII texts. With
  places and times that are ASCII and a standard output that takes what is printed, no
  statement over ASCII texts ends the process.
\<close>

definition ascii :: "string \<Rightarrow> bool" where
  "ascii t \<longleftrightarrow> list_all (\<lambda>c. (of_char c :: nat) < 128) t"

definition ascii_record :: "LogInfo \<Rightarrow> bool" where
  "ascii_record i \<longleftrightarrow> ascii (li_timepoint i) \<and> ascii (li_file i) \<and>
     list_all (\<lambda>(k, v). ascii k \<and> ascii v) (li_details i)"

definition prints_ascii :: "log_api \<Rightarrow> (string \<Rightarrow> location) \<Rightarrow> bool" where
  "prints_ascii lapi at \<longleftrightarrow> (\<forall>i. ascii_record i \<longrightarrow> dump_line lapi (log_json i) \<noteq> None) \<and>
     (\<forall>out t. stdout_takes lapi out t) \<and>
     (\<forall>msg. ascii (loc_file (at msg)) \<and> ascii (loc_time (at msg)))"

lemma ascii_append [simp]: "ascii (s @ t) \<longleftrightarrow> ascii s \<and> ascii t"
  by (simp add: ascii_def)

lemma ascii_chars: "set t \<subseteq> set ''0123456789abcdef-'' \<Longrightarrow> ascii t"
proof -
  have "list_all (\<lambda>c. (of_char c :: nat) < 128) ''0123456789abcdef-''" by code_simp
  then show "set t \<subseteq> set ''0123456789abcdef-'' \<Longrightarrow> ascii t"
    unfolding ascii_def list_all_iff by blast
qed

lemma ascii_minus: "ascii (CHR ''-'' # t) \<longleftrightarrow> ascii t"
proof -
  have "(of_char (CHR ''-'') :: nat) < 128" by code_simp
  then show ?thesis by (simp add: ascii_def)
qed

lemma ascii_dec: "ascii (dec n)"
  by (rule ascii_chars, rule subset_trans, rule dec_digits) code_simp

lemma ascii_uuid: "ascii (fst (fresh_uuid w))"
proof -
  have field: "ascii (uuid_field k n m x)" for k n m x
    by (rule ascii_chars, rule subset_trans, rule uuid_field_digits) code_simp
  then show ?thesis by (simp add: fresh_uuid_def generate_uuid_v4_def Let_def ascii_minus)
qed

lemma record_keys_ascii: "k \<in> set record_keys \<Longrightarrow> ascii k"
proof -
  have "list_all ascii record_keys" by code_simp
  then show "k \<in> set record_keys \<Longrightarrow> ascii k" by (simp add: list_all_iff)
qed

lemma ascii_printable: "prints_ascii lapi at \<Longrightarrow> ascii_record i \<Longrightarrow> printable_by lapi i k"
  by (cases k) (simp_all add: prints_ascii_def printable_by_def formats_def)

interpretation ascii_log: clean_log "LOG_args lapi vformat s at" "\<not> prints_ascii lapi at" ascii
  for lapi vformat s at
proof unfold_locales
  fix d lvl msg args o1
  assume "fields_ok ascii d"
  then have "ascii_record ((LogStream_new (On_level lvl) (at msg) msg d)\<lparr>li_info := t\<rparr>)"
    if "prints_ascii lapi at" for t
    using that record_keys_ascii
    by (auto simp: ascii_record_def LogStream_new_def fields_ok_def prints_ascii_def list_all_iff)
  then show "\<not> prints_ascii lapi at \<and> LOG_args lapi vformat s at (On_level lvl) msg d args o1 = Terminate \<or>
      (\<exists>o2. LOG_args lapi vformat s at (On_level lvl) msg d args o1 = Ret o2)"
    using LOG_args_end [of lapi vformat s at "On_level lvl" msg d args o1]
    ascii_printable by blast
next
  show "ascii (dec n)" for n by (rule ascii_dec)
  show "ascii (''-'' @ dec n)" for n by (simp add: ascii_minus ascii_dec)
qed

section \<open>Properties\<close>

text \<open>
  C15. No client can end the server through its log. Let the JSON library print records of ASCII
  texts and the standard output take what is printed, and let the texts of the system and the addresses of the clients be ASCII. Whatever
  the log system writes to, after any number of turns of either intake cycle, whoever
  connects and whatever \<open>accept\<close>, the handshake and \<open>fork\<close> answer, the parent with its
  log statements is where the parent without them is. (A worker that logs the bytes of a
  request can be ended by its client.)
\<close>
theorem clients_cannot_end_server:
  assumes "prints_ascii lapi at" and "\<And>k. ascii (val k)"
    and "\<And>e. e \<in> set es \<Longrightarrow> ascii (getIpAddr (ev_peer e))"
  shows "(\<exists>o2. intake_logged (http_turn_logged (LOG_args lapi vformat s at) val) es st w o1 =
            Ret (fold http_event_turn es (st, w), o2)) \<and>
         (\<exists>o2. intake_logged (tls_turn_logged (LOG_args lapi vformat s at) val) es st w o1 =
            Ret (fold tls_event_turn es (st, w), o2))"
proof -
  let ?lg = "LOG_args lapi vformat s at"
  have sys: "clean_system ?lg (\<not> prints_ascii lapi at) ascii val"
    by (intro clean_system.intro clean_system_axioms.intro ascii_log.clean_log_axioms assms(2) ascii_uuid)
  have exact: "\<exists>o2. x = Ret (y, o2)" if "follows (\<not> prints_ascii lapi at) x (Ret y)"
    for x :: "((intake \<times> world) \<times> outputs) outcome" and y
    using that assms(1) by (auto simp: follows_def obind_Ret_iff)
  show ?thesis
    using assms(3)
    by (intro conjI exact clean_system.intake_follows [OF sys]
        clean_system.http_turn_follows [OF sys] clean_system.tls_turn_follows [OF sys])
qed

definition sample_event :: client_event where
  "sample_event = \<lparr>ev_sock = 5,
     ev_peer = \<lparr>sa_family = AF_INET, sin_port = 0, sin_addr = [127, 0, 0, 1], sin6_addr = [],
       inet_ntop = (\<lambda>_ _. Some ''127'')\<rparr>,
     ev_ssl_new = True, ev_ssl_accept = 1, ev_fork = Some 99\<rparr>"

theorem clients_cannot_end_server_witness:
  "\<exists>o2. intake_logged (tls_turn_logged (LOG_args (sample_api (\<lambda>_. Some ''{}'')) (\<lambda>_ _. None) (sample_system Format_json) nowhere)
      (\<lambda>_. ''?'')) [sample_event] (intake_start 3) sample_world sample_outputs = Ret
     ((tls_turn 5 True (Some 99) (intake_start 3), snd (acceptConnection 5 (ev_peer sample_event) sample_world)), o2)"
proof -
  have "ascii ''?''" "ascii ''127''" "ascii []" by code_simp+
  then have "prints_ascii (sample_api (\<lambda>_. Some ''{}'')) nowhere" "ascii ((\<lambda>_. ''?'') k)"
      "e \<in> set [sample_event] \<Longrightarrow> ascii (getIpAddr (ev_peer e))" for k :: string and e
    by (simp_all add: prints_ascii_def sample_api_def nowhere_def sample_event_def getIpAddr_def)
  note conjunct2 [OF clients_cannot_end_server [OF this]]
  moreover have "fold tls_event_turn [sample_event] (intake_start 3, sample_world) =
      (tls_turn 5 True (Some 99) (intake_start 3), snd (acceptConnection 5 (ev_peer sample_event) sample_world))"
    by (simp add: tls_event_turn_def sslHandshake_def) (simp add: sample_event_def)
  ultimately show ?thesis by metis
qed

end
