(* ===== verification/Watcher.thy ===== *)
theory Watcher
  imports LogSystem
begin

text \<open>
  \<open>src/src/logging/src/config/impl/macos.cc\<close>: the body of the watcher's thread. What
  \<open>kevent\<close> and \<open>fcntl\<close> answer is a script; an event carries what the callback finds when
  it is called (\<open>'e\<close>: the files, the clock), and the callback maps a state to its outcome
  and the new state. With \<open>LogManager::Init\<close> as the callback, as \<open>LogSystem\<close> sets it, this
  says which configuration is in force after any sequence of events.
\<close>

section \<open>The thread\<close>

text \<open>
  \<open>Vnode w p e\<close>: an event of the watched file, \<open>w\<close> says whether \<open>NOTE_WRITE\<close> is set, \<open>p\<close> is
  the path the descriptor has (\<open>None\<close>: \<open>fcntl\<close> failed).
\<close>

datatype 'e kevent =
    Kevent_failed            \<comment> \<open>the call returned \<open>-1\<close>\<close>
  | No_event                 \<comment> \<open>the call returned \<open>0\<close>\<close>
  | Event_error              \<comment> \<open>\<open>EV_ERROR\<close> is set\<close>
  | Vnode bool "string option" 'e
  | User_event               \<comment> \<open>what \<open>Stop\<close> triggers\<close>
  | Other_event              \<comment> \<open>a filter the switch has no case for\<close>

text \<open>The state at the end and the events left; \<open>Diverge\<close>: the thread still waits.\<close>

fun Watcher_Run ::
    "('e \<Rightarrow> string \<Rightarrow> 's \<Rightarrow> bool outcome \<times> 's) \<Rightarrow> 'e kevent list \<Rightarrow> 's \<Rightarrow>
     ('s \<times> 'e kevent list) outcome" where
  "Watcher_Run sh [] s = Diverge"
| "Watcher_Run sh (Kevent_failed # es) s = Ret (s, es)"
| "Watcher_Run sh (No_event # es) s = Watcher_Run sh es s"
| "Watcher_Run sh (Event_error # es) s = Ret (s, es)"
| "Watcher_Run sh (Vnode w p e # es) s =
     (if \<not> w then Watcher_Run sh es s
      else
        (case p of
           None \<Rightarrow> Watcher_Run sh es s
         | Some path \<Rightarrow>
             (case sh e path s of
                (Ret _, s') \<Rightarrow> Watcher_Run sh es s'
              | (Raise _, s') \<Rightarrow> Watcher_Run sh es s'
              | (Terminate, s') \<Rightarrow> Terminate
              | (Diverge, s') \<Rightarrow> Diverge)))"
| "Watcher_Run sh (User_event # es) s = Ret (s, es)"
| "Watcher_Run sh (Other_event # es) s = Watcher_Run sh es s"

section \<open>What the thread promises\<close>

fun ends_thread :: "'e kevent \<Rightarrow> bool" where
  "ends_thread Kevent_failed = True"
| "ends_thread Event_error = True"
| "ends_thread User_event = True"
| "ends_thread _ = False"

text \<open>The writes among the events, each with the path it is reported under.\<close>

fun updates :: "'e kevent list \<Rightarrow> ('e \<times> string) list" where
  "updates [] = []"
| "updates (Vnode w p e # es) = (case p of Some path \<Rightarrow> if w then (e, path) # updates es else updates es | None \<Rightarrow> updates es)"
| "updates (_ # es) = updates es"

text \<open>The states the callback leaves, one call after the other.\<close>

definition run_all ::
    "('e \<Rightarrow> string \<Rightarrow> 's \<Rightarrow> bool outcome \<times> 's) \<Rightarrow> ('e \<times> string) list \<Rightarrow> 's \<Rightarrow> 's" where
  "run_all sh us s = fold (\<lambda>(e, path) s. snd (sh e path s)) us s"

text \<open>The events before the one that ends the thread, and those behind it.\<close>

definition handled :: "'e kevent list \<Rightarrow> 'e kevent list" where
  "handled es = takeWhile (\<lambda>e. \<not> ends_thread e) es"

definition unread :: "'e kevent list \<Rightarrow> 'e kevent list" where
  "unread es = tl (dropWhile (\<lambda>e. \<not> ends_thread e) es)"

text \<open>The interface the thread relies on: a callback that returns or throws.\<close>

locale returning_callback =
  fixes sh :: "'e \<Rightarrow> string \<Rightarrow> 's \<Rightarrow> bool outcome \<times> 's"
  assumes returns: "fst (sh e path s) \<noteq> Terminate \<and> fst (sh e path s) \<noteq> Diverge"
begin

lemma callback_case:
  "(case sh e path s of (Ret _, s') \<Rightarrow> f s' | (Raise _, s') \<Rightarrow> f s' | (Terminate, s') \<Rightarrow> Terminate
     | (Diverge, s') \<Rightarrow> Diverge) = f (snd (sh e path s))"
  using returns [of e path s] by (auto split: prod.splits outcome.splits)

lemma run_eq:
  "Watcher_Run sh es s =
   (if \<exists>e \<in> set es. ends_thread e then Ret (run_all sh (updates (handled es)) s, unread es) else Diverge)"
proof (induction es arbitrary: s)
  case (Cons ev es)
  show ?case
  proof (cases ev)
    case (Vnode w p e)
    then show ?thesis
      using Cons.IH by (cases p) (simp_all add: callback_case run_all_def handled_def unread_def)
  qed (simp_all add: Cons.IH run_all_def handled_def unread_def)
qed simp

end

section \<open>The callback of the log system\<close>

text \<open>\<open>lm_->Init(p)\<close> with the files and the clock as they are when it is called.\<close>

definition config_callback ::
    "'n yaml_api \<times> (string \<Rightarrow> bool) \<times> string \<Rightarrow> string \<Rightarrow> log_manager \<Rightarrow> bool outcome \<times> log_manager" where
  "config_callback e path l = (case e of (y, opens, default_path) \<Rightarrow> LogManager_Init y opens default_path path l)"

text \<open>What \<open>ParseLogConfig\<close> returns does not depend on the manager.\<close>

lemma ParseLogConfig_fst:
  "fst (ParseLogConfig y opens d path l) = fst (ParseLogConfig y opens d path l')"
  by (auto simp: ParseLogConfig_def as_bool_def split: option.split bool.split)

lemma ParseLogConfig_logger: "lm_logger (snd (ParseLogConfig y opens d path l)) = lm_logger l"
  by (auto simp: ParseLogConfig_def as_bool_def LogManager_Pause_def LogManager_Remain_def
      split: option.split bool.split)

text \<open>The logger that one reading of the file gives, if it gives one.\<close>

definition new_logger :: "('n yaml_api \<times> (string \<Rightarrow> bool) \<times> string) \<times> string \<Rightarrow> Logger option" where
  "new_logger u = (case u of ((y, opens, default_path), path) \<Rightarrow>
     (case fst (ParseLogConfig y opens default_path path fresh_manager) of Ret r \<Rightarrow> r | _ \<Rightarrow> None))"

lemma config_callback_effect:
  "settles (fst (config_callback e path l))"
  "lm_logger (snd (config_callback e path l)) =
     (case new_logger (e, path) of None \<Rightarrow> lm_logger l | Some lg \<Rightarrow> Some lg)"
proof -
  obtain y opens d where e: "e = (y, opens, d)" by (cases e)
  obtain r l' where p: "ParseLogConfig y opens d path l = (r, l')" by fastforce
  have "settles r" "lm_logger l' = lm_logger l" "fst (ParseLogConfig y opens d path fresh_manager) = r"
    using settles_ParseLogConfig [where l = l] ParseLogConfig_fst [where l = l]
      ParseLogConfig_logger [where l = l] p
    by (metis fst_conv snd_conv)+
  then show "settles (fst (config_callback e path l))"
    "lm_logger (snd (config_callback e path l)) =
     (case new_logger (e, path) of None \<Rightarrow> lm_logger l | Some lg \<Rightarrow> Some lg)"
    by (cases r; auto simp: config_callback_def e LogManager_Init_def p new_logger_def split: option.split)+
qed

interpretation config: returning_callback config_callback
  using config_callback_effect(1) by unfold_locales (simp add: settles_def)

lemma run_all_logger:
  "lm_logger (run_all config_callback us l) =
   last (lm_logger l # filter (\<lambda>r. r \<noteq> None) (map new_logger us))"
proof (induction us arbitrary: l)
  case (Cons u us)
  obtain e path where u: "u = (e, path)" by (cases u)
  show ?case
    using Cons.IH [of "snd (config_callback e path l)"] config_callback_effect(2) [of e path l]
    by (cases "new_logger (e, path)") (simp_all add: run_all_def u)
qed (simp add: run_all_def)

section \<open>Properties\<close>

text \<open>
  C31. The watcher's thread ends and misses nothing: with a callback that returns or throws, it
  waits as long as nothing ends it, and returns at the first event that does (\<open>Stop\<close>
  triggers one), having called the callback once for every write before that event whose
  path could be found, in order, whatever other events came between and whatever the
  callback threw.
\<close>
theorem watcher_thread_returns:
  assumes "\<And>e path s. fst (sh e path s) \<noteq> Terminate \<and> fst (sh e path s) \<noteq> Diverge"
    and "\<forall>ev \<in> set es. \<not> ends_thread ev" and "ends_thread stop"
  shows "Watcher_Run sh (es @ stop # rest) s = Ret (run_all sh (updates es) s, rest) \<and>
    Watcher_Run sh es s = Diverge"
proof -
  have sh: "returning_callback sh" using assms(1) by (rule returning_callback.intro)
  have "takeWhile (\<lambda>ev. \<not> ends_thread ev) (es @ stop # rest) = es"
    "dropWhile (\<lambda>ev. \<not> ends_thread ev) (es @ stop # rest) = stop # rest"
    using assms(2,3) by (simp_all add: takeWhile_append2 dropWhile_append2)
  then show ?thesis using assms(2,3) 
    by (auto simp: returning_callback.run_eq [OF sh] handled_def unread_def)
qed

text \<open>
  C30. The last good configuration is in force: after any events, when the thread has ended, the
  logger is the one of the last readable configuration among those it was told of, or the
  one before when none of them was; a broken file never takes logging away.
\<close>
theorem last_good_configuration_wins:
  assumes "Watcher_Run config_callback es l = Ret (l', rest)"
  shows "lm_logger l' =
    last (lm_logger l # filter (\<lambda>r. r \<noteq> None) (map new_logger (updates (handled es))))"
  using assms run_all_logger [of "updates (handled es)" l]
  by (auto simp: config.run_eq simp del: last.simps split: if_splits)

text \<open>A configuration of level info without sinks; the file \<open>broken\<close> cannot be loaded.\<close>

definition sample_yaml :: "nat yaml_api" where
  "sample_yaml = \<lparr>y_load = (\<lambda>p. if p = ''broken'' then None else Some 0),
     y_get = (\<lambda>n k. if k = ''logging'' then Some 1 else if k = ''level'' then Some 2
       else if k = ''sinks'' then Some 3 else None),
     y_is_map = (\<lambda>n. n < 2), y_is_scalar = (\<lambda>n. n = 2), y_is_seq = (\<lambda>n. n = 3),
     y_size = (\<lambda>_. 0), y_first = (\<lambda>n. (n, n)), y_elems = (\<lambda>_. []), y_bool = (\<lambda>_. None),
     y_string = (\<lambda>_. ''info'')\<rparr>"

theorem last_good_configuration_wins_witness:
  "\<exists>l' rest. Watcher_Run config_callback
      [Vnode True (Some ''good'') (sample_yaml, \<lambda>_. True, []), No_event,
       Vnode True (Some ''broken'') (sample_yaml, \<lambda>_. True, []), User_event] fresh_manager = Ret (l', rest) \<and>
     lm_logger l' = Some \<lparr>level = log.info, sinks = []\<rparr>"
proof -
  let ?e = "(sample_yaml, \<lambda>_ :: string. True, [] :: string)"
  let ?es = "[Vnode True (Some ''good'') ?e, No_event, Vnode True (Some ''broken'') ?e, User_event]"
  have "new_logger (?e, ''good'') = Some \<lparr>level = log.info, sinks = []\<rparr>" "new_logger (?e, ''broken'') = None"
    by (simp_all add: new_logger_def ParseLogConfig_def parse_sinks_def sample_yaml_def
        string_to_log_def Let_def)
  moreover obtain l' rest where run: "Watcher_Run config_callback ?es fresh_manager = Ret (l', rest)"
    using config.run_eq [of ?es fresh_manager] by auto
  ultimately show ?thesis
    using last_good_configuration_wins [OF run] by (auto simp: handled_def)
qed

theorem watcher_thread_returns_witness:
  "Watcher_Run (\<lambda>_ path s. (Raise Json_exception, s @ [path]))
     [Vnode True (Some ''a'') (), Vnode False (Some ''b'') (), No_event, Vnode True (Some ''c'') (), User_event, Event_error] [] =
   Ret ([''a'', ''c''], [Event_error])"
  using watcher_thread_returns [of "\<lambda>_ path s. (Raise Json_exception, s @ [path])"
      "[Vnode True (Some ''a'') (), Vnode False (Some ''b'') (), No_event, Vnode True (Some ''c'') ()]"
      User_event "[Event_error]" "[]"]
  by (simp add: run_all_def)

end
