(* ===== verification/Crypto.thy ===== *)
theory Crypto
  imports RoutingTree
begin

text \<open>
  \<open>src/src/routing/.../crypto.{h,cc}\<close>: the hash functor of the router's maps. OpenSSL's MAC
  is the record \<open>evp\<close>, the calls that make a context the record \<open>ctx_calls\<close>; bytes are
  \<open>8 word\<close>. Using a functor without a context or a key follows a null pointer. The functor
  meets the contract \<open>hashed_keys\<close> of the container, also when a MAC call fails.
\<close>

type_synonym byte_string = "8 word list"

section \<open>Keys and contexts\<close>

text \<open>The bytes of \<open>RAND_bytes\<close>, or \<open>None\<close> when it fails.\<close>

definition make_siphash_key :: "byte_string option \<Rightarrow> byte_string option" where
  "make_siphash_key rand_bytes = rand_bytes"

definition make_siphash_key_ptr :: "byte_string option \<Rightarrow> byte_string option" where
  "make_siphash_key_ptr rand_bytes = (case rand_bytes of None \<Rightarrow> None | Some key \<Rightarrow> Some key)"

text \<open>The templates for a key of \<open>n\<close> bytes; there is none of no bytes.\<close>

definition make_hash_key :: "nat \<Rightarrow> byte_string option \<Rightarrow> byte_string option" where
  "make_hash_key n rand_bytes = (if n = 0 then None else rand_bytes)"

definition make_hash_key_ptr :: "nat \<Rightarrow> byte_string option \<Rightarrow> byte_string option" where
  "make_hash_key_ptr n rand_bytes =
     (if n = 0 then None else case rand_bytes of None \<Rightarrow> None | Some key \<Rightarrow> Some key)"

text \<open>The key of a default-constructed router: a value-initialised array.\<close>

definition default_key :: byte_string where
  "default_key = replicate 16 0"

text \<open>Whether the calls of \<open>make_ctx\<close> succeed.\<close>

record ctx_calls =
  mac_fetch :: bool
  mac_ctx_new :: bool
  set_params :: bool

definition make_ctx :: "ctx_calls \<Rightarrow> bool" where
  "make_ctx c =
     (if \<not> mac_fetch c then False
      else if \<not> mac_ctx_new c then False
      else if \<not> set_params c then False
      else True)"

section \<open>The functor\<close>

text \<open>Whether it has a context, and the key it shares.\<close>

record siphash =
  has_ctx :: bool
  sip_key :: "byte_string option"

definition SipHash_default :: "ctx_calls \<Rightarrow> byte_string option \<Rightarrow> siphash" where
  "SipHash_default c rand_bytes = \<lparr>has_ctx = make_ctx c, sip_key = make_siphash_key_ptr rand_bytes\<rparr>"

definition no_context :: exn where
  "no_context = Runtime_error ''The context was not created''"

text \<open>The constructor makes two contexts and keeps the second.\<close>

definition SipHash_new :: "ctx_calls \<Rightarrow> ctx_calls \<Rightarrow> byte_string option \<Rightarrow> siphash outcome" where
  "SipHash_new c1 c2 key =
     (let h = \<lparr>has_ctx = make_ctx c1, sip_key = key\<rparr>;
          h' = h\<lparr>has_ctx := make_ctx c2\<rparr> in
      if \<not> has_ctx h' then Raise no_context else Ret h')"

definition SipHash_copy :: "ctx_calls \<Rightarrow> siphash \<Rightarrow> siphash outcome" where
  "SipHash_copy c h =
     (let h' = \<lparr>has_ctx = make_ctx c, sip_key = sip_key h\<rparr> in
      if \<not> has_ctx h' then Raise no_context else Ret h')"

definition moved_from :: siphash where
  "moved_from = \<lparr>has_ctx = False, sip_key = None\<rparr>"

text \<open>The new functor, and what is left of the argument.\<close>

definition SipHash_move :: "siphash \<Rightarrow> siphash \<times> siphash" where
  "SipHash_move h = (h, moved_from)"

text \<open>
  Assignment to \<open>self\<close>; \<open>same\<close>: the argument is the object itself. A failing copy leaves
  \<open>self\<close> with the new key and no context.
\<close>

definition SipHash_copy_assign ::
    "bool \<Rightarrow> ctx_calls \<Rightarrow> siphash \<Rightarrow> siphash \<Rightarrow> unit outcome \<times> siphash" where
  "SipHash_copy_assign same c self h =
     (if same then (Ret (), self)
      else
        (let self1 = self\<lparr>sip_key := sip_key h\<rparr>;
             self2 = self1\<lparr>has_ctx := make_ctx c\<rparr> in
         if \<not> has_ctx self2 then (Raise no_context, self2) else (Ret (), self2)))"

definition SipHash_move_assign :: "bool \<Rightarrow> siphash \<Rightarrow> siphash \<Rightarrow> siphash \<times> siphash" where
  "SipHash_move_assign same self h = (if same then (self, h) else (h, moved_from))"

definition SipHash_swap :: "siphash \<Rightarrow> siphash \<Rightarrow> siphash \<times> siphash" where
  "SipHash_swap self h = (h, self)"

definition SipHash_clone :: "ctx_calls \<Rightarrow> siphash \<Rightarrow> siphash outcome" where
  "SipHash_clone c h = SipHash_copy c h"

section \<open>Hashing\<close>

text \<open>Each call succeeds or not; the last one returns the tag and its length.\<close>

record evp =
  mac_init :: "byte_string \<Rightarrow> bool"
  mac_update :: "byte_string \<Rightarrow> string \<Rightarrow> bool"
  mac_final :: "byte_string \<Rightarrow> string \<Rightarrow> (byte_string \<times> nat) option"

text \<open>\<open>fhash\<close> with a key. The tag is a zeroed array of eight bytes, of which the MAC writes the first.\<close>

definition fhash :: "evp \<Rightarrow> byte_string \<Rightarrow> string \<Rightarrow> byte_string option" where
  "fhash e key v =
     (if mac_init e key \<and> mac_update e key v then
        (case mac_final e key v of
           None \<Rightarrow> None
         | Some (written, tag_size) \<Rightarrow>
             if tag_size = 8 then Some (take 8 (written @ replicate 8 0)) else None)
      else None)"

text \<open>\<open>memcpy\<close> of at most eight bytes into a \<open>size_t\<close>, the lowest byte first.\<close>

fun little_endian :: "byte_string \<Rightarrow> nat" where
  "little_endian [] = 0"
| "little_endian (b # bs) = unat b + 256 * little_endian bs"

definition tag_to_size_t :: "byte_string \<Rightarrow> nat" where
  "tag_to_size_t tag = little_endian (take 8 tag)"

definition siphash_operator :: "evp \<Rightarrow> byte_string \<Rightarrow> string \<Rightarrow> nat" where
  "siphash_operator e key v = (case fhash e key v of None \<Rightarrow> 0 | Some tag \<Rightarrow> tag_to_size_t tag)"

text \<open>The members on an object: a missing context or key is a null pointer.\<close>

datatype 'a access = Null_pointer | Done 'a

definition SipHash_fhash :: "evp \<Rightarrow> siphash \<Rightarrow> string \<Rightarrow> byte_string option access" where
  "SipHash_fhash e h v =
     (if \<not> has_ctx h then Null_pointer
      else (case sip_key h of None \<Rightarrow> Null_pointer | Some key \<Rightarrow> Done (fhash e key v)))"

definition SipHash_hash :: "evp \<Rightarrow> siphash \<Rightarrow> string \<Rightarrow> byte_string option access" where
  "SipHash_hash e h v =
     (case SipHash_fhash e h v of
        Null_pointer \<Rightarrow> Null_pointer
      | Done tag \<Rightarrow> Done (case tag of None \<Rightarrow> None | Some t \<Rightarrow> Some t))"

definition SipHash_operator :: "evp \<Rightarrow> siphash \<Rightarrow> string \<Rightarrow> nat access" where
  "SipHash_operator e h v =
     (case SipHash_fhash e h v of
        Null_pointer \<Rightarrow> Null_pointer
      | Done tag \<Rightarrow> Done (case tag of None \<Rightarrow> 0 | Some t \<Rightarrow> tag_to_size_t t))"

text \<open>The overload for trivially copyable values hashes the bytes of the object.\<close>

definition SipHash_operator_object :: "evp \<Rightarrow> siphash \<Rightarrow> byte_string \<Rightarrow> nat access" where
  "SipHash_operator_object e h bytes =
     (let msg = map (\<lambda>b. char_of (unat b)) bytes in
      case SipHash_fhash e h msg of
        Null_pointer \<Rightarrow> Null_pointer
      | Done tag \<Rightarrow> Done (case tag of None \<Rightarrow> 0 | Some t \<Rightarrow> tag_to_size_t t))"

interpretation siphash: hashed_keys "(=) :: string \<Rightarrow> string \<Rightarrow> bool" "siphash_operator e key" for e key
  by unfold_locales auto

section \<open>Functors of one tree\<close>

text \<open>
  The functors a routing tree and its maps come by: the one made with the tree's key, and
  whatever copies, clones, moves, assignments and exchanges make of such functors.
\<close>

inductive functor_of :: "byte_string \<Rightarrow> siphash \<Rightarrow> bool" for key where
  made: "SipHash_new c1 c2 (Some key) = Ret h \<Longrightarrow> functor_of key h"
| copied: "functor_of key h \<Longrightarrow> SipHash_copy c h = Ret h' \<Longrightarrow> functor_of key h'"
| cloned: "functor_of key h \<Longrightarrow> SipHash_clone c h = Ret h' \<Longrightarrow> functor_of key h'"
| moved: "functor_of key h \<Longrightarrow> SipHash_move h = (h', rest) \<Longrightarrow> functor_of key h'"
| assigned: "functor_of key h \<Longrightarrow> SipHash_copy_assign False c self h = (Ret (), h') \<Longrightarrow> functor_of key h'"
| move_assigned: "functor_of key h \<Longrightarrow> SipHash_move_assign False self h = (h', rest) \<Longrightarrow> functor_of key h'"
| swapped: "functor_of key h \<Longrightarrow> SipHash_swap self h = (h', rest) \<Longrightarrow> functor_of key h'"

lemmas siphash_operations = SipHash_new_def SipHash_copy_def SipHash_clone_def SipHash_move_def
  SipHash_copy_assign_def SipHash_move_assign_def SipHash_swap_def

lemma functor_of_usable: "functor_of key h \<Longrightarrow> has_ctx h \<and> sip_key h = Some key"
  by (induction rule: functor_of.induct) (auto simp: siphash_operations Let_def split: if_splits)

lemma functor_operator:
  "functor_of key h \<Longrightarrow> SipHash_operator e h v = Done (siphash_operator e key v)"
  by (simp add: SipHash_operator_def SipHash_fhash_def siphash_operator_def functor_of_usable)

lemma little_endian_bound: "little_endian bs < 256 ^ length bs"
proof (induction bs)
  case (Cons b bs)
  have "unat b < 2 ^ LENGTH(8)" by (rule unsigned_less)
  with Cons show ?case by simp
qed simp

lemma little_endian_inject:
  "length as = length bs \<Longrightarrow> little_endian as = little_endian bs \<Longrightarrow> as = bs"
proof (induction as bs rule: list_induct2)
  case (Cons a as b bs)
  have "unat a < 2 ^ LENGTH(8)" "unat b < 2 ^ LENGTH(8)" by (rule unsigned_less)+
  then have "unat a < 256" "unat b < 256" by simp_all
  moreover have "(x + 256 * m) mod 256 = x" "(x + 256 * m) div 256 = m" if "x < 256" for x m :: nat
    using that by simp_all
  ultimately have "unat a = unat b" "little_endian as = little_endian bs"
    using Cons.prems by (metis little_endian.simps(2))+
  with Cons.IH show ?case by (simp add: word_unat_eq_iff)
qed simp

lemma fhash_length: "fhash e key v = Some tag \<Longrightarrow> length tag = 8"
  by (auto simp: fhash_def split: if_splits option.splits)

lemma siphash_operator_bound: "siphash_operator e key v < 2 ^ 64"
proof (cases "fhash e key v")
  case None
  then show ?thesis by (simp add: siphash_operator_def)
next
  case (Some tag)
  then have "length tag = 8" by (rule fhash_length)
  with little_endian_bound [of tag] Some show ?thesis
    by (simp add: siphash_operator_def tag_to_size_t_def)
qed

lemma siphash_operator_eq:
  assumes "fhash e key a = Some s" "fhash e key b = Some t"
  shows "siphash_operator e key a = siphash_operator e key b \<longleftrightarrow> s = t"
proof -
  have "length s = 8" "length t = 8" using assms by (auto intro: fhash_length)
  with assms little_endian_inject [of s t] show ?thesis
    by (auto simp: siphash_operator_def tag_to_size_t_def)
qed

section \<open>Properties\<close>

text \<open>
  C35. The hash functor is a legal and faithful hash for the routing maps. Any two functors of a
  tree, however they were copied, cloned, moved, assigned or exchanged, can be used; their
  values fit a \<open>size_t\<close>; where the MAC works, two segments collide only when their 8-byte
  tags are equal; and a lookup that searches only the bucket of the hash finds what a
  search of the whole map finds, for every number of buckets, and even when MAC calls fail.
\<close>
theorem siphash_lookup:
  assumes "functor_of key h" "functor_of key h'"
  shows "\<exists>x y. SipHash_operator e h a = Done x \<and> SipHash_operator e h' b = Done y \<and>
    x < 2 ^ 64 \<and> y < 2 ^ 64 \<and>
    (fhash e key a = None \<or> fhash e key b = None \<or> (x = y \<longleftrightarrow> fhash e key a = fhash e key b)) \<and>
    um_find_hashed (=) (\<lambda>v. case SipHash_operator e h v of Done z \<Rightarrow> z) n k m = um_find (=) k m"
  using assms siphash_operator_eq [of e key a _ b] siphash_operator_bound
  by (auto simp: functor_operator siphash.find_hashed)

definition sample_evp :: evp where
  "sample_evp = \<lparr>mac_init = (\<lambda>_. True), mac_update = (\<lambda>_ _. True),
     mac_final = (\<lambda>_ v. Some ([1, 2, 3, 4, 5, 6, 7, of_nat (length v)], 8))\<rparr>"

definition sample_functor :: siphash where
  "sample_functor = \<lparr>has_ctx = True, sip_key = Some default_key\<rparr>"

theorem siphash_lookup_witness:
  "\<exists>x y. SipHash_operator sample_evp sample_functor ''uni'' = Done x \<and>
     SipHash_operator sample_evp sample_functor ''v1'' = Done y \<and> x < 2 ^ 64 \<and> x \<noteq> y"
proof -
  have "SipHash_new \<lparr>mac_fetch = True, mac_ctx_new = True, set_params = True\<rparr>
      \<lparr>mac_fetch = True, mac_ctx_new = True, set_params = True\<rparr> (Some default_key) = Ret sample_functor"
    by (simp add: SipHash_new_def make_ctx_def sample_functor_def)
  then have f: "functor_of default_key sample_functor" by (rule functor_of.made)
  have tags: "fhash sample_evp default_key ''uni'' = Some [1, 2, 3, 4, 5, 6, 7, 3]"
    "fhash sample_evp default_key ''v1'' = Some [1, 2, 3, 4, 5, 6, 7, 2]"
    by (simp_all add: fhash_def sample_evp_def)
  show ?thesis
    using siphash_lookup [OF f f, where e = sample_evp and a = "''uni''" and b = "''v1''"
        and n = 0 and k = "[]" and m = "[] :: (string \<times> nat) list"] tags by auto
qed

end
