(* ===== verification/HashedTree.thy ===== *)
theory HashedTree
  imports Router Crypto
begin

text \<open>
  \<open>routing_tree.h\<close>, \<open>router.h\<close> and \<open>router.cc\<close> with the hash maps as the code
  builds them: every map carries a hash functor of its own, made from the tree's \<open>key_\<close>
  and copied into the map, a lookup hashes its key and searches one bucket, and a new node
  needs new MAC contexts, which may fail. \<open>RoutingTree\<close> and \<open>Router\<close> are the same
  operations without the functors; the theorems say when the two agree.
\<close>

section \<open>What OpenSSL and the container answer\<close>

text \<open>
  \<open>contexts\<close> are the answers to the successive calls of \<open>make_ctx\<close>; the container copies
  the functor it is given \<open>1 + extra_copies\<close> times and has \<open>bucket_count hint n\<close> buckets
  when it holds \<open>n\<close> elements.
\<close>

record hash_env =
  macs :: evp
  contexts :: "nat \<Rightarrow> ctx_calls"
  extra_copies :: nat
  bucket_count :: "nat \<Rightarrow> nat \<Rightarrow> nat"

definition kDefaultBucketCount :: nat where
  "kDefaultBucketCount = 10"

datatype 'h hnode = HNode (hnode_h: "'h option") (hnode_hm: "'h hmap")
  and 'h hmap = HMap (hm_functor: siphash) (hm_elems: "(string \<times> 'h hnode) list")

record 'h hashed_tree =
  ht_key :: "byte_string option"
  ht_root :: "'h hmap list"

text \<open>A call may follow a null pointer, or end as an \<open>outcome\<close>.\<close>

fun abind :: "'a outcome access \<Rightarrow> ('a \<Rightarrow> 'b outcome access) \<Rightarrow> 'b outcome access" where
  "abind Null_pointer f = Null_pointer"
| "abind (Done (Ret x)) f = f x"
| "abind (Done (Raise e)) f = Done (Raise e)"
| "abind (Done Terminate) f = Done Terminate"
| "abind (Done Diverge) f = Done Diverge"

lemma abind_cong [fundef_cong]:
  "m = m' \<Longrightarrow> (\<And>x. m' = Done (Ret x) \<Longrightarrow> f x = f' x) \<Longrightarrow> abind m f = abind m' f'"
  by (cases m' rule: abind.cases [of "(m', f)" for m' f]) auto

section \<open>The maps\<close>

text \<open>The copies the container makes of its functor; \<open>c\<close> counts the calls of \<open>make_ctx\<close>.\<close>

fun copy_functor :: "hash_env \<Rightarrow> nat \<Rightarrow> siphash \<Rightarrow> nat \<Rightarrow> (siphash \<times> nat) outcome" where
  "copy_functor env 0 f c = Ret (f, c)"
| "copy_functor env (Suc n) f c =
     obind (SipHash_copy (contexts env c) f) (\<lambda>f'. copy_functor env n f' (c + 1))"

text \<open>\<open>HashMap(kDefaultBucketCount, Hash(key))\<close>.\<close>

definition HashMap_new :: "hash_env \<Rightarrow> byte_string option \<Rightarrow> nat \<Rightarrow> ('h hmap \<times> nat) outcome" where
  "HashMap_new env key c =
     obind (SipHash_new (contexts env c) (contexts env (c + 1)) key) (\<lambda>f.
     obind (copy_functor env (1 + extra_copies env) f (c + 2)) (\<lambda>(f', c').
     Ret (HMap f' [], c')))"

definition RoutingNode_new ::
    "hash_env \<Rightarrow> byte_string option \<Rightarrow> 'h option \<Rightarrow> nat \<Rightarrow> ('h hnode \<times> nat) outcome" where
  "RoutingNode_new env key handler c =
     obind (HashMap_new env key c) (\<lambda>(hm, c'). Ret (HNode handler hm, c'))"

text \<open>\<open>find\<close>: the functor hashes the key, and the bucket of the hash is searched.\<close>

definition hm_find :: "hash_env \<Rightarrow> string \<Rightarrow> 'h hmap \<Rightarrow> 'h hnode option access" where
  "hm_find env elem m =
     (case SipHash_operator (macs env) (hm_functor m) elem of
        Null_pointer \<Rightarrow> Null_pointer
      | Done _ \<Rightarrow> Done (um_find_hashed (=)
          (\<lambda>v. case SipHash_operator (macs env) (hm_functor m) v of Null_pointer \<Rightarrow> 0 | Done x \<Rightarrow> x)
          (bucket_count env kDefaultBucketCount (length (hm_elems m))) elem (hm_elems m)))"

text \<open>The element of an iterator is written, and a new element is put in.\<close>

definition hm_update :: "string \<Rightarrow> 'h hnode \<Rightarrow> 'h hmap \<Rightarrow> 'h hmap" where
  "hm_update elem n m = HMap (hm_functor m) (um_assign (=) elem n (hm_elems m))"

definition hm_insert :: "string \<Rightarrow> 'h hnode \<Rightarrow> 'h hmap \<Rightarrow> 'h hmap" where
  "hm_insert elem n m = HMap (hm_functor m) (um_try_emplace (=) elem n (hm_elems m))"

section \<open>The tree\<close>

fun make_maps :: "hash_env \<Rightarrow> byte_string option \<Rightarrow> nat \<Rightarrow> nat \<Rightarrow> ('h hmap list \<times> nat) outcome" where
  "make_maps env key 0 c = Ret ([], c)"
| "make_maps env key (Suc n) c =
     obind (HashMap_new env key c) (\<lambda>(m, c').
     obind (make_maps env key n c') (\<lambda>(ms, c''). Ret (m # ms, c'')))"

definition make_hashed_root ::
    "hash_env \<Rightarrow> byte_string option \<Rightarrow> nat \<Rightarrow> ('h hmap list \<times> nat) outcome" where
  "make_hashed_root env key c = make_maps env key kNumHTTPMethods c"

definition RoutingTree_new ::
    "hash_env \<Rightarrow> byte_string option \<Rightarrow> nat \<Rightarrow> ('h hashed_tree \<times> nat) outcome" where
  "RoutingTree_new env key c =
     obind (make_hashed_root env key c) (\<lambda>(r, c'). Ret (\<lparr>ht_key = key, ht_root = r\<rparr>, c'))"

text \<open>The default constructor makes a value-initialised key; the other takes an array.\<close>

definition RoutingTree_default :: "hash_env \<Rightarrow> nat \<Rightarrow> ('h hashed_tree \<times> nat) outcome" where
  "RoutingTree_default env c = RoutingTree_new env (Some default_key) c"

definition RoutingTree_array :: "hash_env \<Rightarrow> byte_string \<Rightarrow> nat \<Rightarrow> ('h hashed_tree \<times> nat) outcome" where
  "RoutingTree_array env key c = RoutingTree_new env (Some key) c"

type_synonym 'h added = "(bool \<times> 'h hmap \<times> nat) outcome access"

definition hset_elem ::
    "hash_env \<Rightarrow> byte_string option \<Rightarrow> 'h hmap \<Rightarrow> string \<Rightarrow> 'h option \<Rightarrow> nat \<Rightarrow> 'h added" where
  "hset_elem env key m elem h c =
     (case hm_find env elem m of
        Null_pointer \<Rightarrow> Null_pointer
      | Done (Some rnode) \<Rightarrow>
          Done (Ret (if hnode_h rnode \<noteq> None then (False, m, c)
            else (True, hm_update elem (HNode h (hnode_hm rnode)) m, c)))
      | Done None \<Rightarrow>
          Done (obind (RoutingNode_new env key h c) (\<lambda>(n, c'). Ret (True, hm_insert elem n m, c'))))"

function hadd_walk ::
    "hash_env \<Rightarrow> byte_string option \<Rightarrow> string \<Rightarrow> nat \<Rightarrow> nat \<Rightarrow> 'h hmap \<Rightarrow> 'h option \<Rightarrow> nat \<Rightarrow> 'h added" where
  "hadd_walk env key path sb se m h c =
     (if se < length path then
        let elem = slice path (sb + 1) se; se' = char_find path (se + 1) CHR ''/'' in
        case hm_find env elem m of
          Null_pointer \<Rightarrow> Null_pointer
        | Done (Some node) \<Rightarrow>
            abind (hadd_walk env key path se se' (hnode_hm node) h c) (\<lambda>(r, m', c').
            Done (Ret (r, hm_update elem (HNode (hnode_h node) m') m, c')))
        | Done None \<Rightarrow>
            abind (Done (RoutingNode_new env key None c)) (\<lambda>(node, c1).
            abind (hadd_walk env key path se se' (hnode_hm node) h c1) (\<lambda>(r, m', c').
            Done (Ret (r, hm_insert elem (HNode None m') m, c'))))
      else hset_elem env key m (slice path (sb + 1) se) h c)"
  by pat_completeness auto
termination
  by (relation "measure (\<lambda>(env, key, path, sb, se, m, h, c). length path - se)")
     (auto simp: char_find_def)

declare hadd_walk.simps [simp del]

definition ht_add ::
    "hash_env \<Rightarrow> 'h hashed_tree \<Rightarrow> Method \<Rightarrow> string \<Rightarrow> 'h option \<Rightarrow> nat \<Rightarrow>
     (bool \<times> 'h hashed_tree \<times> nat) outcome access" where
  "ht_add env t mtd path h c =
     (let idx = method_num mtd in
      if idx \<ge> length (ht_root t) then Done (Ret (False, t, c))
      else let m = ht_root t ! idx in
        if length path = 0 then Done (Ret (False, t, c))
        else if length path = 1 then
          (if path ! 0 \<noteq> CHR ''/'' then Done (Ret (False, t, c))
           else abind (hset_elem env (ht_key t) m path h c) (\<lambda>(r, m', c').
                Done (Ret (r, t\<lparr>ht_root := (ht_root t)[idx := m']\<rparr>, c'))))
        else
          (let slash_beg = char_find path 0 CHR ''/'' in
           if slash_beg = length path then Done (Ret (False, t, c))
           else let slash_end = char_find path (slash_beg + 1) CHR ''/'' in
                abind (hadd_walk env (ht_key t) path slash_beg slash_end m h c) (\<lambda>(r, m', c').
                Done (Ret (r, t\<lparr>ht_root := (ht_root t)[idx := m']\<rparr>, c')))))"

function hget_walk :: "hash_env \<Rightarrow> string \<Rightarrow> nat \<Rightarrow> nat \<Rightarrow> 'h hmap \<Rightarrow> 'h option access" where
  "hget_walk env path sb se m =
     (if se < length path then
        (case hm_find env (slice path (sb + 1) se) m of
           Null_pointer \<Rightarrow> Null_pointer
         | Done (Some node) \<Rightarrow> hget_walk env path se (char_find path (se + 1) CHR ''/'') (hnode_hm node)
         | Done None \<Rightarrow> Done None)
      else
        (case hm_find env (slice path (sb + 1) se) m of
           Null_pointer \<Rightarrow> Null_pointer
         | Done None \<Rightarrow> Done None
         | Done (Some node) \<Rightarrow> Done (hnode_h node)))"
  by pat_completeness auto
termination
  by (relation "measure (\<lambda>(env, path, sb, se, m). length path - se)") (auto simp: char_find_def)

declare hget_walk.simps [simp del]

definition ht_get :: "hash_env \<Rightarrow> 'h hashed_tree \<Rightarrow> Method \<Rightarrow> string \<Rightarrow> 'h option access" where
  "ht_get env t mtd path =
     (let idx = method_num mtd in
      if idx \<ge> length (ht_root t) then Done None
      else let m = ht_root t ! idx in
        if length path = 0 then Done None
        else if length path = 1 then
          (case hm_find env path m of
             Null_pointer \<Rightarrow> Null_pointer
           | Done None \<Rightarrow> Done None
           | Done (Some node) \<Rightarrow> Done (hnode_h node))
        else
          (let slash_beg = char_find path 0 CHR ''/'' in
           if slash_beg = length path then Done None
           else hget_walk env path slash_beg (char_find path (slash_beg + 1) CHR ''/'') m))"

section \<open>Forgetting the functors\<close>

primrec erase_node :: "'h hnode \<Rightarrow> 'h rnode" and erase_map :: "'h hmap \<Rightarrow> 'h hashmap" where
  "erase_node (HNode h m) = RNode h (erase_map m)"
| "erase_map (HMap f es) = map (map_prod id erase_node) es"

definition erase_tree :: "'h hashed_tree \<Rightarrow> 'h routing_tree" where
  "erase_tree t = \<lparr>root = map erase_map (ht_root t)\<rparr>"

text \<open>The invariant: every map at every level has a functor of the tree's key.\<close>

fun keyed_node :: "byte_string \<Rightarrow> 'h hnode \<Rightarrow> bool" and keyed_map :: "byte_string \<Rightarrow> 'h hmap \<Rightarrow> bool" where
  "keyed_node key (HNode h m) \<longleftrightarrow> keyed_map key m"
| "keyed_map key (HMap f es) \<longleftrightarrow> functor_of key f \<and> (\<forall>x \<in> set es. keyed_node key (snd x))"

definition keyed_tree :: "byte_string \<Rightarrow> 'h hashed_tree \<Rightarrow> bool" where
  "keyed_tree key t \<longleftrightarrow> ht_key t = Some key \<and> (\<forall>m \<in> set (ht_root t). keyed_map key m)"

lemma keyed_functor: "keyed_map key m \<Longrightarrow> functor_of key (hm_functor m)"
  by (cases m) simp

lemma erase_hm: "erase_map m = map (map_prod id erase_node) (hm_elems m)"
  by (cases m) simp

lemma erase_node_sel [simp]:
  "node_h (erase_node n) = hnode_h n" "node_hm (erase_node n) = erase_map (hnode_hm n)"
  by (cases n, simp)+

lemma um_find_map:
  "um_find (=) e (map (map_prod id g) m) = map_option g (um_find (=) e m)"
  by (induction m) auto

lemma um_assign_map:
  "um_assign (=) e (g v) (map (map_prod id g) m) = map (map_prod id g) (um_assign (=) e v m)"
  by (induction m) auto

lemma um_try_emplace_map:
  "um_try_emplace (=) e (g v) (map (map_prod id g) m) = map (map_prod id g) (um_try_emplace (=) e v m)"
  by (simp add: um_try_emplace_def um_find_map split: option.splits)

lemma keyed_find: "keyed_map key m \<Longrightarrow> um_find (=) e (hm_elems m) = Some n \<Longrightarrow> keyed_map key (hnode_hm n)"
  by (cases m; cases n) (force dest!: um_find_in)

lemma hm_find_keyed: "keyed_map key m \<Longrightarrow> hm_find env e m = Done (um_find (=) e (hm_elems m))"
  by (simp add: hm_find_def functor_operator [OF keyed_functor] siphash.find_hashed)

lemma erase_find: "um_find (=) e (erase_map m) = map_option erase_node (um_find (=) e (hm_elems m))"
  by (simp add: erase_hm um_find_map)

lemma erase_update [simp]: "erase_map (hm_update e (HNode h m') m) = um_assign (=) e (RNode h (erase_map m')) (erase_map m)"
  using um_assign_map [of e erase_node "HNode h m'"] by (simp add: hm_update_def erase_hm)

lemma erase_insert [simp]: "erase_map (hm_insert e (HNode h m') m) = um_try_emplace (=) e (RNode h (erase_map m')) (erase_map m)"
  using um_try_emplace_map [of e erase_node "HNode h m'"] by (simp add: hm_insert_def erase_hm)

lemma keyed_update: "keyed_map key m \<Longrightarrow> keyed_map key m' \<Longrightarrow> keyed_map key (hm_update e (HNode h m') m)"
  by (cases m) (fastforce simp: hm_update_def dest: um_assign_in)

lemma keyed_insert: "keyed_map key m \<Longrightarrow> keyed_map key m' \<Longrightarrow> keyed_map key (hm_insert e (HNode h m') m)"
  by (cases m) (auto simp: hm_insert_def um_try_emplace_def split: option.splits)

section \<open>When a map can be made\<close>

text \<open>
  Making a map takes \<open>map_cost\<close> contexts: the two of the constructor and one for each copy.
  Of the two, the first is thrown away, and whether it could be made does not matter.
\<close>

definition map_cost :: "hash_env \<Rightarrow> nat" where
  "map_cost env = 3 + extra_copies env"

definition map_ok :: "hash_env \<Rightarrow> nat \<Rightarrow> bool" where
  "map_ok env c \<longleftrightarrow> (\<forall>i \<in> set [c + 1..<c + map_cost env]. make_ctx (contexts env i))"

fun maps_ok :: "hash_env \<Rightarrow> nat \<Rightarrow> nat \<Rightarrow> bool" where
  "maps_ok env c 0 \<longleftrightarrow> True"
| "maps_ok env c (Suc n) \<longleftrightarrow> map_ok env c \<and> maps_ok env (c + map_cost env) n"

lemma copy_functor_eq:
  "has_ctx f \<Longrightarrow> copy_functor env n f c =
     (if \<forall>i \<in> set [c..<c + n]. make_ctx (contexts env i) then Ret (f, c + n) else Raise no_context)"
proof (induction n arbitrary: f c)
  case (Suc n)
  have all: "(\<forall>i \<in> set [c..<c + Suc n]. P i) \<longleftrightarrow> P c \<and> (\<forall>i \<in> set [c + 1..<(c + 1) + n]. P i)" for P
    using upt_conv_Cons [of c "c + Suc n"] by simp
  show ?case
  proof (cases "make_ctx (contexts env c)")
    case True
    with Suc.prems have "SipHash_copy (contexts env c) f = Ret f"
      by (simp add: SipHash_copy_def)
    with True Suc show ?thesis by (simp only: all copy_functor.simps obind.simps) (simp del: upt_Suc set_upt)
  qed (simp only: all, simp add: SipHash_copy_def)
qed simp

definition fresh_map :: "byte_string option \<Rightarrow> 'h hmap" where
  "fresh_map key = HMap \<lparr>has_ctx = True, sip_key = key\<rparr> []"

lemma HashMap_new_eq:
  "HashMap_new env key c =
     (if map_ok env c then Ret (fresh_map key, c + map_cost env) else Raise no_context)"
proof -
  have all: "map_ok env c \<longleftrightarrow> make_ctx (contexts env (c + 1)) \<and>
      (\<forall>i \<in> set [c + 2..<(c + 2) + (1 + extra_copies env)]. make_ctx (contexts env i))"
    using upt_conv_Cons [of "c + 1" "c + map_cost env"] by (simp add: map_ok_def map_cost_def eval_nat_numeral del: upt_Suc)
  show ?thesis
    unfolding all
    by (simp add: HashMap_new_def SipHash_new_def copy_functor_eq fresh_map_def map_cost_def Let_def
        del: copy_functor.simps set_upt upt_Suc)
qed

lemma fresh_functor: "functor_of key \<lparr>has_ctx = True, sip_key = Some key\<rparr>"
proof (rule functor_of.made)
  show "SipHash_new \<lparr>mac_fetch = True, mac_ctx_new = True, set_params = True\<rparr>
      \<lparr>mac_fetch = True, mac_ctx_new = True, set_params = True\<rparr> (Some key) =
    Ret \<lparr>has_ctx = True, sip_key = Some key\<rparr>"
    by (simp add: SipHash_new_def make_ctx_def)
qed

lemma fresh_map_keyed [simp]: "keyed_map key (fresh_map (Some key))"
  by (simp add: fresh_map_def fresh_functor)

lemma fresh_map_erase [simp]: "erase_map (fresh_map key) = []" "hm_elems (fresh_map key) = []"
  by (simp_all add: fresh_map_def)

section \<open>The walks\<close>

text \<open>The nodes a registration makes: one for each segment from the first absent one on.\<close>

fun new_nodes :: "string list \<Rightarrow> 'h hashmap \<Rightarrow> nat" where
  "new_nodes [] m = 0"
| "new_nodes (e # es) m =
     (case um_find (=) e m of None \<Rightarrow> length (e # es) | Some n \<Rightarrow> new_nodes es (node_hm n))"

text \<open>A walk makes \<open>n\<close> nodes and gives \<open>x\<close>, or one of them cannot be made.\<close>

definition adds :: "hash_env \<Rightarrow> byte_string \<Rightarrow> nat \<Rightarrow> nat \<Rightarrow> 'h added \<Rightarrow> bool \<times> 'h hashmap \<Rightarrow> bool" where
  "adds env key c n r x \<longleftrightarrow>
     (if maps_ok env c n
      then \<exists>m. r = Done (Ret (fst x, m, c + n * map_cost env)) \<and> keyed_map key m \<and> erase_map m = snd x
      else r = Done (Raise no_context))"

lemma adds_bind:
  assumes "adds env key c n r x"
    and "\<And>m. keyed_map key m \<Longrightarrow> erase_map m = snd x \<Longrightarrow> keyed_map key (g m) \<and> erase_map (g m) = m1"
  shows "adds env key c n (abind r (\<lambda>(b, m, c). Done (Ret (b, g m, c)))) (fst x, m1)"
  using assms by (fastforce simp: adds_def split: if_splits)

text \<open>A new node before the walk goes on.\<close>

lemma adds_new:
  assumes "map_ok env c \<Longrightarrow> adds env key (c + map_cost env) n
    (r (fresh_map (Some key)) (c + map_cost env)) x"
  shows "adds env key c (Suc n)
    (abind (Done (RoutingNode_new env (Some key) h0 c)) (\<lambda>(node, c1). r (hnode_hm node) c1)) x"
  using assms by (auto simp: adds_def RoutingNode_new_def HashMap_new_eq algebra_simps)

lemma new_nodes_empty [simp]: "new_nodes es [] = length es"
  by (cases es) auto

lemma hset_elem_adds:
  assumes "keyed_map key m"
  shows "adds env key c (new_nodes [e] (erase_map m)) (hset_elem env (Some key) m e h c)
    (set_elem (erase_map m) e h)"
proof (cases "um_find (=) e (hm_elems m)")
  case None
  then show ?thesis
    using assms by (auto simp: adds_def hset_elem_def set_elem_def hm_find_keyed erase_find
        RoutingNode_new_def HashMap_new_eq keyed_insert)
next
  case (Some n)
  with assms have "keyed_map key (hnode_hm n)" by (rule keyed_find)
  with Some assms show ?thesis
    by (auto simp: adds_def hset_elem_def set_elem_def hm_find_keyed erase_find keyed_update)
qed

lemma hadd_walk_adds:
  assumes "keyed_map key m" "sb < length path" "se = char_find path (sb + 1) CHR ''/''"
  shows "adds env key c (new_nodes (split_slash (drop (sb + 1) path)) (erase_map m))
    (hadd_walk env (Some key) path sb se m h c)
    (put_segs (split_slash (drop (sb + 1) path)) (erase_map m) h)"
  using assms
proof (induction env "Some key" path sb se m h c rule: hadd_walk.induct)
  case (1 env path sb se m h c)
  then have split: "split_slash (drop (sb + 1) path) =
      (if se < length path then slice path (sb + 1) se # split_slash (drop (se + 1) path)
       else [slice path (sb + 1) se])"
    using split_at_next_slash [of "sb + 1" path] by (simp add: Let_def)
  show ?case
  proof (cases "se < length path")
    case True
    let ?e = "slice path (sb + 1) se" and ?es = "split_slash (drop (se + 1) path)"
    let ?s = "char_find path (se + 1) CHR ''/''"
    have keep: "keyed_map key (hm_update ?e (HNode hd m') m) \<and> keyed_map key (hm_insert ?e (HNode hd m') m)"
      if "keyed_map key m'" for hd m'
      using "1.prems"(1) that by (simp add: keyed_update keyed_insert)
    show ?thesis
    proof (cases "um_find (=) ?e (hm_elems m)")
      case None
      have find: "hm_find env ?e m = Done None" using None "1.prems"(1) by (simp add: hm_find_keyed)
      have "adds env key c1 (length ?es) (hadd_walk env (Some key) path se ?s (fresh_map (Some key)) h c1)
          (put_segs ?es [] h)" if "map_ok env c" "c1 = c + map_cost env" for c1
        using "1.hyps"(1) [OF True refl refl find refl, of "(HNode None (fresh_map (Some key)), c1)"] True that
        by (simp add: RoutingNode_new_def HashMap_new_eq)
      from adds_bind [OF this, where g = "\<lambda>m'. hm_insert ?e (HNode None m') m"]
      have "adds env key c (Suc (length ?es)) (abind (Done (RoutingNode_new env (Some key) None c))
          (\<lambda>(node, c1). abind (hadd_walk env (Some key) path se ?s (hnode_hm node) h c1)
            (\<lambda>(r, m', c'). Done (Ret (r, hm_insert ?e (HNode None m') m, c')))))
          (fst (put_segs ?es [] h), um_try_emplace (=) ?e (RNode None (snd (put_segs ?es [] h))) (erase_map m))"
        using keep by (intro adds_new) simp
      then show ?thesis
        using True None find
        by (subst hadd_walk.simps) (simp add: split [simplified] put_segs_Cons erase_find Let_def split_beta)
    next
      case (Some node)
      have find: "hm_find env ?e m = Done (Some node)" using Some "1.prems"(1) by (simp add: hm_find_keyed)
      have "adds env key c (new_nodes ?es (erase_map (hnode_hm node)))
          (hadd_walk env (Some key) path se ?s (hnode_hm node) h c) (put_segs ?es (erase_map (hnode_hm node)) h)"
        using "1.hyps"(2) [OF True refl refl find refl] True keyed_find [OF "1.prems"(1) Some] by simp
      from adds_bind [OF this,
          where g = "\<lambda>m'. hm_update ?e (HNode (hnode_h node) m') m"
            and ?m1.0 = "um_assign (=) ?e (RNode (hnode_h node)
              (snd (put_segs ?es (erase_map (hnode_hm node)) h))) (erase_map m)"]
      show ?thesis
        using True Some find keep
        by (subst hadd_walk.simps) (simp add: split [simplified] put_segs_Cons erase_find Let_def split_beta)
    qed
  next
    case False
    then show ?thesis using hset_elem_adds [OF "1.prems"(1)]
      by (subst hadd_walk.simps) (simp add: split [simplified])
  qed
qed

lemma hget_walk_erase:
  "keyed_map key m \<Longrightarrow> hget_walk env path sb se m = Done (get_walk path sb se (erase_map m))"
proof (induction env path sb se m rule: hget_walk.induct)
  case (1 env path sb se m)
  then show ?case
    by (subst hget_walk.simps, subst get_walk.simps)
       (auto simp: hm_find_keyed erase_find keyed_find split: option.split)
qed

section \<open>The operations of the tree\<close>

lemma keyed_root: "keyed_tree key t \<Longrightarrow> i < length (ht_root t) \<Longrightarrow> keyed_map key (ht_root t ! i)"
  by (simp add: keyed_tree_def)

lemma ht_get_erase:
  assumes "keyed_tree key t"
  shows "ht_get env t mtd path = Done (rt_get (erase_tree t) mtd path)"
proof (cases "method_num mtd < length (ht_root t)")
  case True
  note keyed = keyed_root [OF assms True]
  show ?thesis
    using True keyed hget_walk_erase [OF keyed]
    by (simp add: ht_get_def rt_get_def erase_tree_def Let_def hm_find_keyed erase_find split: option.split)
qed (simp add: ht_get_def rt_get_def erase_tree_def)

text \<open>The nodes a registration on the tree makes.\<close>

definition nodes_made :: "'h routing_tree \<Rightarrow> Method \<Rightarrow> string \<Rightarrow> nat" where
  "nodes_made t mtd path =
     (if registrable path \<and> supported t mtd
      then new_nodes (the (route_key path)) (root t ! method_num mtd) else 0)"

lemma keyed_set:
  "keyed_tree key t \<Longrightarrow> keyed_map key m \<Longrightarrow> keyed_tree key (t\<lparr>ht_root := (ht_root t)[i := m]\<rparr>)"
  by (auto simp: keyed_tree_def dest!: set_update_subset_insert [THEN subsetD])

lemma erase_set:
  "erase_tree (t\<lparr>ht_root := (ht_root t)[i := m]\<rparr>) =
   (erase_tree t)\<lparr>root := (root (erase_tree t))[i := erase_map m]\<rparr>"
  by (simp add: erase_tree_def map_update)

lemma root_erase: "i < length (ht_root t) \<Longrightarrow> root (erase_tree t) ! i = erase_map (ht_root t ! i)"
  by (simp add: erase_tree_def)

text \<open>What a walk on the map of the method means for the tree.\<close>

lemma adds_tree:
  assumes t: "keyed_tree key t" and i: "i < length (ht_root t)"
    and r: "adds env key c n r (put_segs es (erase_map (ht_root t ! i)) h)"
  shows "if maps_ok env c n
    then \<exists>t'. abind r (\<lambda>(r, m', c'). Done (Ret (r, t\<lparr>ht_root := (ht_root t)[i := m']\<rparr>, c'))) =
        Done (Ret (fst (put_segs es (erase_map (ht_root t ! i)) h), t', c + n * map_cost env)) \<and>
      keyed_tree key t' \<and>
      erase_tree t' = (erase_tree t)\<lparr>root := (root (erase_tree t))[i := snd (put_segs es (erase_map (ht_root t ! i)) h)]\<rparr>
    else abind r (\<lambda>(r, m', c'). Done (Ret (r, t\<lparr>ht_root := (ht_root t)[i := m']\<rparr>, c'))) = Done (Raise no_context)"
  using r by (auto simp: adds_def erase_set keyed_set [OF t])

lemma ht_add_adds:
  assumes t: "keyed_tree key t"
  shows "if maps_ok env c (nodes_made (erase_tree t) mtd path)
    then \<exists>t'. ht_add env t mtd path h c = Done (Ret (fst (rt_add (erase_tree t) mtd path h), t',
          c + nodes_made (erase_tree t) mtd path * map_cost env)) \<and>
      keyed_tree key t' \<and> erase_tree t' = snd (rt_add (erase_tree t) mtd path h)
    else ht_add env t mtd path h c = Done (Raise no_context)"
proof (cases "registrable path \<and> supported (erase_tree t) mtd")
  case False
  have "ht_add env t mtd path h c = Done (Ret (False, t, c))"
    using False char_find_slash [of path "CHR ''/''"]
    by (cases path) (auto simp: ht_add_def registrable_def supported_def erase_tree_def Let_def)
  with False t show ?thesis by (auto simp: nodes_made_def rt_add_key)
next
  case True
  then obtain k where k: "route_key path = Some k" using registrable_key by blast
  from True have i: "method_num mtd < length (ht_root t)" by (simp add: supported_def erase_tree_def)
  let ?m = "ht_root t ! method_num mtd"
  note keyed = keyed_root [OF t i]
  have key: "ht_key t = Some key" using t by (simp add: keyed_tree_def)
  have "\<exists>r. adds env key c (new_nodes k (erase_map ?m)) r (put_segs k (erase_map ?m) h) \<and>
      ht_add env t mtd path h c =
        abind r (\<lambda>(r, m', c'). Done (Ret (r, t\<lparr>ht_root := (ht_root t)[method_num mtd := m']\<rparr>, c')))"
  proof (cases "length path = 1")
    case single: True
    with True k have "k = [path]" "path ! 0 = CHR ''/''"
      by (cases path; auto simp: route_key_def registrable_def)+
    with single i key show ?thesis
      using hset_elem_adds [OF keyed, of env c path h]
      by (intro exI [of _ "hset_elem env (Some key) ?m path h c"]) (simp add: ht_add_def Let_def)
  next
    case long: False
    let ?b = "char_find path 0 CHR ''/''"
    have b: "?b < length path"
      using True by (metis registrable_def char_find_slash char_find_le le0 le_neq_implies_less)
    from True long k have "k = split_slash (drop (?b + 1) path)"
      by (auto simp: route_key_def registrable_def drop_after_slash [simplified] split: if_splits)
    with b long i key show ?thesis
      using hadd_walk_adds [OF keyed b refl, of env c h] True
      by (intro exI [of _ "hadd_walk env (Some key) path ?b (char_find path (?b + 1) CHR ''/'') ?m h c"])
         (auto simp: ht_add_def Let_def)
  qed
  then obtain r where r: "adds env key c (new_nodes k (erase_map ?m)) r (put_segs k (erase_map ?m) h)"
    and add: "ht_add env t mtd path h c =
      abind r (\<lambda>(r, m', c'). Done (Ret (r, t\<lparr>ht_root := (ht_root t)[method_num mtd := m']\<rparr>, c')))" by blast
  from adds_tree [OF t i r] show ?thesis
    using True k by (simp add: add nodes_made_def rt_add_key root_erase [OF i] split_beta)
qed

text \<open>A tree is made exactly when the contexts of its five maps are.\<close>

lemma make_maps_eq:
  "make_maps env key n c =
     (if maps_ok env c n then Ret (replicate n (fresh_map key), c + n * map_cost env)
      else Raise no_context)"
  by (induction n arbitrary: c) (simp_all add: HashMap_new_eq algebra_simps)

lemma RoutingTree_new_eq:
  "RoutingTree_new env key c =
     (if maps_ok env c kNumHTTPMethods
      then Ret (\<lparr>ht_key = key, ht_root = replicate kNumHTTPMethods (fresh_map key)\<rparr>,
        c + kNumHTTPMethods * map_cost env)
      else Raise no_context)"
  by (simp add: RoutingTree_new_def make_hashed_root_def make_maps_eq)

definition new_tree :: "byte_string \<Rightarrow> 'h hashed_tree" where
  "new_tree key = \<lparr>ht_key = Some key, ht_root = replicate kNumHTTPMethods (fresh_map (Some key))\<rparr>"

lemma new_tree_keyed: "keyed_tree key (new_tree key)" "erase_tree (new_tree key) = rt_new"
  by (auto simp: keyed_tree_def new_tree_def erase_tree_def rt_new_def make_root_def)

section \<open>Router and manager over such a tree\<close>

fun anoexcept :: "'a outcome access \<Rightarrow> 'a outcome access" where
  "anoexcept Null_pointer = Null_pointer"
| "anoexcept (Done r) = Done (noexcept r)"

text \<open>\<open>get\<close>, \<open>post\<close>, \<open>put\<close>, \<open>del\<close> and \<open>patch\<close> of \<open>Router\<close>, by method; all are \<open>noexcept\<close>.\<close>

definition Router_add ::
    "hash_env \<Rightarrow> Method \<Rightarrow> handler hashed_tree \<Rightarrow> string \<Rightarrow> handler option \<Rightarrow> nat \<Rightarrow>
     (bool \<times> handler hashed_tree \<times> nat) outcome access" where
  "Router_add env mtd t path h c = anoexcept (ht_add env t mtd path h c)"

definition Router_route_hashed ::
    "hash_env \<Rightarrow> handler hashed_tree \<Rightarrow> Request \<Rightarrow> world \<Rightarrow> (Response option \<times> world) outcome access" where
  "Router_route_hashed env t req w =
     (case ht_get env t (req_method req) (req_path req) of
        Null_pointer \<Rightarrow> Null_pointer
      | Done None \<Rightarrow> Done (Ret (None, w))
      | Done (Some h) \<Rightarrow> Done (noexcept (obind (h req w) (\<lambda>(resp, w'). Ret (Some resp, w')))))"

text \<open>The two \<open>Init\<close>; when the tree cannot be made, \<open>router_\<close> keeps its value.\<close>

type_synonym hashed_manager = "handler hashed_tree option"

definition RouterManager_Init_default ::
    "hash_env \<Rightarrow> hashed_manager \<Rightarrow> nat \<Rightarrow> unit outcome \<times> hashed_manager \<times> nat" where
  "RouterManager_Init_default env m c =
     (case RoutingTree_default env c of
        Ret (t, c') \<Rightarrow> (Ret (), Some t, c')
      | Raise e \<Rightarrow> (Raise e, m, c) | Terminate \<Rightarrow> (Terminate, m, c) | Diverge \<Rightarrow> (Diverge, m, c))"

definition RouterManager_Init_key ::
    "hash_env \<Rightarrow> byte_string \<Rightarrow> hashed_manager \<Rightarrow> nat \<Rightarrow> unit outcome \<times> hashed_manager \<times> nat" where
  "RouterManager_Init_key env key m c =
     (case RoutingTree_array env key c of
        Ret (t, c') \<Rightarrow> (Ret (), Some t, c')
      | Raise e \<Rightarrow> (Raise e, m, c) | Terminate \<Rightarrow> (Terminate, m, c) | Diverge \<Rightarrow> (Diverge, m, c))"

definition RouterManager_add ::
    "hash_env \<Rightarrow> Method \<Rightarrow> string \<Rightarrow> handler option \<Rightarrow> hashed_manager \<Rightarrow> nat \<Rightarrow>
     (bool \<times> hashed_manager \<times> nat) outcome access" where
  "RouterManager_add env mtd path h m c =
     (case m of
        None \<Rightarrow> Done (Raise (Runtime_error ''Router not initialized''))
      | Some t \<Rightarrow> abind (Router_add env mtd t path h c) (\<lambda>(result, t', c').
          Done (Ret (result, Some t', c'))))"

fun register_hashed ::
    "hash_env \<Rightarrow> registration list \<Rightarrow> hashed_manager \<Rightarrow> nat \<Rightarrow>
     (bool list \<times> hashed_manager \<times> nat) outcome access" where
  "register_hashed env [] m c = Done (Ret ([], m, c))"
| "register_hashed env (r # rs) m c =
     (case reg_entry r of (mtd, path, h) \<Rightarrow>
        abind (RouterManager_add env mtd path h m c) (\<lambda>(b, m', c').
        abind (register_hashed env rs m' c') (\<lambda>(bs, m'', c''). Done (Ret (b # bs, m'', c'')))))"

definition RouterManager_Route_hashed ::
    "hash_env \<Rightarrow> hashed_manager \<Rightarrow> Request \<Rightarrow> world \<Rightarrow> (Response option \<times> world) outcome access" where
  "RouterManager_Route_hashed env m req w =
     (case m of
        None \<Rightarrow> Done (Ret (None, w))
      | Some t \<Rightarrow> anoexcept (abind (Router_route_hashed env t req w) (\<lambda>(response, w').
          case response of
            None \<Rightarrow> (let (resp, w'') = makeResp NotFound (req_id req) (JObject []) w'
                     in Done (Ret (Some resp, w'')))
          | Some resp \<Rightarrow> Done (Ret (Some resp, w')))))"

lemma route_hashed:
  assumes "keyed_tree key t"
  shows "RouterManager_Route_hashed env (Some t) req w = Done (RouterManager_Route (Some (erase_tree t)) req w)"
proof -
  have "Router_route_hashed env t req w = Done (Router_route (erase_tree t) req w)"
    by (simp add: Router_route_hashed_def Router_route_def ht_get_erase [OF assms] split: option.split)
  then show ?thesis
    by (cases "Router_route (erase_tree t) req w")
       (auto simp: RouterManager_Route_hashed_def RouterManager_Route_def Let_def split_beta split: option.split)
qed

lemma maps_ok_add: "maps_ok env c (m + n) \<longleftrightarrow> maps_ok env c m \<and> maps_ok env (c + m * map_cost env) n"
  by (induction m arbitrary: c) (auto simp: algebra_simps)

text \<open>The maps a sequence of registrations makes, one after the other, on a tree.\<close>

fun maps_made :: "registration list \<Rightarrow> handler routing_tree \<Rightarrow> nat" where
  "maps_made [] t = 0"
| "maps_made (r # rs) t =
     (case reg_entry r of (mtd, path, h) \<Rightarrow>
        nodes_made t mtd path + maps_made rs (snd (rt_add t mtd path h)))"

lemma register_hashed_erase:
  assumes "keyed_tree key t"
  shows "if maps_ok env c (maps_made rs (erase_tree t))
    then \<exists>bs t'. register_hashed env rs (Some t) c =
        Done (Ret (bs, Some t', c + maps_made rs (erase_tree t) * map_cost env)) \<and> keyed_tree key t' \<and>
      run_registrations rs (Some (erase_tree t)) = Ret (bs, Some (erase_tree t'))
    else register_hashed env rs (Some t) c = Done Terminate"
  using assms
proof (induction rs arbitrary: t c)
  case (Cons r rs)
  obtain mtd path h where r: "reg_entry r = (mtd, path, h)" by (cases "reg_entry r")
  let ?n = "nodes_made (erase_tree t) mtd path"
  let ?t1 = "snd (rt_add (erase_tree t) mtd path h)"
  have add: "run_registration r (Some (erase_tree t)) =
      Ret (fst (rt_add (erase_tree t) mtd path h), Some ?t1)"
    by (simp add: run_registration_Some r)
  have made: "maps_made (r # rs) (erase_tree t) = ?n + maps_made rs ?t1" by (simp add: r)
  show ?case
  proof (cases "maps_ok env c ?n")
    case True
    with ht_add_adds [OF Cons.prems, of env c mtd path h] obtain t' where
      t': "ht_add env t mtd path h c =
        Done (Ret (fst (rt_add (erase_tree t) mtd path h), t', c + ?n * map_cost env))"
      "keyed_tree key t'" "erase_tree t' = ?t1" by auto
    have step: "register_hashed env (r # rs) (Some t) c =
        abind (register_hashed env rs (Some t') (c + ?n * map_cost env)) (\<lambda>(bs, m, c).
          Done (Ret (fst (rt_add (erase_tree t) mtd path h) # bs, m, c)))"
      using t'(1) by (simp add: r RouterManager_add_def Router_add_def)
    show ?thesis
      using Cons.IH [OF t'(2), of "c + ?n * map_cost env"] True
      unfolding step made maps_ok_add t'(3) by (auto simp: add algebra_simps split: if_splits)
  next
    case False
    with ht_add_adds [OF Cons.prems, of env c mtd path h] show ?thesis
      unfolding made maps_ok_add by (simp add: r RouterManager_add_def Router_add_def)
  qed
qed simp

section \<open>Properties\<close>

text \<open>
  C4. The tree of keyed hash maps refines the plain routing tree. Under the invariant that
  every map, at every level, holds a functor of the tree's key, no operation follows a null
  pointer; a lookup finds what the plain tree finds, although each map hashes with a
  functor of its own and searches one bucket only; a registration gives the plain tree's
  result and tree and keeps the invariant, and makes as many new maps as the path has
  segments from the first absent one on. It throws exactly when a context of one of
  those maps cannot be made; that the first context of a functor failed does not matter.
\<close>
theorem hashed_tree_refines_tree:
  assumes "keyed_tree key t"
  shows "ht_get env t mtd path = Done (rt_get (erase_tree t) mtd path) \<and>
    (case ht_add env t mtd path h c of
       Done (Ret (b, t', c')) \<Rightarrow>
         (b, erase_tree t') = rt_add (erase_tree t) mtd path h \<and> keyed_tree key t' \<and>
         c' = c + nodes_made (erase_tree t) mtd path * map_cost env \<and>
         maps_ok env c (nodes_made (erase_tree t) mtd path)
     | Done (Raise e) \<Rightarrow> e = no_context \<and> \<not> maps_ok env c (nodes_made (erase_tree t) mtd path)
     | _ \<Rightarrow> False)"
  using ht_add_adds [OF assms, of env c mtd path h]
  by (auto simp: ht_get_erase [OF assms] split: if_splits)

definition sample_hash_env :: hash_env where
  "sample_hash_env = \<lparr>macs = sample_evp,
     contexts = (\<lambda>i. \<lparr>mac_fetch = True, mac_ctx_new = i < 40, set_params = True\<rparr>),
     extra_copies = 1, bucket_count = max\<rparr>"

theorem hashed_tree_refines_tree_witness:
  "keyed_tree default_key (new_tree default_key :: nat hashed_tree) \<and>
   ht_add sample_hash_env (new_tree default_key) GET ''/uni/v1'' (Some (7 :: nat)) 36 = Done (Raise no_context)"
proof -
  let ?r = "ht_add sample_hash_env (new_tree default_key) GET ''/uni/v1'' (Some (7 :: nat)) 36"
  have key: "route_key ''/uni/v1'' = Some [''uni'', ''v1'']" by code_simp
  have n: "nodes_made (rt_new :: nat routing_tree) GET ''/uni/v1'' = 2"
    by (simp add: nodes_made_def key rt_new_def make_root_def supported_def registrable_def
        kNumHTTPMethods_def)
  have fails: "\<not> maps_ok sample_hash_env 36 2"
    by (simp add: numeral_2_eq_2 map_ok_def map_cost_def sample_hash_env_def make_ctx_def)
  note refines = conjunct2 [OF hashed_tree_refines_tree [OF new_tree_keyed(1) [of default_key], where env = sample_hash_env
      and mtd = GET and path = "''/uni/v1''" and h = "Some (7 :: nat)" and c = 36], unfolded new_tree_keyed(2) n]
  have "?r = Done (Raise no_context)"
  proof (cases ?r)
    case (Done x)
    then show ?thesis using refines fails by (cases x) (simp_all add: split_beta)
  qed (use refines in simp)
  then show ?thesis by (simp add: new_tree_keyed)
qed

text \<open>
  C21. An application built on the keyed tree serves as the plain manager does, or ends for
  want of a MAC context. \<open>Init\<close> throws, and leaves the old router in place, exactly when
  a context of the five root maps cannot be made. Otherwise a sequence of registrations ends
  the process, as \<open>Router\<close>'s operations are \<open>noexcept\<close>, exactly when a context of one of
  the maps it makes for new segments, in order, cannot be made; if all can, it returns
  what the plain registrations return, and then every request is answered as the plain
  manager answers it. The router of \<open>Init()\<close> hashes with a key of zeros.
\<close>
theorem hashed_manager_serves_or_ends:
  "RouterManager_Init_default env m c = RouterManager_Init_key env (replicate 16 0) m c \<and>
   (case RouterManager_Init_key env key m c of
      (Ret _, m1, c1) \<Rightarrow> maps_ok env c kNumHTTPMethods \<and>
        (case register_hashed env rs m1 c1 of
           Done (Ret (bs, m2, c2)) \<Rightarrow> maps_ok env c1 (maps_made rs rt_new) \<and>
             c2 = c1 + maps_made rs rt_new * map_cost env \<and>
             (\<exists>m0. run_registrations rs (RouterManager_Init None) = Ret (bs, m0) \<and>
               (\<forall>req w. RouterManager_Route_hashed env m2 req w = Done (RouterManager_Route m0 req w)))
         | Done Terminate \<Rightarrow> \<not> maps_ok env c1 (maps_made rs rt_new)
         | _ \<Rightarrow> False)
    | (Raise e, m1, c1) \<Rightarrow> e = no_context \<and> m1 = m \<and> \<not> maps_ok env c kNumHTTPMethods
    | _ \<Rightarrow> False)"
proof -
  have init: "RouterManager_Init_default env m c = RouterManager_Init_key env (replicate 16 0) m c"
    by (simp add: RouterManager_Init_default_def RouterManager_Init_key_def RoutingTree_default_def
        RoutingTree_array_def default_key_def)
  note made = register_hashed_erase [OF new_tree_keyed(1) [of key], where env = env and rs = rs
      and c = "c + kNumHTTPMethods * map_cost env", unfolded new_tree_keyed(2)]
  note unfold = RouterManager_Init_key_def RoutingTree_array_def RoutingTree_new_eq new_tree_def [symmetric]
  show ?thesis
  proof (cases "maps_ok env (c + kNumHTTPMethods * map_cost env) (maps_made rs rt_new)")
    case True
    with made obtain bs t where t: "register_hashed env rs (Some (new_tree key)) (c + kNumHTTPMethods * map_cost env) =
        Done (Ret (bs, Some t, c + kNumHTTPMethods * map_cost env + maps_made rs rt_new * map_cost env))"
      "keyed_tree key t" "run_registrations rs (Some rt_new) = Ret (bs, Some (erase_tree t))" by auto
    then show ?thesis
      using True init route_hashed [OF t(2)] by (auto simp: unfold RouterManager_Init_def)
  next
    case False
    with made have "register_hashed env rs (Some (new_tree key)) (c + kNumHTTPMethods * map_cost env) = Done Terminate"
      by simp
    with False init show ?thesis by (auto simp: unfold)
  qed
qed

end
