(* ===== verification/ServerMain.thy ===== *)
theory ServerMain
  imports Intake Delivery Watcher HashedTree
begin

text \<open>
  \<open>src/src/main/server.cc\<close>: the order in which \<open>main\<close> brings the parts up, and the one
  route it registers.
\<close>

definition uni_result :: json where
  "uni_result = JObject [(''Message'',
     JString ''The request was received and successfully processed...'')]"

definition uni_handler :: handler where
  "uni_handler req w = Ret (makeResp_fresh Success uni_result w)"

definition main_registrations :: "registration list" where
  "main_registrations = [Reg_Get ''/uni'' (Some uni_handler)]"

text \<open>
  \<open>main\<close> exits with a status, or serves for ever with a router and a buffer size; an
  uncaught exception ends the process. \<open>new_lm\<close> and \<open>new_cw\<close> are what the constructors
  of the log manager and its watcher give for the path in \<open>argv[3]\<close>, \<open>thread_made\<close> whether the
  watcher gets its thread. The router is the one with keyed hash maps.
\<close>

datatype main_result = Exit int | Serves hashed_manager nat | Broken nat

definition main ::
    "hash_env \<Rightarrow> nat \<Rightarrow> log_manager outcome \<Rightarrow> watcher outcome \<Rightarrow> bool \<Rightarrow> tls_api \<Rightarrow> string \<Rightarrow> string \<Rightarrow> sys \<Rightarrow>
     main_result outcome access" where
  "main env argc new_lm new_cw thread_made api cert key os =
     (if argc < 4 then Done (Ret (Exit 1))
      else
        anoexcept
          (abind (Done (fst (LogSystem_Start_path new_lm new_cw thread_made no_system))) (\<lambda>_.
           case RouterManager_Init_default env None 0 of (r, router, c) \<Rightarrow>
           abind (Done r) (\<lambda>_.
           abind (register_hashed env main_registrations router c) (\<lambda>(_, router', _).
           abind (Done (HttpsServer_new api cert key)) (\<lambda>server.
           Done (Ret (case listen_default os server quiet of
                    (Serving s n, l) \<Rightarrow> Serves router' n
                  | (Refused, l) \<Rightarrow> Exit 0
                  | (Undefined p, l) \<Rightarrow> Broken p))))))))"

section \<open>The router of the program\<close>

lemma uni_nodes: "nodes_made (rt_new :: handler routing_tree) GET ''/uni'' = 1"
proof -
  have "route_key ''/uni'' = Some [''uni'']" by code_simp
  then show ?thesis
    by (simp add: nodes_made_def rt_new_def make_root_def supported_def registrable_def kNumHTTPMethods_def)
qed

text \<open>Six maps are made: the five roots and the one of the node of the route.\<close>

lemma main_router:
  assumes "maps_ok env c 1"
  obtains t c' bs where "register_hashed env main_registrations (Some (new_tree key)) c = Done (Ret (bs, Some t, c'))"
    "keyed_tree key t" "manager_of (Some main_registrations) = Some (erase_tree t)"
proof -
  have "\<exists>t'. ht_add env (new_tree key) GET ''/uni'' (Some uni_handler) c = Done (Ret (
      fst (rt_add rt_new GET ''/uni'' (Some uni_handler)), t', c + 1 * map_cost env)) \<and>
    keyed_tree key t' \<and> erase_tree t' = snd (rt_add rt_new GET ''/uni'' (Some uni_handler))"
    using ht_add_adds [OF new_tree_keyed(1), of env c key GET "''/uni''" "Some uni_handler"] assms
    by (simp add: new_tree_keyed(2) uni_nodes)
  then show ?thesis
    using that by (fastforce simp: main_registrations_def RouterManager_add_def Router_add_def manager_of_def
        RouterManager_Init_def manager_defs Let_def split_beta)
qed

lemma main_router_fails:
  "\<not> maps_ok env c 1 \<Longrightarrow> register_hashed env main_registrations (Some (new_tree key)) c = Done Terminate"
  using ht_add_adds [OF new_tree_keyed(1), of env c key GET "''/uni''" "Some uni_handler"]
  by (simp add: new_tree_keyed(2) uni_nodes main_registrations_def RouterManager_add_def Router_add_def)

text \<open>What \<open>main\<close> does once its logging objects are there or not.\<close>

definition log_fails :: "log_manager outcome \<Rightarrow> watcher outcome \<Rightarrow> bool \<Rightarrow> bool" where
  "log_fails new_lm new_cw thread_made \<longleftrightarrow> lacks_thread (Op_start_path new_lm new_cw thread_made :: nat log_op) no_system"

lemma main_cases:
  assumes "made_lm new_lm" "made_cw new_cw"
  obtains t where "keyed_tree default_key t" "manager_of (Some main_registrations) = Some (erase_tree t)"
    "main env argc new_lm new_cw thread_made api cert key os =
      (if argc < 4 then Done (Ret (Exit 1))
       else if log_fails new_lm new_cw thread_made \<or> \<not> maps_ok env 0 6 then Done Terminate
       else anoexcept (abind (Done (HttpsServer_new api cert key)) (\<lambda>server.
         Done (Ret (case listen_default os server quiet of
             (Serving s n, l) \<Rightarrow> Serves (Some t) n
           | (Refused, l) \<Rightarrow> Exit 0
           | (Undefined p, l) \<Rightarrow> Broken p)))))"
proof -
  let ?op = "Op_start_path new_lm new_cw thread_made :: nat log_op"
  have op: "op_ok ?op" "watch_ok no_system"
    using assms by (simp_all add: watch_ok_def no_system_def)
  obtain r s where run: "run_op ?op no_system = (r, s)" by fastforce
  from run_op_ok(2) [OF op run] have logs: "fst (LogSystem_Start_path new_lm new_cw thread_made no_system) =
      (if log_fails new_lm new_cw thread_made then Raise System_error else Ret (r = Ret True))"
    using run by (simp add: log_fails_def)
  let ?c = "5 * map_cost env"
  have six: "maps_ok env 0 6 \<longleftrightarrow> maps_ok env 0 5 \<and> maps_ok env ?c 1"
    using maps_ok_add [of env 0 5 1] by simp
  have init: "RouterManager_Init_default env None 0 =
      (if maps_ok env 0 5 then (Ret (), Some (new_tree default_key), ?c) else (Raise no_context, None, 0))"
    by (simp add: RouterManager_Init_default_def RoutingTree_default_def RoutingTree_new_eq
        new_tree_def kNumHTTPMethods_def)
  show thesis
  proof (cases "maps_ok env ?c 1")
    case True
    from main_router [OF this, where key = default_key] obtain t c' bs where
      t: "register_hashed env main_registrations (Some (new_tree default_key)) ?c = Done (Ret (bs, Some t, c'))"
      "keyed_tree default_key t" "manager_of (Some main_registrations) = Some (erase_tree t)" by blast
    have "maps_ok env 0 6 \<longleftrightarrow> maps_ok env 0 5" using six True by blast
    then show thesis
      by (intro that [OF t(2,3)]) (simp add: main_def logs init t(1))
  next
    case False
    have "maps_ok sample_hash_env 0 1"
      by (simp add: map_ok_def map_cost_def sample_hash_env_def make_ctx_def)
    from main_router [OF this, where key = default_key] obtain t :: "handler hashed_tree"
      where t: "keyed_tree default_key t" "manager_of (Some main_registrations) = Some (erase_tree t)" by blast
    have "\<not> maps_ok env 0 6" using six False by blast
    then show thesis
      by (intro that [OF t]) (simp add: main_def logs init main_router_fails [OF False])
  qed
qed

section \<open>Properties\<close>

text \<open>
  C40. What \<open>main\<close> serves and how it fails, whatever the logging objects, OpenSSL and the
  system answer. It never follows a null pointer. It serves exactly when it has its
  arguments, the log watcher does not lack its thread, the MAC contexts of the six maps of
  its router can be made, the TLS server is constructed and listening on \<open>0.0.0.0:8080\<close>
  succeeds; then the buffer has 1024 bytes and every request is routed as by the plain
  manager that holds the handler of \<open>GET /uni\<close>. When the thread or a context cannot be had,
  or the TLS server throws, the process ends by \<open>std::terminate\<close>; when the socket cannot be
  bound it exits with status 0, as if it had succeeded. A log system whose manager or
  watcher cannot be made stops nothing.
\<close>
theorem main_outcomes:
  assumes "made_lm new_lm" "made_cw new_cw"
  shows "case main env argc new_lm new_cw thread_made api cert key os of
      Null_pointer \<Rightarrow> False
    | Done (Ret (Serves router n)) \<Rightarrow> 4 \<le> argc \<and> \<not> log_fails new_lm new_cw thread_made \<and> maps_ok env 0 6 \<and> n = 1024 \<and>
        (\<exists>server s l. HttpsServer_new api cert key = Ret server \<and>
           listen os server ''0.0.0.0'' ''8080'' 20 1024 quiet = (Serving s n, l)) \<and>
        (\<forall>req w. RouterManager_Route_hashed env router req w =
           Done (RouterManager_Route (manager_of (Some main_registrations)) req w))
    | Done (Ret (Exit status)) \<Rightarrow> (status = 1 \<and> argc < 4) \<or>
        (status = 0 \<and> 4 \<le> argc \<and> \<not> log_fails new_lm new_cw thread_made \<and> maps_ok env 0 6 \<and>
         (\<exists>server l. HttpsServer_new api cert key = Ret server \<and>
            listen os server ''0.0.0.0'' ''8080'' 20 1024 quiet = (Refused, l)))
    | Done (Ret (Broken p)) \<Rightarrow> 4 \<le> argc \<and> \<not> log_fails new_lm new_cw thread_made \<and> maps_ok env 0 6 \<and>
        (\<exists>server l. HttpsServer_new api cert key = Ret server \<and>
           listen os server ''0.0.0.0'' ''8080'' 20 1024 quiet = (Undefined p, l))
    | Done Terminate \<Rightarrow> 4 \<le> argc \<and>
        (log_fails new_lm new_cw thread_made \<or> \<not> maps_ok env 0 6 \<or> (\<exists>e. HttpsServer_new api cert key = Raise e))
    | _ \<Rightarrow> False"
proof -
  obtain t where t: "keyed_tree default_key t" "manager_of (Some main_registrations) = Some (erase_tree t)"
    and main: "main env argc new_lm new_cw thread_made api cert key os =
      (if argc < 4 then Done (Ret (Exit 1))
       else if log_fails new_lm new_cw thread_made \<or> \<not> maps_ok env 0 6 then Done Terminate
       else anoexcept (abind (Done (HttpsServer_new api cert key)) (\<lambda>server.
         Done (Ret (case listen_default os server quiet of
             (Serving s n, l) \<Rightarrow> Serves (Some t) n
           | (Refused, l) \<Rightarrow> Exit 0
           | (Undefined p, l) \<Rightarrow> Broken p)))))"
    using assms by (rule main_cases)
  have route: "RouterManager_Route_hashed env (Some t) req w =
      Done (RouterManager_Route (manager_of (Some main_registrations)) req w)" for req w
    by (simp add: t(2) route_hashed [OF t(1)])
  have listening: "listen_default os server quiet = listen os server ''0.0.0.0'' ''8080'' 20 1024 quiet" for server
    by (simp add: listen_default_def kHttpPort_def kMaxConnections_def kReceptionBufSize_def)
  have buf: "n = 1024" if "listen os server ''0.0.0.0'' ''8080'' 20 1024 quiet = (Serving s n, l)" for server s n l
    using that by (auto simp: listen_def listenInternal_def split: prod.splits build_result.splits if_splits)
  have only: "HttpsServer_new api cert key \<noteq> Terminate" "HttpsServer_new api cert key \<noteq> Diverge"
    by (simp_all add: HttpsServer_new_def)
  show ?thesis
  proof (cases "HttpsServer_new api cert key")
    case (Ret server)
    obtain r l where "listen os server ''0.0.0.0'' ''8080'' 20 1024 quiet = (r, l)" by fastforce
    with Ret route show ?thesis
      by (cases r) (auto simp: main listening dest: buf)
  qed (use only in \<open>simp_all add: main\<close>)
qed

text \<open>OpenSSL calls that all succeed.\<close>

definition sample_tls :: tls_api where
  "sample_tls = \<lparr>ctx_new = True, use_certificate = (\<lambda>_. 1), use_private_key = (\<lambda>_. 1),
     check_private_key = True, ssl_err = []\<rparr>"

theorem main_outcomes_witness:
  "main (sample_hash_env\<lparr>contexts := \<lambda>_. \<lparr>mac_fetch = False, mac_ctx_new = False, set_params = False\<rparr>\<rparr>) 4
     (Ret fresh_manager) sample_watcher True sample_tls ''cert'' ''key'' sample_sys = Done Terminate"
proof -
  let ?env = "sample_hash_env\<lparr>contexts := \<lambda>_. \<lparr>mac_fetch = False, mac_ctx_new = False, set_params = False\<rparr>\<rparr>"
  have "made_lm (Ret fresh_manager)" "made_cw sample_watcher"
    unfolding made_lm_def made_cw_def sample_watcher_def by (simp, blast)
  note main = main_outcomes [OF this, where env = ?env and argc = 4 and thread_made = True and api = sample_tls
      and cert = "''cert''" and key = "''key''" and os = sample_sys]
  have "\<not> map_ok ?env 0"
    by (auto simp: map_ok_def map_cost_def sample_hash_env_def make_ctx_def intro!: exI [of _ 1])
  then have "\<not> maps_ok ?env 0 6" using maps_ok.simps(2) [of ?env 0 5] by simp
  with main show ?thesis by (auto split: access.splits outcome.splits main_result.splits)
qed

end
