(* ===== verification/LoggedMain.thy ===== *)
theory LoggedMain
  imports LoggedServer ServerMain
begin

text \<open>
  \<open>router.{h,cc}\<close> and \<open>main/server.cc\<close> with their log statements: the registration of
  handlers on the router with keyed hash maps, and the whole program up to the intake cycle.
\<close>

section \<open>The router manager\<close>

text \<open>The two \<open>Init\<close>; \<open>how\<close> says which key is used.\<close>

definition Init_log :: "'o logs \<Rightarrow> string \<Rightarrow> hashed_manager \<Rightarrow> 'o \<Rightarrow> 'o outcome" where
  "Init_log lg how m o0 =
     obind (if m \<noteq> None then
              lg (On_level warning) ''Router already initialized, replacing existing instance'' [] [] o0
            else Ret o0)
       (\<lambda>o1. lg (On_level debug) (''Initializing router with '' @ how @ '' hash key'') [] [] o1)"

definition RouterManager_Init_logged ::
    "'o logs \<Rightarrow> hash_env \<Rightarrow> hashed_manager \<Rightarrow> nat \<Rightarrow> 'o \<Rightarrow>
     ((unit outcome \<times> hashed_manager \<times> nat) \<times> 'o) outcome" where
  "RouterManager_Init_logged lg env m c o0 =
     obind (Init_log lg ''default'' m o0) (\<lambda>o1. Ret (RouterManager_Init_default env m c, o1))"

definition RouterManager_Init_key_logged ::
    "'o logs \<Rightarrow> hash_env \<Rightarrow> byte_string \<Rightarrow> hashed_manager \<Rightarrow> nat \<Rightarrow> 'o \<Rightarrow>
     ((unit outcome \<times> hashed_manager \<times> nat) \<times> 'o) outcome" where
  "RouterManager_Init_key_logged lg env key m c o0 =
     obind (Init_log lg ''provided'' m o0) (\<lambda>o1. Ret (RouterManager_Init_key env key m c, o1))"

definition RouterManager_Clear_logged :: "'o logs \<Rightarrow> hashed_manager \<Rightarrow> 'o \<Rightarrow> (hashed_manager \<times> 'o) outcome" where
  "RouterManager_Clear_logged lg m o0 =
     obind (lg (On_level debug) ''Resetting router instance'' [] [] o0) (\<lambda>o1. Ret (None, o1))"

definition RouterManager_add_logged ::
    "'o logs \<Rightarrow> hash_env \<Rightarrow> Method \<Rightarrow> string \<Rightarrow> handler option \<Rightarrow> hashed_manager \<Rightarrow> nat \<Rightarrow> 'o \<Rightarrow>
     ((bool \<times> hashed_manager \<times> nat) \<times> 'o) outcome access" where
  "RouterManager_add_logged lg env mtd path h m c o0 =
     (case m of
        None \<Rightarrow>
          abind (Done (lg (On_level error) ''Router not initialized'' [(''path'', path)] [] o0))
            (\<lambda>_. Done (Raise (Runtime_error ''Router not initialized'')))
      | Some t \<Rightarrow>
          abind (Done (lg (On_level trace) ''Registering handler'' [(''path'', path)] [] o0)) (\<lambda>o1.
          abind (Router_add env mtd t path h c) (\<lambda>(result, t', c').
          abind (Done (if \<not> result then
                    lg (On_level warning) ''Failed to register handler'' [(''path'', path)] [] o1
                  else Ret o1)) (\<lambda>o2.
          Done (Ret ((result, Some t', c'), o2))))))"

fun register_logged ::
    "'o logs \<Rightarrow> hash_env \<Rightarrow> registration list \<Rightarrow> hashed_manager \<Rightarrow> nat \<Rightarrow> 'o \<Rightarrow>
     ((bool list \<times> hashed_manager \<times> nat) \<times> 'o) outcome access" where
  "register_logged lg env [] m c o0 = Done (Ret (([], m, c), o0))"
| "register_logged lg env (r # rs) m c o0 =
     (case reg_entry r of (mtd, path, h) \<Rightarrow>
        abind (RouterManager_add_logged lg env mtd path h m c o0) (\<lambda>((b, m', c'), o1).
        abind (register_logged lg env rs m' c' o1) (\<lambda>((bs, m'', c''), o2).
        Done (Ret ((b # bs, m'', c''), o2)))))"

section \<open>The program\<close>

text \<open>
  \<open>main\<close>: the statements go to the log system as \<open>Start\<close> leaves it. When \<open>listen\<close> returns,
  the server object is destroyed; its descriptors are those of a process that ends, so that
  only the statements of the destructors matter here, which are the same for every object.
\<close>

definition main_logged ::
    "(log_system \<Rightarrow> 'o logs) \<Rightarrow> (string \<Rightarrow> string) \<Rightarrow> hash_env \<Rightarrow> nat \<Rightarrow> log_manager outcome \<Rightarrow>
     watcher outcome \<Rightarrow> bool \<Rightarrow> tls_api \<Rightarrow> string \<Rightarrow> string \<Rightarrow> sys \<Rightarrow> 'o \<Rightarrow> (main_result \<times> 'o) outcome access" where
  "main_logged lgs val env argc new_lm new_cw thread_made api cert key os o0 =
     (if argc < 4 then Done (Ret (Exit 1, o0))
      else
        anoexcept
          (case LogSystem_Start_path new_lm new_cw thread_made no_system of (started_log, s) \<Rightarrow>
           abind (Done started_log) (\<lambda>_.
           let lg = lgs s in
           abind (Done (RouterManager_Init_logged lg env None 0 o0)) (\<lambda>((r, router, c), o1).
           abind (Done r) (\<lambda>_.
           abind (register_logged lg env main_registrations router c o1) (\<lambda>((_, router', _), o2).
           abind (Done (HttpsServer_new_logged lg val api cert key o2)) (\<lambda>(server, o3).
           abind (Done (listen_logged lg val os server ''0.0.0.0'' kHttpPort kMaxConnections
                          (int kReceptionBufSize) quiet o3)) (\<lambda>((r, l), o4).
           case r of
             Serving s n \<Rightarrow> Done (Ret (Serves router' n, o4))
           | Refused \<Rightarrow>
               abind (Done (HttpsServer_destroy_logged lg server 0 l o4)) (\<lambda>(_, o5). Done (Ret (Exit 0, o5)))
           | Undefined p \<Rightarrow> Done (Ret (Broken p, o4))))))))))"

section \<open>Calls that may follow a null pointer\<close>

definition afollows :: "bool \<Rightarrow> ('a \<times> 'o) outcome access \<Rightarrow> 'a outcome access \<Rightarrow> bool" where
  "afollows may_end x y \<longleftrightarrow> (may_end \<and> x = Done Terminate) \<or> abind x (\<lambda>(a, _). Done (Ret a)) = y"

lemma afollows_Done: "follows P x y \<Longrightarrow> afollows P (Done x) (Done y)"
  by (cases x) (auto simp: follows_def afollows_def)

lemma afollows_Ret: "afollows P (Done (Ret (a, o1))) (Done (Ret a))"
  by (simp add: afollows_def)

lemma afollows_abind:
  assumes "afollows P x y" "\<And>a o1. afollows P (f (a, o1)) (g a)"
  shows "afollows P (abind x f) (abind y g)"
proof (cases x)
  case (Done r)
  show ?thesis
  proof (cases r)
    case (Ret v)
    obtain a o1 where "v = (a, o1)" by fastforce
    with Done Ret assms(1) assms(2) [of a o1] show ?thesis by (auto simp: afollows_def)
  qed (use Done assms(1) in \<open>auto simp: afollows_def\<close>)
qed (use assms(1) in \<open>auto simp: afollows_def\<close>)

lemma afollows_same: "(\<And>a. afollows P (f a) (g a)) \<Longrightarrow> afollows P (abind x f) (abind x g)"
  by (cases "(x, f)" rule: abind.cases) (auto simp: afollows_def)

lemma afollows_anoexcept: "afollows P x y \<Longrightarrow> afollows P (anoexcept x) (anoexcept y)"
proof (cases x)
  case (Done r)
  then show "afollows P x y \<Longrightarrow> afollows P (anoexcept x) (anoexcept y)"
    by (cases r) (auto simp: afollows_def)
qed (auto simp: afollows_def)

lemma afollows_value:
  assumes "follows P x (Ret a)" "\<And>o1. afollows P (f (a, o1)) y"
  shows "afollows P (abind (Done x) f) y"
proof (cases x)
  case (Ret r)
  with assms(1) obtain o1 where "r = (a, o1)" by (cases r) (simp add: follows_def)
  with Ret assms(2) [of o1] show ?thesis by simp
qed (use assms(1) in \<open>simp_all add: follows_def afollows_def\<close>)

section \<open>The program and its model without log statements\<close>

context clean_system
begin

lemma Init_follows: "follows may_end (RouterManager_Init_logged lg env m c o0) (Ret (RouterManager_Init_default env m c))"
  by (auto simp: RouterManager_Init_logged_def Init_log_def obind_assoc intro!: clean_intros)

lemma Init_key_follows:
  "follows may_end (RouterManager_Init_key_logged lg env key m c o0) (Ret (RouterManager_Init_key env key m c))"
  by (auto simp: RouterManager_Init_key_logged_def Init_log_def obind_assoc intro!: clean_intros)

lemma Clear_follows: "follows may_end (RouterManager_Clear_logged lg m o0) (Ret None)"
  by (auto simp: RouterManager_Clear_logged_def intro!: clean_intros)

lemma afollows_log:
  assumes "fields_ok clean d" "\<And>o2. afollows may_end (f o2) y"
  shows "afollows may_end (abind (Done (lg (On_level lvl) msg d args o1)) f) y"
  using ends [OF assms(1), of lvl msg args o1] assms(2)
  by (elim disjE exE conjE) (simp_all add: afollows_def)

lemma add_follows:
  assumes "clean path"
  shows "afollows may_end (RouterManager_add_logged lg env mtd path h m c o0) (RouterManager_add env mtd path h m c)"
proof (cases m)
  case None
  have "afollows may_end (Done (Raise e)) (Done (Raise e))" for e
    by (simp add: afollows_def)
  with None assms show ?thesis
    by (auto simp: RouterManager_add_logged_def RouterManager_add_def record_keys_def intro!: afollows_log)
next
  case (Some t)
  have last: "afollows may_end (abind (Done (if \<not> result then
        lg (On_level warning) ''Failed to register handler'' [(''path'', path)] [] o1 else Ret o1)) (\<lambda>o2.
        Done (Ret ((result, Some t', c'), o2)))) (Done (Ret (result, Some t', c')))" for result t' c' o1
    using assms by (cases result) (auto simp: record_keys_def intro!: afollows_log afollows_Ret)
  from Some assms show ?thesis
    by (auto simp: RouterManager_add_logged_def RouterManager_add_def record_keys_def
        intro!: afollows_log afollows_same last)
qed

lemma register_follows:
  assumes "\<And>r. r \<in> set rs \<Longrightarrow> clean (fst (snd (reg_entry r)))"
  shows "afollows may_end (register_logged lg env rs m c o0) (register_hashed env rs m c)"
  using assms
proof (induction rs arbitrary: m c o0)
  case (Cons r rs)
  obtain mtd path h where r: "reg_entry r = (mtd, path, h)" by (cases "reg_entry r") auto
  with Cons.prems [of r] have "clean path" by simp
  with Cons.IH Cons.prems r show ?case
    by (auto intro!: afollows_abind [OF add_follows] afollows_abind [OF Cons.IH] afollows_Ret)
qed (simp add: afollows_Ret)

lemma main_follows:
  assumes "LogSystem_Start_path new_lm new_cw thread_made no_system = (Ret b, s)" "lgs s = lg"
    and "clean (ssl_err api)" "clean cert" "clean key"
    and "clean ''/uni''" "clean ''0.0.0.0''" "clean kHttpPort"
  shows "afollows may_end (main_logged lgs val env argc new_lm new_cw thread_made api cert key os o0)
    (main env argc new_lm new_cw thread_made api cert key os)"
proof -
  have routes: "clean (fst (snd (reg_entry r)))" if "r \<in> set main_registrations" for r
    using that assms(6) by (simp add: main_registrations_def)
  have served: "afollows may_end (case r of
        Serving s n \<Rightarrow> Done (Ret (Serves router' n, o4))
      | Refused \<Rightarrow> abind (Done (HttpsServer_destroy_logged lg server 0 l o4)) (\<lambda>(_, o5). Done (Ret (Exit 0, o5)))
      | Undefined p \<Rightarrow> Done (Ret (Broken p, o4)))
      (Done (Ret (case (r, l) of
          (Serving s n, l) \<Rightarrow> Serves router' n
        | (Refused, l) \<Rightarrow> Exit 0
        | (Undefined p, l) \<Rightarrow> Broken p)))" for r l router' server o4
    by (cases r) (auto intro!: afollows_Ret afollows_value [OF tls_destroy_follows])
  have listening: "afollows may_end (abind (Done (listen_logged lg val os server ''0.0.0.0'' kHttpPort
        kMaxConnections (int kReceptionBufSize) quiet o3)) (\<lambda>((r, l), o4).
      case r of
        Serving s n \<Rightarrow> Done (Ret (Serves router' n, o4))
      | Refused \<Rightarrow> abind (Done (HttpsServer_destroy_logged lg server 0 l o4)) (\<lambda>(_, o5). Done (Ret (Exit 0, o5)))
      | Undefined p \<Rightarrow> Done (Ret (Broken p, o4))))
      (Done (Ret (case listen_default os server quiet of
          (Serving s n, l) \<Rightarrow> Serves router' n
        | (Refused, l) \<Rightarrow> Exit 0
        | (Undefined p, l) \<Rightarrow> Broken p)))" for router' server o3
  proof -
    obtain r l where run: "listen os server ''0.0.0.0'' kHttpPort kMaxConnections (int kReceptionBufSize) quiet = (r, l)"
      by fastforce
    have "follows may_end (listen_logged lg val os server ''0.0.0.0'' kHttpPort kMaxConnections
        (int kReceptionBufSize) quiet o3) (Ret (r, l))"
      unfolding run [symmetric] by (rule listen_follows [OF clean_val assms(7,8)])
    then show ?thesis
      unfolding listen_default_def run by (rule afollows_value) (use served in simp)
  qed
  show ?thesis
  proof (cases "argc < 4")
    case True
    then show ?thesis by (simp add: main_logged_def main_def afollows_Ret)
  next
    case False
    obtain r router c where init: "RouterManager_Init_default env None 0 = (r, router, c)"
      by (cases "RouterManager_Init_default env None 0") auto
    have "afollows may_end
      (abind (Done (RouterManager_Init_logged lg env None 0 o0)) (\<lambda>((r, router, c), o1).
           abind (Done r) (\<lambda>_.
           abind (register_logged lg env main_registrations router c o1) (\<lambda>((_, router', _), o2).
           abind (Done (HttpsServer_new_logged lg val api cert key o2)) (\<lambda>(server, o3).
           abind (Done (listen_logged lg val os server ''0.0.0.0'' kHttpPort kMaxConnections
                          (int kReceptionBufSize) quiet o3)) (\<lambda>((r, l), o4).
           case r of
             Serving s n \<Rightarrow> Done (Ret (Serves router' n, o4))
           | Refused \<Rightarrow>
               abind (Done (HttpsServer_destroy_logged lg server 0 l o4)) (\<lambda>(_, o5). Done (Ret (Exit 0, o5)))
           | Undefined p \<Rightarrow> Done (Ret (Broken p, o4))))))))
      (abind (Done r) (\<lambda>_.
           abind (register_hashed env main_registrations router c) (\<lambda>(_, router', _).
           abind (Done (HttpsServer_new api cert key)) (\<lambda>server.
           Done (Ret (case listen_default os server quiet of
                    (Serving s n, l) \<Rightarrow> Serves router' n
                  | (Refused, l) \<Rightarrow> Exit 0
                  | (Undefined p, l) \<Rightarrow> Broken p))))))"
      using Init_follows [of env None 0 o0] init
      by (auto intro!: afollows_value [of may_end _ "(r, router, c)"] afollows_same
          afollows_abind [OF register_follows [OF routes]]
          afollows_abind [OF afollows_Done [OF tls_new_follows [where val = val, OF clean_val assms(3-5)]]] listening)
    with False assms(1,2) show ?thesis
      unfolding main_logged_def main_def by (auto simp: init intro!: afollows_anoexcept)
  qed
qed

end

section \<open>Properties\<close>

text \<open>
  C14. The log never changes what the program does on its way to the intake cycle. For every
  configuration of the log, every answer of the system and of OpenSSL and every MAC context,
  \<open>main\<close> with the log statements of the router manager and the servers exits, serves or
  fails as \<open>main\<close> without them; or a log statement ends the process, and then there is a
  record that one of the sinks \<open>Start\<close> has set up cannot print, and a text that is not
  ASCII (of the system, of OpenSSL or of the command line), a JSON library that refuses
  ASCII, or a standard output that does not take what is printed.
\<close>
theorem logging_never_changes_main:
  "abind (main_logged (\<lambda>s. LOG_args lapi vformat s at) val env argc new_lm new_cw thread_made api cert key os o0)
     (\<lambda>(r, _). Done (Ret r)) = main env argc new_lm new_cw thread_made api cert key os \<or>
   main_logged (\<lambda>s. LOG_args lapi vformat s at) val env argc new_lm new_cw thread_made api cert key os o0 = Done Terminate \<and>
   (\<exists>b s. LogSystem_Start_path new_lm new_cw thread_made no_system = (Ret b, s) \<and> unprintable lapi s) \<and>
   ((\<exists>t \<in> {ssl_err api, cert, key} \<union> range val. \<not> ascii t) \<or> \<not> prints_ascii lapi at)"
proof (cases "fst (LogSystem_Start_path new_lm new_cw thread_made no_system)")
  case (Ret b)
  then obtain s where start: "LogSystem_Start_path new_lm new_cw thread_made no_system = (Ret b, s)"
    by (cases "LogSystem_Start_path new_lm new_cw thread_made no_system") auto
  let ?run = "main_logged (\<lambda>s. LOG_args lapi vformat s at) val env argc new_lm new_cw thread_made api cert key os o0"
  let ?main = "main env argc new_lm new_cw thread_made api cert key os"
  have "afollows (unprintable lapi s) ?run ?main"
    using start by (intro any_text.main_follows [where b = b and s = s]) simp_all
  moreover have "afollows False ?run ?main"
    if texts: "\<forall>t \<in> {ssl_err api, cert, key} \<union> range val. ascii t" and "prints_ascii lapi at"
  proof -
    have sys: "clean_system (LOG_args lapi vformat s at) (\<not> prints_ascii lapi at) ascii val"
      by (intro clean_system.intro clean_system_axioms.intro ascii_log.clean_log_axioms ascii_uuid)
         (use texts in simp)
    have "ascii ''/uni''" "ascii ''0.0.0.0''" "ascii kHttpPort" by code_simp+
    then have "afollows (\<not> prints_ascii lapi at) ?run ?main"
      using start texts by (intro clean_system.main_follows [OF sys, where b = b and s = s]) simp_all
    with that(2) show ?thesis by simp
  qed
  ultimately show ?thesis
    using start unfolding afollows_def by blast
qed (simp_all add: main_logged_def main_def split_beta)

theorem logging_never_changes_main_witness:
  "abind (main_logged (\<lambda>s. LOG_args (sample_api (\<lambda>_. Some ''{}'')) (\<lambda>_ _. None) s nowhere) (\<lambda>_. ''?'') sample_hash_env 4
       (Ret fresh_manager) sample_watcher True sample_tls ''cert'' ''key'' sample_sys sample_outputs) (\<lambda>(r, _). Done (Ret r)) =
     main sample_hash_env 4 (Ret fresh_manager) sample_watcher True sample_tls ''cert'' ''key'' sample_sys \<and>
   (\<exists>router. main sample_hash_env 4 (Ret fresh_manager) sample_watcher True sample_tls ''cert'' ''key'' sample_sys =
     Done (Ret (Serves router 1024)))"
proof
  have "ascii ''?''" "ascii ''cert''" "ascii ''key''" "ascii []" by code_simp+
  then have "prints_ascii (sample_api (\<lambda>_. Some ''{}'')) nowhere"
      "\<forall>t \<in> {ssl_err sample_tls, ''cert'', ''key''} \<union> range (\<lambda>_ :: string. ''?''). ascii t"
    by (simp_all add: prints_ascii_def sample_api_def nowhere_def sample_tls_def)
  with logging_never_changes_main [where lapi = "sample_api (\<lambda>_. Some ''{}'')" and vformat = "\<lambda>_ _. None" and at = nowhere
      and val = "\<lambda>_. ''?''" and env = sample_hash_env and argc = 4 and new_lm = "Ret fresh_manager"
      and new_cw = sample_watcher and thread_made = True and api = sample_tls and cert = "''cert''" and key = "''key''"
      and os = sample_sys and ?o0.0 = sample_outputs]
  show "abind (main_logged (\<lambda>s. LOG_args (sample_api (\<lambda>_. Some ''{}'')) (\<lambda>_ _. None) s nowhere) (\<lambda>_. ''?'') sample_hash_env 4
       (Ret fresh_manager) sample_watcher True sample_tls ''cert'' ''key'' sample_sys sample_outputs) (\<lambda>(r, _). Done (Ret r)) =
     main sample_hash_env 4 (Ret fresh_manager) sample_watcher True sample_tls ''cert'' ''key'' sample_sys"
    by blast
  have "made_lm (Ret fresh_manager)" "made_cw sample_watcher"
    unfolding made_lm_def made_cw_def sample_watcher_def by (simp, blast)
  from main_cases [OF this, where env = sample_hash_env and argc = 4 and thread_made = True and api = sample_tls
      and cert = "''cert''" and key = "''key''" and os = sample_sys]
  obtain t where
    "main sample_hash_env 4 (Ret fresh_manager) sample_watcher True sample_tls ''cert'' ''key'' sample_sys =
      (if log_fails (Ret fresh_manager) sample_watcher True \<or> \<not> maps_ok sample_hash_env 0 6 then Done Terminate
       else anoexcept (abind (Done (HttpsServer_new sample_tls ''cert'' ''key'')) (\<lambda>server.
         Done (Ret (case listen_default sample_sys server quiet of
             (Serving s n, l) \<Rightarrow> Serves (Some t) n
           | (Refused, l) \<Rightarrow> Exit 0
           | (Undefined p, l) \<Rightarrow> Broken p)))))" by auto
  moreover have "maps_ok sample_hash_env 0 6"
    by (simp add: eval_nat_numeral map_ok_def map_cost_def sample_hash_env_def make_ctx_def)
  moreover have "\<not> log_fails (Ret fresh_manager) sample_watcher True" by (simp add: log_fails_def)
  moreover have "HttpsServer_new sample_tls ''cert'' ''key'' = Ret new_server"
    by (simp add: HttpsServer_new_def sample_tls_def)
  moreover have "listen_default sample_sys new_server quiet =
      (Serving (new_server\<lparr>servinfo := Some 1, srv_sockfd := 6\<rparr>) 1024, quiet\<lparr>closes := [5]\<rparr>)"
    by code_simp
  ultimately show "\<exists>router. main sample_hash_env 4 (Ret fresh_manager) sample_watcher True sample_tls ''cert'' ''key'' sample_sys =
     Done (Ret (Serves router 1024))" by auto
qed

end
