(* ===== verification/LogDelivery.thy ===== *)
theory LogDelivery
  imports LoggedWorker
begin

text \<open>
  What the log of a connection tells about the answer that was sent. A run of a connection
  under the macro \<open>LOG\<close> leaves the outputs that some sequence of statements leaves, which the
  logger takes; the locale \<open>telling_log\<close> is what this asks of a log statement, and
  \<open>telling_sender\<close> what the two \<open>send\<close> functions promise about it.
\<close>

section \<open>The statements behind an output\<close>

type_synonym statements = "(subject \<times> string \<times> (string \<times> string) list \<times> string list) list"

fun run_statements :: "'o logs \<Rightarrow> statements \<Rightarrow> 'o \<Rightarrow> 'o outcome" where
  "run_statements lg [] o1 = Ret o1"
| "run_statements lg ((subj, msg, d, args) # es) o1 =
     obind (lg subj msg d args o1) (run_statements lg es)"

lemma run_statements_append:
  "run_statements lg (es @ es') o1 = obind (run_statements lg es o1) (run_statements lg es')"
  by (induction lg es o1 rule: run_statements.induct) (auto simp: obind_assoc intro!: obind_cong)

text \<open>The values of a field in the statements with a message, in order.\<close>

definition reported :: "string \<Rightarrow> string \<Rightarrow> statements \<Rightarrow> string list" where
  "reported msg key es =
     concat (map (\<lambda>(_, m, d, _). if m = msg then (case map_of d key of None \<Rightarrow> [] | Some v \<Rightarrow> [v]) else []) es)"

lemma reported_simps [simp]:
  "reported msg key [] = []"
  "reported msg key (es @ es') = reported msg key es @ reported msg key es'"
  "reported msg key [(subj, m, d, args)] =
     (if m = msg then (case map_of d key of None \<Rightarrow> [] | Some v \<Rightarrow> [v]) else [])"
  by (simp_all add: reported_def)

definition answer_status :: "statements \<Rightarrow> string list" where
  "answer_status = reported ''Serializing response'' ''status''"

definition bytes_sent :: "statements \<Rightarrow> string list" where
  "bytes_sent = reported ''Response sent successfully'' ''bytes_sent''"

text \<open>
  From \<open>o1\<close> to \<open>o2\<close> the log took statements that tell the status texts \<open>as\<close> and the byte
  counts \<open>bs\<close>; both records are of the level TRACE, and nothing is told below the logger's.
\<close>

definition told ::
    "'o logs \<Rightarrow> (log \<Rightarrow> bool) \<Rightarrow> 'o \<Rightarrow> 'o \<Rightarrow> string list \<Rightarrow> string list \<Rightarrow> bool" where
  "told lg takes o1 o2 as bs \<longleftrightarrow>
     (\<exists>es. list_all (\<lambda>e. takes (subject_log (fst e))) es \<and> run_statements lg es o1 = Ret o2 \<and>
        answer_status es = (if takes trace then as else []) \<and>
        bytes_sent es = (if takes trace then bs else []))"

definition silent :: "string \<Rightarrow> bool" where
  "silent msg \<longleftrightarrow> msg \<noteq> ''Serializing response'' \<and> msg \<noteq> ''Response sent successfully''"

lemma post_through: "post m Q \<Longrightarrow> (\<And>x. Q x \<Longrightarrow> post (f x) P) \<Longrightarrow> post (obind m f) P"
  by (auto simp: post_def obind_Ret_iff)

lemma post_noexcept: "post (noexcept m) P \<longleftrightarrow> post m P"
  by (simp add: post_def noexcept_Ret_iff)

lemma post_mono: "post m Q \<Longrightarrow> (\<And>x. Q x \<Longrightarrow> P x) \<Longrightarrow> post m P"
  by (simp add: post_def)

lemma post_Diverge [simp]: "post Diverge P"
  by (simp add: post_def)

text \<open>A log statement whose records below a level are not written.\<close>

locale telling_log =
  fixes lg :: "'o logs" and takes :: "log \<Rightarrow> bool"
  assumes skips: "\<not> takes (subject_log subj) \<Longrightarrow> lg subj msg d args o1 = Ret o1"
begin

lemma told_refl: "told lg takes o1 o1 [] []"
  unfolding told_def by (rule exI [of _ "[]"]) (simp add: answer_status_def bytes_sent_def)

lemma told_trans:
  assumes "told lg takes o0 o1 as bs" "told lg takes o1 o2 as' bs'"
  shows "told lg takes o0 o2 (as @ as') (bs @ bs')"
proof -
  from assms obtain es es' where
    "list_all (\<lambda>e. takes (subject_log (fst e))) es \<and> run_statements lg es o0 = Ret o1 \<and>
      answer_status es = (if takes trace then as else []) \<and> bytes_sent es = (if takes trace then bs else [])"
    "list_all (\<lambda>e. takes (subject_log (fst e))) es' \<and> run_statements lg es' o1 = Ret o2 \<and>
      answer_status es' = (if takes trace then as' else []) \<and> bytes_sent es' = (if takes trace then bs' else [])"
    unfolding told_def by blast
  then show ?thesis
    unfolding told_def
    by (intro exI [of _ "es @ es'"]) (simp add: run_statements_append answer_status_def bytes_sent_def)
qed

lemma told_after: "told lg takes o0 o1 [] [] \<Longrightarrow> told lg takes o1 o2 as bs \<Longrightarrow> told lg takes o0 o2 as bs"
  using told_trans [of o0 o1 "[]" "[]" o2 as bs] by simp

text \<open>One statement.\<close>

lemma told_one:
  assumes "lg subj msg d args o1 = Ret o2"
    and "subject_log subj = trace \<or> reported ''Serializing response'' ''status'' [(subj, msg, d, args)] = [] \<and>
      reported ''Response sent successfully'' ''bytes_sent'' [(subj, msg, d, args)] = []"
  shows "told lg takes o1 o2 (reported ''Serializing response'' ''status'' [(subj, msg, d, args)])
    (reported ''Response sent successfully'' ''bytes_sent'' [(subj, msg, d, args)])"
proof (cases "takes (subject_log subj)")
  case True
  with assms show ?thesis
    unfolding told_def answer_status_def bytes_sent_def
    by (intro exI [of _ "[(subj, msg, d, args)]"]) (auto simp del: reported_simps(3))
next
  case False
  with assms skips [OF False] have "o2 = o1" by simp
  with False assms(2) show ?thesis
    unfolding told_def answer_status_def bytes_sent_def
    by (intro exI [of _ "[]"]) (auto simp del: reported_simps(3))
qed

lemma told_silent: "lg subj msg d args o1 = Ret o2 \<Longrightarrow> silent msg \<Longrightarrow> told lg takes o1 o2 [] []"
  using told_one [of subj msg d args o1 o2] by (simp add: silent_def)

lemma told_sent:
  assumes "lg (On_level trace) ''Response sent successfully'' [id_field cl, (''bytes_sent'', n)] args o1 = Ret o2"
  shows "told lg takes o1 o2 [] [n]"
  using told_one [OF assms] by (simp add: id_field_def)

lemma told_serialising:
  assumes "lg (On_level trace) ''Serializing response'' [(''status'', n)] args o1 = Ret o2"
  shows "told lg takes o1 o2 [n] []"
  using told_one [OF assms] by simp

lemma after_log:
  assumes "told lg takes o0 o1 as bs" "silent msg" "\<And>o2. told lg takes o0 o2 as bs \<Longrightarrow> post (f o2) P"
  shows "post (obind (lg subj msg d args o1) f) P"
proof (rule post_through [where Q = "\<lambda>o2. told lg takes o0 o2 as bs"])
  show "post (lg subj msg d args o1) (\<lambda>o2. told lg takes o0 o2 as bs)"
    using told_trans [OF assms(1) told_silent [OF _ assms(2)]] by (auto simp: post_def)
qed (rule assms(3))

end

section \<open>What a sender tells\<close>

context telling_log
begin

definition sent_from ::
    "string \<Rightarrow> nat \<Rightarrow> string \<Rightarrow> 'o \<Rightarrow> ((bool \<times> send_result list \<times> string) \<times> 'o) outcome \<Rightarrow> bool" where
  "sent_from resp i out o0 r \<longleftrightarrow> post r (\<lambda>((good, _, out'), o1).
     told lg takes o0 o1 [] (if good then [dec (length resp)] else []) \<and>
     (if good then out' = out @ drop i resp
      else \<exists>k. i + k < length resp \<and> out' = out @ take k (drop i resp)))"

lemma sent_from_stop:
  "i < length resp \<Longrightarrow> silent msg \<Longrightarrow>
   sent_from resp i out o0 (obind (lg subj msg d args o0) (\<lambda>o1. Ret ((False, ss, out), o1)))"
  unfolding sent_from_def by (rule after_log [OF told_refl]) (auto intro!: exI [of _ 0])

lemma sent_from_done:
  "\<not> i < length resp \<Longrightarrow>
   sent_from resp i out o0 (obind (lg (On_level trace) ''Response sent successfully''
     [id_field cl, (''bytes_sent'', dec (length resp))] [] o0) (\<lambda>o1. Ret ((True, ss, out), o1)))"
  unfolding sent_from_def
  by (rule post_through [where Q = "\<lambda>o1. told lg takes o0 o1 [] [dec (length resp)]"])
     (auto simp: post_def intro: told_sent)

lemma sent_from_Diverge: "sent_from resp i out o0 Diverge"
  by (simp add: sent_from_def)

lemma sent_from_later:
  assumes "sent_from resp (i + n) (out @ take n (drop i resp)) o0 r"
  shows "sent_from resp i out o0 r"
proof -
  have part: "(out @ take n (drop i resp)) @ take k (drop (i + n) resp) = out @ take (n + k) (drop i resp)" for k
    by (simp only: take_add drop_drop add.commute [of n i] append_assoc)
  have whole: "(out @ take n (drop i resp)) @ drop (i + n) resp = out @ drop i resp"
    by (metis append_assoc add.commute append_take_drop_id drop_drop)
  show ?thesis
    using assms unfolding sent_from_def part whole
    by (rule post_mono) (auto simp: add.assoc split: if_splits)
qed

lemma sent_from_log:
  assumes "silent msg" "\<And>o1. sent_from resp i out o1 (f o1)"
  shows "sent_from resp i out o0 (obind (lg subj msg d args o0) f)"
  unfolding sent_from_def
proof (rule after_log [OF told_refl assms(1)])
  fix o1 assume "told lg takes o0 o1 [] []"
  from told_trans [OF this] assms(2) [of o1, unfolded sent_from_def]
  show "post (f o1) (\<lambda>((good, _, out'), o2).
     told lg takes o0 o2 [] (if good then [dec (length resp)] else []) \<and>
     (if good then out' = out @ drop i resp
      else \<exists>k. i + k < length resp \<and> out' = out @ take k (drop i resp)))"
    by (rule_tac post_mono) fastforce+
qed

lemmas sent_from_intros = sent_from_stop sent_from_done sent_from_Diverge

lemma http_send_tells: "sent_from resp i out o0 (http_send_logged lg val cl script resp i out o0)"
proof (induction script arbitrary: i out)
  case Nil
  show ?case
    by (subst http_send_logged.simps) (auto intro: sent_from_intros)
next
  case (Cons a script)
  show ?case
    using Cons.IH [of i] sent_from_later [OF Cons.IH]
    by (subst http_send_logged.simps, cases a)
       (auto simp: silent_def Let_def intro!: sent_from_intros)
qed

lemma tls_send_tells: "sent_from resp i out o0 (tls_send_logged lg val cl script resp i out o0)"
proof (induction script arbitrary: i out o0)
  case Nil
  show ?case
    by (subst tls_send_logged.simps) (auto simp: Let_def intro: sent_from_intros)
next
  case (Cons a script)
  show ?case
    using Cons.IH [of i] sent_from_later [OF Cons.IH] sent_from_log [OF _ Cons.IH]
    by (subst tls_send_logged.simps, cases a)
       (auto simp: silent_def Let_def intro!: sent_from_intros)
qed

text \<open>Nothing was answered, or one answer was begun: what the records say of it.\<close>

definition answered :: "json_dumper \<Rightarrow> endpoint \<Rightarrow> 'o \<Rightarrow> bool \<Rightarrow> endpoint \<Rightarrow> 'o \<Rightarrow> bool" where
  "answered jdump ep o0 good ep' o1 \<longleftrightarrow>
     (told lg takes o0 o1 [] [] \<and> wire ep' = wire ep \<and> \<not> good) \<or>
     (\<exists>r t. serialize jdump r = Ret t \<and>
        (told lg takes o0 o1 [dec (http_code (resp_status r))] [dec (length t)] \<and> wire ep' = wire ep @ t \<or>
         told lg takes o0 o1 [dec (http_code (resp_status r))] [] \<and> \<not> good \<and>
           (\<exists>k < length t. wire ep' = wire ep @ take k t)))"

text \<open>The text of one answer is there, and its status was told.\<close>

definition prepared :: "json_dumper \<Rightarrow> 'o \<Rightarrow> string \<Rightarrow> 'o \<Rightarrow> bool" where
  "prepared jdump o0 t o1 \<longleftrightarrow>
     (\<exists>r. serialize jdump r = Ret t \<and> told lg takes o0 o1 [dec (http_code (resp_status r))] [])"

definition received ::
    "json_dumper \<Rightarrow> endpoint \<Rightarrow> 'o \<Rightarrow> ((string option \<times> endpoint \<times> world) \<times> 'o) outcome \<Rightarrow> bool" where
  "received jdump ep0 o0 m \<longleftrightarrow> post m (\<lambda>((req, ep', _), o1).
     if req = None then answered jdump ep0 o0 False ep' o1 else told lg takes o0 o1 [] [] \<and> wire ep' = wire ep0)"

lemma received_Ret:
  "told lg takes o0 o1 [] [] \<Longrightarrow> wire ep = wire ep0 \<Longrightarrow> received jdump ep0 o0 (Ret ((req, ep, w), o1))"
  by (auto simp: received_def answered_def)

lemma received_Diverge: "received jdump ep0 o0 Diverge"
  by (simp add: received_def)

lemma received_log:
  assumes "told lg takes o0 o1 [] []" "silent msg"
    and "\<And>o2. told lg takes o0 o2 [] [] \<Longrightarrow> received jdump ep0 o0 (f o2)"
  shows "received jdump ep0 o0 (obind (lg subj msg d args o1) f)"
  using assms unfolding received_def by (rule after_log)

lemmas received_intros = received_log received_Ret received_Diverge

lemma serialized_tells:
  "post (serialize_logged (without_args lg) jdump r o1) (\<lambda>(t, o2).
     serialize jdump r = Ret t \<and> told lg takes o1 o2 [dec (http_code (resp_status r))] [])"
proof -
  have "serialize jdump r = Ret t \<and> told lg takes o1 o2 [dec (http_code (resp_status r))] []"
    if run: "serialize_logged (without_args lg) jdump r o1 = Ret (t, o2)" for t o2
  proof -
    have "lg (On_level trace) ''Serializing response'' [(''status'', dec (http_code (resp_status r)))] [] o1 = Ret o2"
      and "serialize jdump r = Ret t"
      using run by (auto simp: serialize_logged_def without_args_def serialize_def outcome_simps split: option.splits)
    then show ?thesis by (simp add: told_serialising)
  qed
  then show ?thesis by (auto simp: post_def)
qed

end

locale telling_sender = telling_log lg takes for lg :: "'o logs" and takes :: "log \<Rightarrow> bool" +
  fixes send :: "'o sender"
  assumes tells: "post (send resp ep o0) (\<lambda>((good, ep'), o1).
    told lg takes o0 o1 [] (if good then [dec (length resp)] else []) \<and> arrivals ep' = arrivals ep \<and>
    (if good then wire ep' = wire ep @ resp
     else \<exists>k < length resp. wire ep' = wire ep @ take k resp))"
begin

lemma answer_tells:
  assumes "serialize jdump r = Ret t" "told lg takes o0 o1 [dec (http_code (resp_status r))] []" "wire ep = wire ep0"
  shows "post (send t ep o1) (\<lambda>((good, ep'), o2). answered jdump ep0 o0 good ep' o2)"
proof -
  have "answered jdump ep0 o0 good ep' o2"
    if "told lg takes o1 o2 [] (if good then [dec (length t)] else [])"
      "if good then wire ep' = wire ep @ t else \<exists>k < length t. wire ep' = wire ep @ take k t" for good ep' o2
    using told_trans [OF assms(2) that(1)] that(2) assms(1,3)
    by (cases good) (simp_all only: answered_def, auto)
  note one = this
  show ?thesis by (rule post_mono [OF tells]) (simp only: split_paired_all prod.case, blast intro: one)
qed

lemma last_answer_tells:
  assumes "prepared jdump o0 t o1" "wire ep = wire ep0"
  shows "post (obind (noexcept (send t ep o1)) (\<lambda>((sent, ep2), o4). Ret ((sent, conn, ep2, w), o4)))
    (\<lambda>((good, _, ep', _), o2). answered jdump ep0 o0 good ep' o2)"
proof -
  obtain r where "serialize jdump r = Ret t" "told lg takes o0 o1 [dec (http_code (resp_status r))] []"
    using assms(1) by (auto simp: prepared_def)
  from answer_tells [OF this assms(2)] show ?thesis
    unfolding post_noexcept [of "send t ep o1", symmetric] by (rule post_through) auto
qed

lemma refuse_received:
  assumes "\<And>o2. logged = Ret o2 \<Longrightarrow> told lg takes o0 o2 [] []" "wire ep = wire ep0"
  shows "received jdump ep0 o0 (refuse_logged lg jdump send code ep w logged)"
proof -
  have "req = None \<and> answered jdump ep0 o0 False ep' o1"
    if run: "refuse_logged lg jdump send code ep w logged = Ret ((req, ep', w'), o1)" for req ep' w' o1
  proof -
    let ?r = "fst (makeResp_fresh code (JObject []) w)"
    from run obtain o2 t o3 good where logged: "logged = Ret o2"
        and ser: "serialize_logged (without_args lg) jdump ?r o2 = Ret (t, o3)"
        and sent: "send t ep o3 = Ret ((good, ep'), o1)" and req: "req = None"
      by (auto simp: refuse_logged_def send_status_logged_def outcome_simps split_beta Let_def)
    have "serialize jdump ?r = Ret t" "told lg takes o2 o3 [dec (http_code (resp_status ?r))] []"
      using serialized_tells [of jdump ?r o2] ser by (simp_all add: post_def)
    with told_trans [OF assms(1) [OF logged] this(2)] have "answered jdump ep0 o0 good ep' o1"
      using answer_tells [OF _ _ assms(2)] sent by (fastforce simp: post_def)
    with req show ?thesis unfolding answered_def by blast
  qed
  then show ?thesis unfolding received_def by (auto simp: post_def)
qed

end

text \<open>Both senders meet it, over any such log.\<close>

sublocale telling_log \<subseteq> http: telling_sender lg takes "HttpConnection_send_logged lg val cl" for val cl
proof unfold_locales
  fix resp :: string and ep :: endpoint and o0 :: 'o
  show "post (HttpConnection_send_logged lg val cl resp ep o0) (\<lambda>((good, ep'), o1).
      told lg takes o0 o1 [] (if good then [dec (length resp)] else []) \<and> arrivals ep' = arrivals ep \<and>
      (if good then wire ep' = wire ep @ resp
       else \<exists>k < length resp. wire ep' = wire ep @ take k resp))"
    unfolding HttpConnection_send_logged_def
    by (rule post_through [OF http_send_tells [unfolded sent_from_def]]) auto
qed

sublocale telling_log \<subseteq> tls: telling_sender lg takes "HttpsConnection_send_logged lg val cl" for val cl
proof unfold_locales
  fix resp :: string and ep :: endpoint and o0 :: 'o
  show "post (HttpsConnection_send_logged lg val cl resp ep o0) (\<lambda>((good, ep'), o1).
      told lg takes o0 o1 [] (if good then [dec (length resp)] else []) \<and> arrivals ep' = arrivals ep \<and>
      (if good then wire ep' = wire ep @ resp
       else \<exists>k < length resp. wire ep' = wire ep @ take k resp))"
    unfolding HttpsConnection_send_logged_def
    by (rule post_through [OF tls_send_tells [unfolded sent_from_def]]) auto
qed

section \<open>What a connection tells\<close>

context telling_log
begin

lemma http_recv_tells:
  "told lg takes o0 o1 [] [] \<Longrightarrow> wire ep = wire ep0 \<Longrightarrow>
   received jdump ep0 o0 (http_recv_logged lg val jdump cl beyond bufsz buf resbytes req ep w o1)"
proof (induction jdump beyond bufsz buf resbytes req ep w arbitrary: o1 rule: http_recv_loop.induct)
  case (1 jdump beyond bufsz buf resbytes req ep w)
  have after: "told lg takes o0 o2 [] []" if "lg subj msg d args o1 = Ret o2" "silent msg" for subj msg d args o2
    using told_trans [OF "1.prems"(1) told_silent [OF that]] by simp
  show ?case
  proof (cases "receive bufsz (arrivals ep)")
    case None
    then show ?thesis by (subst http_recv_logged.simps) (simp add: received_Diverge)
  next
    case (Some x)
    obtain a as where x: "x = (a, as)" by fastforce
    show ?thesis
      using "1.prems" "1.IH" [OF Some x [symmetric] refl]
      by (subst http_recv_logged.simps, cases a)
         (auto simp: Some x Let_def silent_def intro!: received_intros http.refuse_received intro: after)
  qed
qed

lemma tls_recv_tells:
  "told lg takes o0 o1 [] [] \<Longrightarrow> wire ep = wire ep0 \<Longrightarrow>
   received jdump ep0 o0 (tls_recv_logged lg val jdump cl bufsz resbytes req ep w o1)"
proof (induction jdump bufsz resbytes req ep w arbitrary: o1 rule: tls_recv_loop.induct)
  case (1 jdump bufsz resbytes req ep w)
  have after: "told lg takes o0 o2 [] []" if "lg subj msg d args o1 = Ret o2" "silent msg" for subj msg d args o2
    using told_trans [OF "1.prems"(1) told_silent [OF that]] by simp
  show ?case
  proof (cases "receive bufsz (arrivals ep)")
    case None
    then show ?thesis by (subst tls_recv_logged.simps) (simp add: received_Diverge)
  next
    case (Some x)
    obtain a as where x: "x = (a, as)" by fastforce
    show ?thesis
      using "1.prems" "1.IH" [OF Some x [symmetric] refl]
      by (subst tls_recv_logged.simps, cases a)
         (auto simp: Some x Let_def silent_def intro!: received_intros tls.refuse_received intro: after)
  qed
qed

text \<open>The codec and the router tell of the answer only where they serialise it.\<close>

lemma after_quiet:
  assumes "told lg takes o0 o1 as bs" "silent msg" "\<And>o2. told lg takes o0 o2 as bs \<Longrightarrow> post (f o2) P"
  shows "post (obind (without_args lg subj msg d o1) f) P"
  unfolding without_args_def by (rule after_log [OF assms])

lemmas quiet_steps = after_quiet
  post_obind [where m = "sv_substr t i n" for t i n]
  post_obind [where m = "parse_target t" for t]
  post_obind [where m = "parse_headers t" for t]
  post_obind [where m = "parse_body jparse t i" for jparse t i]
  post_obind [where m = "Router_route t req w" for t req w]

lemma parse_tells:
  assumes "told lg takes o0 o1 [] []"
  shows "post (parse_logged (without_args lg) jparse what raw w o1) (\<lambda>(_, _, o2). told lg takes o0 o2 [] [])"
  using assms unfolding parse_logged_def Let_def
  by (auto simp: split_beta silent_def intro!: quiet_steps split: option.split)

lemma Route_tells:
  assumes "told lg takes o0 o1 [] []"
  shows "post (Route_logged (without_args lg) m req w o1) (\<lambda>(_, _, o2). told lg takes o0 o2 [] [])"
  using assms unfolding Route_logged_def Let_def
  by (auto simp: split_beta silent_def post_noexcept intro!: quiet_steps split: option.split)

lemma serialized_prepared:
  assumes "told lg takes o0 o1 [] []"
  shows "post (obind (serialize_logged (without_args lg) jdump r o1) (\<lambda>(out, o2). Ret (out, c', w', o2)))
    (\<lambda>(t, _, _, o2). prepared jdump o0 t o2)"
  by (rule post_through [OF serialized_tells])
     (auto simp: prepared_def, blast intro: told_after [OF assms])

lemma answer_logged_tells:
  assumes "told lg takes o0 o1 [] []"
  shows "post (answer_logged (without_args lg) jdump mgr c req w o1) (\<lambda>(t, _, _, o2). prepared jdump o0 t o2)"
proof -
  have chosen: "post (case req of
           None \<Rightarrow>
             obind (without_args lg (On_level debug) ''Request parsing failed, returning error response'' [] o1) (\<lambda>o2.
             (let (resp, w2) = makeResp_fresh InvalidJsonOrParams (JObject []) w in Ret (resp, w2, o2)))
         | Some r \<Rightarrow>
             obind (Route_logged (without_args lg) mgr r w o1) (\<lambda>(resp, w2, o2).
             case resp of
               None \<Rightarrow>
                 obind (without_args lg (On_level critical) ''Router not initialized'' fields o2) (\<lambda>o3.
                 (let (x, w3) = makeResp_fresh InternalError (JObject []) w2 in Ret (x, w3, o3)))
             | Some x \<Rightarrow> Ret (x, w2, o2))) (\<lambda>(_, _, o2). told lg takes o0 o2 [] [])" for fields
    using assms
    by (cases req)
       (auto simp: split_beta silent_def intro!: after_quiet post_through [OF Route_tells [OF assms]] split: option.split)
  show ?thesis
    unfolding answer_logged_def Let_def
    by (rule post_through [OF chosen [unfolded Let_def]])
       (auto simp: silent_def intro!: after_quiet serialized_prepared)
qed

lemma execution_tells:
  assumes "told lg takes o0 o1 [] []"
  shows "post (execution_logged lg jparse jdump what mgr conn w o1) (\<lambda>((t, _), o2). prepared jdump o0 t o2)"
proof -
  have "post (process_logged (without_args lg) jparse jdump what mgr new_codec (conn_req conn) w o2)
      (\<lambda>(t, _, _, o3). prepared jdump o0 t o3)" if "told lg takes o0 o2 [] []" for o2
    unfolding process_logged_def
    by (rule post_through [OF parse_tells [OF that]]) (auto intro: answer_logged_tells)
  note made = this
  show ?thesis
    unfolding execution_logged_def post_noexcept
    by (rule after_log [OF assms]) (simp add: silent_def, rule post_through [OF made], auto)
qed

lemma http_process_tells:
  "post (HttpConnection_process_logged lg val jparse jdump what mgr buf beyond conn ep w o0)
    (\<lambda>((good, _, ep', _), o1). answered jdump ep o0 good ep' o1)"
proof -
  have got: "post (HttpConnection_recv_logged lg val jdump buf beyond conn ep w o1)
      (\<lambda>((good, _, ep', _), o2). if good then told lg takes o0 o2 [] [] \<and> wire ep' = wire ep
         else answered jdump ep o0 False ep' o2)" if "told lg takes o0 o1 [] []" for o1
    unfolding HttpConnection_recv_logged_def post_noexcept
    by (rule post_through [OF http_recv_tells [OF that refl, unfolded received_def]])
       (auto split: option.split)
  show ?thesis
    unfolding HttpConnection_process_logged_def
    by (rule after_log [OF told_refl])
       (auto simp: silent_def intro!: post_through [OF got] post_through [OF execution_tells]
         http.last_answer_tells)
qed

lemma https_process_tells:
  "post (HttpsConnection_process_logged lg val jparse jdump what mgr conn ep w o0)
    (\<lambda>((good, _, ep', _), o1). answered jdump ep o0 good ep' o1)"
proof -
  have got: "post (HttpsConnection_recv_logged lg val jdump conn ep w o1)
      (\<lambda>((good, _, ep', _), o2). if good then told lg takes o0 o2 [] [] \<and> wire ep' = wire ep
         else answered jdump ep o0 False ep' o2)" if "told lg takes o0 o1 [] []" for o1
    unfolding HttpsConnection_recv_logged_def post_noexcept
    by (rule post_through [OF tls_recv_tells [OF that refl, unfolded received_def]])
       (auto split: option.split)
  show ?thesis
    unfolding HttpsConnection_process_logged_def
    by (rule after_log [OF told_refl])
       (auto simp: silent_def intro!: post_through [OF got] post_through [OF execution_tells]
         tls.last_answer_tells)
qed

end

section \<open>The log system\<close>

definition takes_level :: "log_system \<Rightarrow> log \<Rightarrow> bool" where
  "takes_level s lvl \<longleftrightarrow> logs_at s lvl \<noteq> None"

interpretation macro: telling_log "LOG_args lapi vformat s at" "takes_level s" for lapi vformat s at
  by unfold_locales (auto simp: takes_level_def LOG_args_def LOG_def logs_at_def split: if_splits option.splits)

section \<open>Properties\<close>

text \<open>
  C16. The log tells the truth about the answer. When \<open>process\<close> of a connection returns under
  the macro \<open>LOG\<close>, the outputs are what some sequence of statements that the logger takes
  has written. When the logger takes TRACE records, these say that no answer was made, and
  then nothing was sent, or they name the status of the one response that was made; they
  report its bytes as sent exactly when all of them are on the wire, otherwise a proper
  beginning of it is. Only then does \<open>process\<close> return true. With a logger above TRACE the
  connection does the same and the log has neither record.
\<close>
theorem log_tells_delivery:
  assumes "HttpsConnection_process_logged (LOG_args lapi vformat s at) val jparse jdump what mgr conn ep w o0 =
      Ret ((good, conn', ep', w'), o1) \<or>
    HttpConnection_process_logged (LOG_args lapi vformat s at) val jparse jdump what mgr buf beyond conn ep w o0 =
      Ret ((good, conn', ep', w'), o1)"
  shows "\<exists>es sts sizes. run_statements (LOG_args lapi vformat s at) es o0 = Ret o1 \<and>
    list_all (\<lambda>e. takes_level s (subject_log (fst e))) es \<and>
    answer_status es = (if takes_level s trace then sts else []) \<and>
    bytes_sent es = (if takes_level s trace then sizes else []) \<and>
    (sts = [] \<and> sizes = [] \<and> wire ep' = wire ep \<and> \<not> good \<or>
     (\<exists>r t. serialize jdump r = Ret t \<and> sts = [dec (http_code (resp_status r))] \<and>
       (sizes = [dec (length t)] \<and> wire ep' = wire ep @ t \<or>
        sizes = [] \<and> \<not> good \<and> (\<exists>k < length t. wire ep' = wire ep @ take k t))))"
proof -
  have "macro.answered lapi vformat s at jdump ep o0 good ep' o1"
    using assms macro.http_process_tells [of lapi vformat s at val jparse jdump what mgr buf beyond conn ep w o0]
      macro.https_process_tells [of lapi vformat s at val jparse jdump what mgr conn ep w o0]
    by (auto simp: post_def)
  then show ?thesis unfolding macro.answered_def told_def by fast
qed

text \<open>A read error, answered to a client that has gone, with every record on the console.\<close>

definition broken_endpoint :: endpoint where
  "broken_endpoint = \<lparr>arrivals = [Failed], sends = [Send_closed], wire = [], closed_fds = [], ssl_freed = 0\<rparr>"

lemma sample_prints: "\<not> unprintable (sample_api d) (sample_system Format_console)"
  by (auto simp: unprintable_def logs_at_def LogSystem_Get_def LogManager_Get_def sample_system_def
      printable_by_def formats_def sample_api_def split: if_splits)

theorem log_tells_delivery_witness:
  "\<exists>conn' ep' w' o1 es. HttpsConnection_process_logged
      (LOG_args (sample_api (\<lambda>_. None)) (\<lambda>_ _. None) (sample_system Format_console) nowhere) (\<lambda>_. ''?'')
      (\<lambda>_. Parse_error) (\<lambda>_. Some ''{}'') (\<lambda>_. []) None (new_connection default_client 1024) broken_endpoint
      sample_world sample_outputs = Ret ((False, conn', ep', w'), o1) \<and>
    run_statements (LOG_args (sample_api (\<lambda>_. None)) (\<lambda>_ _. None) (sample_system Format_console) nowhere) es
      sample_outputs = Ret o1 \<and> (bytes_sent es = [] \<or> wire ep' \<noteq> [])"
proof -
  let ?lg = "LOG_args (sample_api (\<lambda>_. None)) (\<lambda>_ _. None) (sample_system Format_console) nowhere"
  let ?run = "HttpsConnection_process_logged ?lg (\<lambda>_. ''?'') (\<lambda>_. Parse_error) (\<lambda>_. Some ''{}'')
      (\<lambda>_. []) None (new_connection default_client 1024) broken_endpoint sample_world sample_outputs"
  obtain t where t: "serialize (\<lambda>_. Some ''{}'') (fst (makeResp_fresh InternalError (JObject []) sample_world)) = Ret t"
    by (auto simp: serialize_def)
  have "\<exists>ep'. HttpsConnection_send t (broken_endpoint\<lparr>arrivals := []\<rparr>) = Ret (t = [], ep')"
    by (subst HttpsConnection_send_def, subst tls_send_loop.simps) (auto simp: broken_endpoint_def Let_def)
  then have "\<exists>conn' ep' w'. HttpsConnection_process (\<lambda>_. Parse_error) (\<lambda>_. Some ''{}'') None
      (new_connection default_client 1024) broken_endpoint sample_world = Ret (False, conn', ep', w')"
    using t by (auto simp: HttpsConnection_process_def HttpsConnection_recv_def tls_recv_loop.simps
        broken_endpoint_def send_status_def new_connection_def split_beta)
  moreover have "obind ?run (\<lambda>(a, _). Ret a) = HttpsConnection_process (\<lambda>_. Parse_error) (\<lambda>_. Some ''{}'') None
      (new_connection default_client 1024) broken_endpoint sample_world"
    using logged.https_process_follows [where lapi = "sample_api (\<lambda>_. None)" and s = "sample_system Format_console"]
      sample_prints by (auto simp: follows_def)
  ultimately obtain conn' ep' w' o1 where run: "?run = Ret ((False, conn', ep', w'), o1)"
    by (auto simp: obind_Ret_iff)
  from log_tells_delivery [OF disjI1 [OF run]]
  obtain es where "run_statements ?lg es sample_outputs = Ret o1" "bytes_sent es = [] \<or> wire ep' \<noteq> []"
    by (auto simp: serialize_def split: if_splits)
  with run show ?thesis by blast
qed

end
