(* ===== verification/Syslog.thy ===== *)
theory Syslog
  imports Status
begin

text \<open>
  \<open>src/src/common/.../tostring.h\<close> and \<open>src/src/logging/.../syslog.h\<close>: the conversions of
  values to text, and the messages the logging code prints about itself. \<open>fmt\<close> is the
  parameter \<open>vformat\<close>, a map from a format string and the texts of its arguments to the
  result, or to the message of the exception it throws.
\<close>

section \<open>Values as text\<close>

text \<open>An enumerator, or any other value with the text \<open>fmt::format("{}", value)\<close> has.\<close>

datatype any_value = Enumerator nat | Formatted string

fun value_to_string :: "any_value \<Rightarrow> string" where
  "value_to_string (Enumerator n) = dec n"
| "value_to_string (Formatted t) = t"

text \<open>A field of a log record, \<open>field(key, value)\<close>.\<close>

definition log_field :: "string \<Rightarrow> any_value \<Rightarrow> string \<times> string" where
  "log_field key v = (key, value_to_string v)"

text \<open>\<open>LogStream::operator<<\<close>: the text of the value goes behind the arguments of the message.\<close>

definition LogStream_append :: "string list \<Rightarrow> any_value \<Rightarrow> string list" where
  "LogStream_append buffer v = buffer @ [value_to_string v]"

text \<open>
  \<open>concat\<close>: a space goes behind every argument and the last one is taken away;
  \<open>pop_back\<close> on the empty string of an empty pack is undefined (\<open>None\<close>).
\<close>

definition concat_values :: "any_value list \<Rightarrow> string option" where
  "concat_values args =
     (let res = foldl (\<lambda>res a. res @ value_to_string a @ '' '') [] args in
      if res = [] then None else Some (butlast res))"

fun spaced :: "string list \<Rightarrow> string" where
  "spaced [] = []"
| "spaced [t] = t"
| "spaced (t # ts) = t @ '' '' @ spaced ts"

lemma foldl_spaced:
  assumes "args \<noteq> []"
  shows "foldl (\<lambda>res a. res @ value_to_string a @ '' '') [] args = spaced (map value_to_string args) @ '' ''"
proof -
  have "foldl (\<lambda>res a. res @ value_to_string a @ '' '') r args = r @ concat (map (\<lambda>a. value_to_string a @ '' '') args)"
    for r by (induction args arbitrary: r) simp_all
  moreover have "concat (map (\<lambda>t. t @ '' '') ts) = spaced ts @ '' ''" if "ts \<noteq> []" for ts
    using that by (induction ts rule: spaced.induct) simp_all
  from this [of "map value_to_string args"]
  have "concat (map (\<lambda>a. value_to_string a @ '' '') args) = spaced (map value_to_string args) @ '' ''"
    using assms by (simp add: comp_def)
  ultimately show ?thesis by simp
qed

text \<open>Every argument once, with one space between two neighbours.\<close>

lemma concat_values_spaced:
  "concat_values args = (if args = [] then None else Some (spaced (map value_to_string args)))"
  by (simp add: concat_values_def foldl_spaced Let_def butlast_append)

section \<open>Messages of the logging code itself\<close>

type_synonym formatter = "string \<Rightarrow> string list \<Rightarrow> string + string"

datatype std_stream = Stdout | Stderr

text \<open>The format and where the message comes from.\<close>

record ErrorMessage =
  em_format :: string
  em_file :: string
  em_line :: nat
  em_column :: nat

definition syslog_pattern :: "log \<Rightarrow> string \<Rightarrow> string" where
  "syslog_pattern lvl f =
     ''['' @ log_reason lvl @ ''_SYSLOG] {}:({}:{}) '' @ f @ [CHR 0x0A]"

definition syslog ::
    "formatter \<Rightarrow> std_stream \<Rightarrow> log \<Rightarrow> ErrorMessage \<Rightarrow> any_value list \<Rightarrow> std_stream \<times> string" where
  "syslog vformat out lvl em args =
     (case vformat (syslog_pattern lvl (em_format em))
             ([em_file em, dec (em_line em), dec (em_column em)] @ map value_to_string args) of
        Inl msg \<Rightarrow> (Stderr, msg @ [CHR 0x0A])
      | Inr t \<Rightarrow> (out, t))"

definition sys_info :: "formatter \<Rightarrow> ErrorMessage \<Rightarrow> any_value list \<Rightarrow> std_stream \<times> string" where
  "sys_info vformat em args = syslog vformat Stdout info em args"

definition sys_error :: "formatter \<Rightarrow> ErrorMessage \<Rightarrow> any_value list \<Rightarrow> std_stream \<times> string" where
  "sys_error vformat em args = syslog vformat Stderr error em args"

definition sys_crit :: "formatter \<Rightarrow> ErrorMessage \<Rightarrow> any_value list \<Rightarrow> std_stream \<times> string" where
  "sys_crit vformat em args = syslog vformat Stderr critical em args"

definition sys_warn :: "formatter \<Rightarrow> ErrorMessage \<Rightarrow> any_value list \<Rightarrow> std_stream \<times> string" where
  "sys_warn vformat em args = syslog vformat Stdout warning em args"

end
