(* ===== verification/System.thy ===== *)
theory System
  imports Worker
begin

text \<open>
  The TLS server as a whole (\<open>https_server.cc\<close>, \<open>https_connection.cc\<close>): the parent in its
  intake cycle and the workers it forked, as one step relation. The parent's steps are those
  of \<open>tls_step\<close>; the end of a child is the run of \<open>https_worker\<close> on what its client sends
  and takes. Workers run beside one another and share nothing but the listening socket.
\<close>

record worker =
  w_client :: ClientConnection
  w_fds :: "int list"              \<comment> \<open>the descriptors the process starts with\<close>
  w_start :: endpoint              \<comment> \<open>the client's side of the connection, from the fork on\<close>
  w_world :: world
  w_end :: "endpoint option"       \<comment> \<open>what is left when the worker has exited\<close>

record tls_system =
  sys_intake :: intake
  workers :: "worker list"         \<comment> \<open>in the order of \<open>procs\<close>\<close>

definition system_start :: "int \<Rightarrow> tls_system" where
  "system_start l = \<lparr>sys_intake = intake_start l, workers = []\<rparr>"

definition run_worker ::
    "json_parser \<Rightarrow> json_dumper \<Rightarrow> manager \<Rightarrow> nat \<Rightarrow> int \<Rightarrow> worker \<Rightarrow> endpoint outcome" where
  "run_worker jparse jdump m bufsz l wk =
     https_worker jparse jdump m l (w_client wk) bufsz (w_start wk) (w_world wk)"

definition untouched :: "endpoint \<Rightarrow> bool" where
  "untouched ep \<longleftrightarrow> closed_fds ep = [] \<and> wire ep = [] \<and> ssl_freed ep = 0"

inductive system_step ::
    "json_parser \<Rightarrow> json_dumper \<Rightarrow> manager \<Rightarrow> nat \<Rightarrow> tls_system \<Rightarrow> tls_system \<Rightarrow> bool"
  for jparse jdump m bufsz where
  parent: "tls_step (sys_intake s) t \<Longrightarrow> procs t = procs (sys_intake s) \<Longrightarrow>
    system_step jparse jdump m bufsz s (s\<lparr>sys_intake := t\<rparr>)"
| forked: "pc (sys_intake s) = Dispatching (sockfd cl) \<Longrightarrow> untouched ep \<Longrightarrow>
    system_step jparse jdump m bufsz s
      (s\<lparr>sys_intake := next_turn (sockfd cl) (fork_child (sockfd cl) (sys_intake s)),
         workers := workers s @ [\<lparr>w_client = cl, w_fds = lfd (sys_intake s) # fds (sys_intake s),
           w_start = ep, w_world = w, w_end = None\<rparr>]\<rparr>)"
| ended: "i < length (procs (sys_intake s)) \<Longrightarrow> procs (sys_intake s) ! i = Child fd os \<Longrightarrow>
    run_worker jparse jdump m bufsz (lfd (sys_intake s)) (workers s ! i) = Ret ep \<Longrightarrow>
    system_step jparse jdump m bufsz s
      (s\<lparr>sys_intake := (sys_intake s)\<lparr>procs := (procs (sys_intake s))[i := Exited]\<rparr>,
         workers := (workers s)[i := (workers s ! i)\<lparr>w_end := Some ep\<rparr>]\<rparr>)"
| aborted: "i < length (procs (sys_intake s)) \<Longrightarrow> procs (sys_intake s) ! i = Child fd os \<Longrightarrow>
    run_worker jparse jdump m bufsz (lfd (sys_intake s)) (workers s ! i) = Terminate \<Longrightarrow>
    system_step jparse jdump m bufsz s
      (s\<lparr>sys_intake := (sys_intake s)\<lparr>procs := (procs (sys_intake s))[i := Exited]\<rparr>\<rparr>)"

section \<open>The invariant\<close>

text \<open>
  A worker starts with the listening socket and its client's descriptor, and with none of
  another client (descriptor 0 apart); an end that was recorded is the one of its run.
\<close>

definition worker_ok ::
    "json_parser \<Rightarrow> json_dumper \<Rightarrow> manager \<Rightarrow> nat \<Rightarrow> int \<Rightarrow> proc \<Rightarrow> worker \<Rightarrow> bool" where
  "worker_ok jparse jdump m bufsz l p wk \<longleftrightarrow>
     set (w_fds wk) - {0} \<subseteq> {l, sockfd (w_client wk)} \<and> 0 \<le> sockfd (w_client wk) \<and>
     untouched (w_start wk) \<and>
     (case w_end wk of None \<Rightarrow> True
      | Some ep \<Rightarrow> p = Exited \<and> run_worker jparse jdump m bufsz l wk = Ret ep)"

text \<open>The intake of a reachable system is a reachable intake.\<close>

definition system_ok :: "json_parser \<Rightarrow> json_dumper \<Rightarrow> manager \<Rightarrow> nat \<Rightarrow> int \<Rightarrow> tls_system \<Rightarrow> bool" where
  "system_ok jparse jdump m bufsz l s \<longleftrightarrow>
     tls_step\<^sup>*\<^sup>* (intake_start l) (sys_intake s) \<and> lfd (sys_intake s) = l \<and>
     list_all2 (worker_ok jparse jdump m bufsz l) (procs (sys_intake s)) (workers s)"

lemma tls_step_lfd: "tls_step s t \<Longrightarrow> lfd t = lfd s"
  by (induction rule: tls_step.induct) (simp_all add: next_turn_def fork_child_def)

lemma system_ok_start: "system_ok jparse jdump m bufsz l (system_start l)"
  by (simp add: system_ok_def system_start_def intake_start_def)

lemma system_okI:
  assumes "system_ok jparse jdump m bufsz l s" "tls_step (sys_intake s) t"
    "list_all2 (worker_ok jparse jdump m bufsz l) (procs t) ws"
  shows "system_ok jparse jdump m bufsz l (s\<lparr>sys_intake := t, workers := ws\<rparr>)"
  using assms tls_step_lfd [OF assms(2)]
  by (auto simp: system_ok_def intro: rtranclp.rtrancl_into_rtrancl)

lemma system_ok_step:
  assumes "system_step jparse jdump m bufsz s s'" "system_ok jparse jdump m bufsz l s"
  shows "system_ok jparse jdump m bufsz l s'"
  using assms
proof (induction rule: system_step.induct)
  case (parent s t)
  then show ?case using system_okI [OF parent.prems parent.hyps(1), of "workers s"]
    by (simp add: system_ok_def)
next
  case (forked s cl ep w)
  let ?t = "next_turn (sockfd cl) (fork_child (sockfd cl) (sys_intake s))"
  have "intake_ok (sys_intake s)"
    using forked.prems tls_machine.reachable_inv by (auto simp: system_ok_def)
  then have "set (fds (sys_intake s)) - {0} \<subseteq> {sockfd cl}" "0 \<le> sockfd cl"
    using forked.hyps(1) by (auto simp: intake_ok_def)
  then show ?case
    using forked.prems forked.hyps(2)
    by (intro system_okI [OF forked.prems tls_step.fork_done [OF forked.hyps(1)]])
       (auto simp: system_ok_def next_turn_def fork_child_def worker_ok_def
         intro!: list_all2_appendI)
next
  case (ended i s fd os ep)
  from ended show ?case
    by (intro system_okI [OF ended.prems tls_step.child_exit [OF ended.hyps(1,2)]])
       (auto simp: system_ok_def worker_ok_def run_worker_def list_all2_conv_all_nth nth_list_update
         split: option.splits)
next
  case (aborted i s fd os)
  from aborted have "system_ok jparse jdump m bufsz l (s\<lparr>sys_intake :=
      (sys_intake s)\<lparr>procs := (procs (sys_intake s))[i := Exited]\<rparr>, workers := workers s\<rparr>)"
    by (intro system_okI [OF aborted.prems tls_step.child_exit [OF aborted.hyps(1,2)]])
       (auto simp: system_ok_def worker_ok_def list_all2_conv_all_nth nth_list_update split: option.splits)
  then show ?case by simp
qed

interpretation system: guarded_machine "\<lambda>s. s = system_start l" "system_step jparse jdump m bufsz"
    "system_ok jparse jdump m bufsz l" for jparse jdump m bufsz l
  by unfold_locales (auto simp: system_ok_start intro: system_ok_step)

lemma reachable_worker:
  assumes "(system_step jparse jdump m bufsz)\<^sup>*\<^sup>* (system_start l) s" "i < length (workers s)"
  shows "worker_ok jparse jdump m bufsz l (procs (sys_intake s) ! i) (workers s ! i)"
    "i < length (procs (sys_intake s))" "lfd (sys_intake s) = l"
proof -
  have "system_ok jparse jdump m bufsz l s" using assms(1) system.reachable_inv by blast
  then show "worker_ok jparse jdump m bufsz l (procs (sys_intake s) ! i) (workers s ! i)"
    "i < length (procs (sys_intake s))" "lfd (sys_intake s) = l"
    using assms(2) by (auto simp: system_ok_def list_all2_conv_all_nth)
qed

section \<open>Properties\<close>

text \<open>
  C10. The server as a whole: in every state it can reach, with any number of clients at any
  point of their connections, a worker that has exited closed every descriptor it started
  with (but 0, which the code takes for none), each once, freed its \<open>SSL\<close> object once, and
  sent its own client nothing or a beginning of the text of one response: a built-in error,
  or what the application answers to a beginning of the bytes this client sent. And the
  parent behaves as the intake cycle alone.
\<close>
theorem workers_answer_their_client:
  assumes "run_registrations rs (RouterManager_Init m0) = Ret (bs, m)"
    and "(system_step jparse jdump m bufsz)\<^sup>*\<^sup>* (system_start l) s"
    and "i < length (workers s)" and "w_end (workers s ! i) = Some ep"
  shows "set (w_fds (workers s ! i)) - {0} \<subseteq> set (closed_fds ep) \<and>
    closed_fds ep = l # (if sockfd (w_client (workers s ! i)) > 0 then [sockfd (w_client (workers s ! i))] else []) \<and>
    ssl_freed ep = 1 \<and>
    (wire ep = [] \<or>
     (\<exists>resp t k. serialize jdump resp = Ret t \<and> wire ep = take k t \<and>
        (built_in_error (w_world (workers s ! i)) resp \<or>
         (\<exists>r w'. prefix r (pending (arrivals (w_start (workers s ! i)))) \<and>
            expected_answer jparse rs r (w_world (workers s ! i)) = Ret (resp, w'))))) \<and>
    tls_step\<^sup>*\<^sup>* (intake_start l) (sys_intake s)"
proof -
  let ?wk = "workers s ! i"
  note wk = reachable_worker(1) [OF assms(2,3)]
  have run: "https_worker jparse jdump m l (w_client ?wk) bufsz (w_start ?wk) (w_world ?wk) = Ret ep"
    using wk assms(4) by (simp add: worker_ok_def run_worker_def)
  have start: "closed_fds (w_start ?wk) = []" "wire (w_start ?wk) = []" "ssl_freed (w_start ?wk) = 0"
      "set (w_fds ?wk) - {0} \<subseteq> {l, sockfd (w_client ?wk)}"
    using wk by (simp_all add: worker_ok_def untouched_def)
  have ok: "tls_step\<^sup>*\<^sup>* (intake_start l) (sys_intake s)"
    using system.reachable_inv [OF refl assms(2)] by (simp add: system_ok_def)
  note once = https_worker_answers_once [OF assms(1) run]
  have "0 \<le> sockfd (w_client ?wk)" using wk by (simp add: worker_ok_def)
  then have open_fds: "set (w_fds ?wk) - {0} \<subseteq> {l} \<union> (if sockfd (w_client ?wk) > 0 then {sockfd (w_client ?wk)} else {})"
    using start(4) by auto
  have closed: "closed_fds ep = l # (if sockfd (w_client ?wk) > 0 then [sockfd (w_client ?wk)] else [])"
      "ssl_freed ep = 1"
    using once start(1,3) by (simp_all add: worker_end_def)
  have "set (w_fds ?wk) - {0} \<subseteq> set (closed_fds ep)"
    using open_fds by (cases "sockfd (w_client ?wk) > 0") (simp_all add: closed insert_commute)
  moreover have "wire ep = [] \<or>
     (\<exists>resp t k. serialize jdump resp = Ret t \<and> wire ep = take k t \<and>
        (built_in_error (w_world ?wk) resp \<or>
         (\<exists>r w'. prefix r (pending (arrivals (w_start ?wk))) \<and>
            expected_answer jparse rs r (w_world ?wk) = Ret (resp, w'))))"
    using once unfolding worker_end_def start(2) append_Nil by blast
  ultimately show ?thesis using ok closed by (intro conjI)
qed

text \<open>
  C11. Workers do not pile up behind clients that left: in every reachable state, a worker
  that still runs and whose client ends its side of the connection with a close or an
  error can take its last step, provided that every registered handler returns or throws on
  every request; this holds whatever the others and the parent do, and then its
  process is gone while every other is as it was; so no step of the parent or of another
  worker is needed for it.
\<close>
theorem running_worker_can_exit:
  assumes "(system_step jparse jdump m bufsz)\<^sup>*\<^sup>* (system_start l) s"
    and "i < length (workers s)" and "procs (sys_intake s) ! i = Child fd os"
    and "receiving_ends (arrivals (w_start (workers s ! i)))" "sending_ends (sends (w_start (workers s ! i)))"
    and "\<And>req w. RouterManager_Route m req w \<noteq> Diverge"
  shows "\<exists>s'. system_step jparse jdump m bufsz s s' \<and>
    procs (sys_intake s') = (procs (sys_intake s))[i := Exited] \<and> pc (sys_intake s') = pc (sys_intake s)"
proof -
  let ?wk = "workers s ! i"
  note reach = reachable_worker(2,3) [OF assms(1,2)]
  have "run_worker jparse jdump m bufsz l ?wk \<noteq> Diverge"
    unfolding run_worker_def by (rule https_worker_ends [OF assms(4,5,6)])
  moreover have "run_worker jparse jdump m bufsz l ?wk \<noteq> Raise e" for e
    by (simp add: run_worker_def https_worker_def)
  ultimately consider ep where "run_worker jparse jdump m bufsz l ?wk = Ret ep"
    | "run_worker jparse jdump m bufsz l ?wk = Terminate"
    by (cases "run_worker jparse jdump m bufsz l ?wk") auto
  then show ?thesis
  proof cases
    case (1 ep)
    from system_step.ended [OF reach(1) assms(3), of jparse jdump m bufsz ep] 1 reach(2) show ?thesis
      by fastforce
  next
    case 2
    from system_step.aborted [OF reach(1) assms(3), of jparse jdump m bufsz] 2 reach(2) show ?thesis
      by fastforce
  qed
qed

text \<open>A server on descriptor 3 with one worker, whose client closes at once.\<close>

definition sample_worker :: worker where
  "sample_worker = \<lparr>w_client = default_client\<lparr>sockfd := 5\<rparr>, w_fds = [3, 5],
     w_start = sample_endpoint\<lparr>arrivals := [Closed], sends := [Send_closed]\<rparr>, w_world = sample_world, w_end = None\<rparr>"

definition one_worker :: tls_system where
  "one_worker = \<lparr>sys_intake = (intake_start 3)\<lparr>ssls := 1, procs := [Child 5 [5]]\<rparr>, workers = [sample_worker]\<rparr>"

lemma one_worker_reachable: "(system_step jparse jdump m 1024)\<^sup>*\<^sup>* (system_start 3) one_worker"
proof -
  let ?i1 = "(intake_start 3)\<lparr>pc := Handshaking 5, fds := [5]\<rparr>"
  let ?i2 = "?i1\<lparr>pc := Dispatching 5, ssls := 1\<rparr>"
  let ?s1 = "(system_start 3)\<lparr>sys_intake := ?i1\<rparr>" and ?s2 = "(system_start 3)\<lparr>sys_intake := ?i2\<rparr>"
  have "tls_step (intake_start 3) ?i1"
    using tls_step.accept_client [of "intake_start 3" 5] by (simp add: intake_start_def new_descriptor_def)
  then have 1: "system_step jparse jdump m 1024 (system_start 3) ?s1"
    using system_step.parent [of "system_start 3" ?i1] by (simp add: system_start_def)
  have "tls_step ?i1 ?i2"
    using tls_step.handshake_done [of ?i1 5] by (simp add: intake_start_def)
  then have 2: "system_step jparse jdump m 1024 ?s1 ?s2"
    using system_step.parent [of ?s1 ?i2] by simp
  have "system_step jparse jdump m 1024 ?s2 one_worker"
    using system_step.forked [of ?s2 "w_client sample_worker" "w_start sample_worker" jparse jdump m 1024 sample_world]
    by (simp add: one_worker_def sample_worker_def system_start_def intake_start_def next_turn_def
        fork_child_def untouched_def sample_endpoint_def)
  with 1 2 show ?thesis by (meson rtranclp.rtrancl_into_rtrancl rtranclp.rtrancl_refl)
qed

theorem running_worker_can_exit_witness:
  "\<exists>s'. system_step (\<lambda>_. Parse_error) (\<lambda>_. Some ''{}'') None 1024 one_worker s' \<and> procs (sys_intake s') = [Exited]"
proof -
  have "\<exists>s'. system_step (\<lambda>_. Parse_error) (\<lambda>_. Some ''{}'') None 1024 one_worker s' \<and>
      procs (sys_intake s') = (procs (sys_intake one_worker))[0 := Exited] \<and>
      pc (sys_intake s') = pc (sys_intake one_worker)"
    by (rule running_worker_can_exit [OF one_worker_reachable])
       (simp_all add: one_worker_def sample_worker_def receiving_ends_def sending_ends_def RouterManager_Route_def)
  then show ?thesis by (auto simp: one_worker_def)
qed

theorem workers_answer_their_client_witness:
  "\<exists>s ep. (system_step (\<lambda>_. Parse_error) (\<lambda>_. Some ''{}'') (manager_of (Some [])) 1024)\<^sup>*\<^sup>* (system_start 3) s \<and>
     w_end (workers s ! 0) = Some ep \<and> closed_fds ep = [3, 5] \<and> ssl_freed ep = 1"
proof -
  let ?m = "manager_of (Some [])" and ?wk = sample_worker
  let ?step = "system_step (\<lambda>_. Parse_error) (\<lambda>_. Some ''{}'') ?m 1024"
  have regs: "run_registrations [] (RouterManager_Init None) = Ret ([], ?m)"
    unfolding run_registrations_manager by simp
  obtain ep where run: "run_worker (\<lambda>_. Parse_error) (\<lambda>_. Some ''{}'') ?m 1024 3 ?wk = Ret ep"
    by (simp add: run_worker_def https_worker_def sample_worker_def HttpsConnection_process_def
        HttpsConnection_recv_def tls_recv_loop.simps close_fd_def new_connection_def)
  let ?s = "one_worker\<lparr>sys_intake := (sys_intake one_worker)\<lparr>procs := [Exited]\<rparr>,
      workers := [?wk\<lparr>w_end := Some ep\<rparr>]\<rparr>"
  have "?step one_worker ?s"
    using system_step.ended [of 0 one_worker 5 "[5]" "\<lambda>_. Parse_error" "\<lambda>_. Some ''{}''" ?m 1024 ep] run
    by (simp add: one_worker_def intake_start_def)
  then have reach: "?step\<^sup>*\<^sup>* (system_start 3) ?s"
    using one_worker_reachable by (rule rtranclp.rtrancl_into_rtrancl [rotated])
  have "closed_fds ep = [3, 5] \<and> ssl_freed ep = 1"
    using workers_answer_their_client [OF regs reach, of 0 ep] by (simp add: sample_worker_def)
  with reach show ?thesis by (intro exI [of _ ?s] exI [of _ ep]) simp
qed

end
