(* ===== verification/ReloadRace.thy ===== *)
theory ReloadRace
  imports Watcher
begin

text \<open>
  A log statement in one thread while the watcher's thread reads the configuration anew
  (\<open>logging_system.{h,cc}\<close>, \<open>logging_manager.cc\<close>): neither takes a lock. Loggers are
  objects on a heap; the assignment to \<open>logger_\<close> deletes the old one. The steps of the
  statement are the places where it reads the pointer or the object behind it; between
  any two of them the watcher may have called \<open>LogManager::Init\<close> any number of times.
\<close>

section \<open>The two threads\<close>

text \<open>
  Where the macro \<open>LOG\<close> is: \<open>ShouldLog\<close> has read the pointer \<open>logger_\<close>; it has passed the
  test of the level; \<open>Get\<close> has returned a reference; \<open>LogStream\<close> has copied the logger. It
  ends having written with a logger or not at all, or has read an object that is gone.
\<close>

datatype stage =
    Begun
  | Testing nat
  | Tested
  | Referring nat
  | Copied Logger
  | Ended "Logger option"
  | Use_after_free

text \<open>The heap has the loggers in the order they were made; \<open>None\<close> is one that was deleted.\<close>

record log_heap =
  loggers :: "Logger option list"
  logger_ptr :: "nat option"
  log_paused :: bool
  stage_of :: stage

datatype 'n race_event =
    Log_step
  | Reload "'n yaml_api \<times> (string \<Rightarrow> bool) \<times> string" string

text \<open>The manager a state stands for.\<close>

definition manager_in :: "log_heap \<Rightarrow> log_manager" where
  "manager_in s = \<lparr>lm_logger = (case logger_ptr s of None \<Rightarrow> None | Some p \<Rightarrow> loggers s ! p),
     paused = log_paused s\<rparr>"

text \<open>One step of the statement, for a record of level \<open>lvl\<close>.\<close>

definition log_step :: "log \<Rightarrow> log_heap \<Rightarrow> log_heap" where
  "log_step lvl s =
     (case stage_of s of
        Begun \<Rightarrow> s\<lparr>stage_of := (case logger_ptr s of None \<Rightarrow> Ended None | Some p \<Rightarrow> Testing p)\<rparr>
      | Testing p \<Rightarrow> s\<lparr>stage_of := (case loggers s ! p of
            None \<Rightarrow> Use_after_free
          | Some lg \<Rightarrow> if log_num (level lg) = 0 \<or> level lg > lvl then Ended None else Tested)\<rparr>
      | Tested \<Rightarrow> s\<lparr>stage_of := (case logger_ptr s of
            None \<Rightarrow> Ended None
          | Some p \<Rightarrow> if log_paused s then Ended None else Referring p)\<rparr>
      | Referring p \<Rightarrow> s\<lparr>stage_of := (case loggers s ! p of None \<Rightarrow> Use_after_free | Some lg \<Rightarrow> Copied lg)\<rparr>
      | Copied lg \<Rightarrow> s\<lparr>stage_of := Ended (Some lg)\<rparr>
      | _ \<Rightarrow> s)"

text \<open>
  \<open>LogManager::Init\<close> in the watcher's thread: it may set or remove the pause; when it has a new
  logger, the assignment to \<open>logger_\<close> stores the pointer and deletes the object it had.
\<close>

definition reload_step ::
    "'n yaml_api \<times> (string \<Rightarrow> bool) \<times> string \<Rightarrow> string \<Rightarrow> log_heap \<Rightarrow> log_heap" where
  "reload_step e path s =
     (case config_callback e path (manager_in s) of
        (Ret True, l) \<Rightarrow> s\<lparr>
          loggers := (case logger_ptr s of None \<Rightarrow> loggers s | Some p \<Rightarrow> (loggers s)[p := None]) @ [lm_logger l],
          logger_ptr := Some (length (loggers s)), log_paused := paused l\<rparr>
      | (_, l) \<Rightarrow> s\<lparr>log_paused := paused l\<rparr>)"

fun race_step :: "log \<Rightarrow> 'n race_event \<Rightarrow> log_heap \<Rightarrow> log_heap" where
  "race_step lvl Log_step s = log_step lvl s"
| "race_step lvl (Reload e path) s = reload_step e path s"

definition race :: "log \<Rightarrow> 'n race_event list \<Rightarrow> log_heap \<Rightarrow> log_heap" where
  "race lvl evs s = fold (race_step lvl) evs s"

section \<open>What reloads do\<close>

fun reload_event :: "('n yaml_api \<times> (string \<Rightarrow> bool) \<times> string) \<times> string \<Rightarrow> 'n race_event" where
  "reload_event (e, path) = Reload e path"

text \<open>The watcher's calls between two steps of the statement: does one put a new logger in?\<close>

definition replaces :: "(('n yaml_api \<times> (string \<Rightarrow> bool) \<times> string) \<times> string) list \<Rightarrow> bool" where
  "replaces us \<longleftrightarrow> (\<exists>u \<in> set us. new_logger u \<noteq> None)"

definition heap_ok :: "log_heap \<Rightarrow> bool" where
  "heap_ok s \<longleftrightarrow> (case logger_ptr s of None \<Rightarrow> True
     | Some p \<Rightarrow> p < length (loggers s) \<and> loggers s ! p \<noteq> None)"

lemma config_callback_cases:
  obtains lg l' where "config_callback e path l = (Ret True, l')" "new_logger (e, path) = Some lg" "lm_logger l' = Some lg"
  | r l' where "config_callback e path l = (r, l')" "r \<noteq> Ret True" "new_logger (e, path) = None" "lm_logger l' = lm_logger l"
proof -
  obtain y opens d where e: "e = (y, opens, d)" by (cases e)
  obtain r l' where p: "ParseLogConfig y opens d path l = (r, l')" by fastforce
  have "settles r" "lm_logger l' = lm_logger l" "fst (ParseLogConfig y opens d path fresh_manager) = r"
    using settles_ParseLogConfig [where l = l] ParseLogConfig_fst [where l = l]
      ParseLogConfig_logger [where l = l] p
    by (metis fst_conv snd_conv)+
  then show thesis
    using that
    by (cases r; fastforce simp: config_callback_def e LogManager_Init_def p new_logger_def split: option.splits)
qed

lemma reload_step_effect:
  assumes "heap_ok s"
  shows "heap_ok (reload_step e path s)" "stage_of (reload_step e path s) = stage_of s"
    "manager_in (reload_step e path s) = snd (config_callback e path (manager_in s))"
    "length (loggers s) \<le> length (loggers (reload_step e path s))"
    "p < length (loggers s) \<Longrightarrow> loggers (reload_step e path s) ! p =
      (if new_logger (e, path) \<noteq> None \<and> logger_ptr s = Some p then None else loggers s ! p)"
    "new_logger (e, path) = None \<Longrightarrow> logger_ptr (reload_step e path s) = logger_ptr s"
    "new_logger (e, path) \<noteq> None \<Longrightarrow> logger_ptr (reload_step e path s) = Some (length (loggers s))"
  using assms
  by (cases rule: config_callback_cases [of e path "manager_in s"];
      auto simp: reload_step_def heap_ok_def manager_in_def nth_append nth_list_update
        split: option.splits bool.splits outcome.splits)+

definition reloads :: "(('n yaml_api \<times> (string \<Rightarrow> bool) \<times> string) \<times> string) list \<Rightarrow> log_heap \<Rightarrow> log_heap" where
  "reloads us s = fold (\<lambda>(e, path). reload_step e path) us s"

lemma reloads_Cons: "reloads ((e, path) # us) s = reloads us (reload_step e path s)"
  by (simp add: reloads_def)

lemma reloads_keep:
  assumes "heap_ok s"
  shows "heap_ok (reloads us s) \<and> stage_of (reloads us s) = stage_of s \<and>
    manager_in (reloads us s) = run_all config_callback us (manager_in s)"
  using assms
proof (induction us arbitrary: s)
  case (Cons u us)
  obtain e path where u: "u = (e, path)" by (cases u)
  note step = reload_step_effect(1-3) [OF Cons.prems, where e = e and path = path]
  from Cons.IH [OF step(1)] step(2,3) show ?case by (simp add: u reloads_Cons run_all_def)
qed (simp add: reloads_def run_all_def)

lemma reloads_deleted:
  assumes "heap_ok s" "p < length (loggers s)" "loggers s ! p = None"
  shows "loggers (reloads us s) ! p = None"
  using assms
proof (induction us arbitrary: s)
  case (Cons u us)
  obtain e path where u: "u = (e, path)" by (cases u)
  note step = reload_step_effect [OF Cons.prems(1), where e = e and path = path]
  have "p < length (loggers (reload_step e path s))" "loggers (reload_step e path s) ! p = None"
    using Cons.prems step(4,5) by auto
  with Cons.IH step(1) show ?case by (simp add: u reloads_Cons)
qed (simp add: reloads_def)

lemma reloads_pointed:
  assumes "heap_ok s" "logger_ptr s = Some p"
  shows "loggers (reloads us s) ! p = (if replaces us then None else loggers s ! p)"
  using assms
proof (induction us arbitrary: s)
  case (Cons u us)
  obtain e path where u: "u = (e, path)" by (cases u)
  note step = reload_step_effect [OF Cons.prems(1), where e = e and path = path]
  have p: "p < length (loggers s)" using Cons.prems by (simp add: heap_ok_def)
  show ?case
  proof (cases "new_logger (e, path)")
    case None
    with Cons.IH [OF step(1)] step(5) [OF p] step(6) Cons.prems show ?thesis
      by (simp add: u reloads_Cons replaces_def)
  next
    case (Some lg)
    with step(5) [OF p] Cons.prems have "loggers (reload_step e path s) ! p = None" by simp
    with Some p step(1,4) show ?thesis
      using reloads_deleted [of "reload_step e path s" p us] by (auto simp: u reloads_Cons replaces_def)
  qed
qed (simp add: reloads_def replaces_def)

lemma race_simps:
  "race lvl [] s = s"
  "race lvl (Log_step # evs) s = race lvl evs (log_step lvl s)"
  "race lvl (map reload_event us @ evs) s = race lvl evs (reloads us s)"
proof -
  have "fold (race_step lvl) (map reload_event us) s = reloads us s"
    by (induction us arbitrary: s) (auto simp: reloads_def)
  then show "race lvl (map reload_event us @ evs) s = race lvl evs (reloads us s)"
    by (simp add: race_def)
qed (simp_all add: race_def)

lemma stage_update [simp]: "heap_ok (s\<lparr>stage_of := x\<rparr>) = heap_ok s" "manager_in (s\<lparr>stage_of := x\<rparr>) = manager_in s"
  by (simp_all add: heap_ok_def manager_in_def cong: option.case_cong)

lemma race_final:
  "stage_of s = Ended r \<Longrightarrow> heap_ok s \<Longrightarrow> stage_of (log_step lvl (reloads us s)) = Ended r \<and> heap_ok (log_step lvl (reloads us s))"
  "stage_of s = Use_after_free \<Longrightarrow> heap_ok s \<Longrightarrow>
    stage_of (log_step lvl (reloads us s)) = Use_after_free \<and> heap_ok (log_step lvl (reloads us s))"
  using reloads_keep [of s us] by (simp_all add: log_step_def)

text \<open>The statement from its second step on, and from its third.\<close>

lemma race_copied:
  assumes "heap_ok s" "stage_of s = Tested"
  shows "stage_of (log_step lvl (reloads e (log_step lvl (reloads d (log_step lvl s))))) =
    (case LogManager_Get (manager_in s) of
       None \<Rightarrow> Ended None
     | Some lg \<Rightarrow> if replaces d then Use_after_free else Ended (Some lg))"
proof -
  let ?s1 = "log_step lvl s"
  have ok: "heap_ok ?s1" using assms by (auto simp: log_step_def)
  have get: "LogManager_Get (manager_in s) =
      (case logger_ptr s of None \<Rightarrow> None | Some p \<Rightarrow> if log_paused s then None else loggers s ! p)"
    using assms(1) by (auto simp: LogManager_Get_def manager_in_def heap_ok_def split: option.split)
  show ?thesis
  proof (cases "logger_ptr s = None \<or> log_paused s")
    case True
    then have "stage_of ?s1 = Ended None"
      using assms(2) by (auto simp: log_step_def split: option.split)
    with race_final(1) [OF this ok, of lvl d] True show ?thesis
      using race_final(1) [of "log_step lvl (reloads d ?s1)" None lvl e] by (auto simp: get split: option.split)
  next
    case False
    then obtain p lg where p: "logger_ptr s = Some p" "loggers s ! p = Some lg" "\<not> log_paused s"
      using assms(1) by (auto simp: heap_ok_def)
    then have s1: "?s1 = s\<lparr>stage_of := Referring p\<rparr>" using assms(2) by (simp add: log_step_def)
    have "loggers (reloads d ?s1) ! p = (if replaces d then None else Some lg)"
      using reloads_pointed [OF ok, of p d] p by (simp add: s1)
    moreover have "stage_of (reloads d ?s1) = Referring p" "heap_ok (reloads d ?s1)"
      using reloads_keep [OF ok, of d] by (simp_all add: s1)
    ultimately have s2: "stage_of (log_step lvl (reloads d ?s1)) = (if replaces d then Use_after_free else Copied lg)"
        "heap_ok (log_step lvl (reloads d ?s1))"
      by (auto simp: log_step_def)
    then show ?thesis
      using race_final(2) [OF _ s2(2), of lvl e] reloads_keep [OF s2(2), of e] p
      by (auto simp: get log_step_def [of lvl "reloads e x" for x])
  qed
qed

text \<open>The first two steps of the statement.\<close>

lemma race_tested:
  assumes "heap_ok s" "stage_of s = Begun"
  shows "heap_ok (log_step lvl (reloads b (log_step lvl s))) \<and>
    manager_in (log_step lvl (reloads b (log_step lvl s))) = run_all config_callback b (manager_in s) \<and>
    stage_of (log_step lvl (reloads b (log_step lvl s))) =
      (case lm_logger (manager_in s) of
         None \<Rightarrow> Ended None
       | Some lg \<Rightarrow> if replaces b then Use_after_free
           else if log_num (level lg) = 0 \<or> level lg > lvl then Ended None else Tested)"
proof -
  have s1: "heap_ok (log_step lvl s)" "manager_in (log_step lvl s) = manager_in s"
    "logger_ptr (log_step lvl s) = logger_ptr s" "loggers (log_step lvl s) = loggers s"
    "stage_of (log_step lvl s) = (case logger_ptr s of None \<Rightarrow> Ended None | Some p \<Rightarrow> Testing p)"
    using assms by (simp_all add: log_step_def)
  note kept = reloads_keep [OF s1(1), of b]
  have ok: "heap_ok (log_step lvl x) = heap_ok x" "manager_in (log_step lvl x) = manager_in x" for x
    by (simp_all add: log_step_def split: stage.split)
  have lm: "lm_logger (manager_in s) = (case logger_ptr s of None \<Rightarrow> None | Some p \<Rightarrow> loggers s ! p)"
    by (simp add: manager_in_def)
  show ?thesis
  proof (cases "logger_ptr s")
    case None
    then show ?thesis
      using kept s1 race_final(1) [OF _ s1(1), of None lvl b] by (auto simp: ok lm)
  next
    case (Some p)
    then obtain lg where lg: "loggers s ! p = Some lg" using assms(1) by (auto simp: heap_ok_def)
    have "loggers (reloads b (log_step lvl s)) ! p = (if replaces b then None else Some lg)"
      using reloads_pointed [OF s1(1), of p b] Some lg by (simp add: s1)
    then show ?thesis
      using kept Some lg s1(2,5) by (simp add: ok log_step_def [of lvl "reloads b x" for x] lm)
  qed
qed

text \<open>The whole statement.\<close>

lemma race_statement:
  assumes "heap_ok s" and "stage_of s = Begun"
  shows "stage_of (log_step lvl (reloads e (log_step lvl (reloads d (log_step lvl (reloads c
     (log_step lvl (reloads b (log_step lvl (reloads a s)))))))))) =
   (case lm_logger (run_all config_callback a (manager_in s)) of
      None \<Rightarrow> Ended None
    | Some lg \<Rightarrow>
        if replaces b then Use_after_free
        else if log_num (level lg) = 0 \<or> level lg > lvl then Ended None
        else
          (case LogManager_Get (run_all config_callback (a @ b @ c) (manager_in s)) of
             None \<Rightarrow> Ended None
           | Some lg' \<Rightarrow> if replaces d then Use_after_free else Ended (Some lg')))"
proof -
  have start: "heap_ok (reloads a s)" "stage_of (reloads a s) = Begun"
      "manager_in (reloads a s) = run_all config_callback a (manager_in s)"
    using reloads_keep [OF assms(1), of a] assms(2) by simp_all
  define s2 where "s2 = log_step lvl (reloads b (log_step lvl (reloads a s)))"
  note tested = race_tested [OF start(1,2), of lvl b, folded s2_def, unfolded start(3)]
  have ok: "heap_ok s2" using tested by blast
  have run: "run_all config_callback (a @ b @ c) (manager_in s) =
      run_all config_callback c (run_all config_callback b (run_all config_callback a (manager_in s)))"
    by (simp add: run_all_def)
  define s3 where "s3 = reloads c s2"
  have s3: "heap_ok s3" "stage_of s3 = stage_of s2" "manager_in s3 = run_all config_callback c (manager_in s2)"
    using reloads_keep [OF ok, of c] by (simp_all add: s3_def)
  have rest: "stage_of (log_step lvl (reloads e (log_step lvl (reloads d (log_step lvl s3))))) = stage_of s2"
    if "stage_of s2 = Ended None \<or> stage_of s2 = Use_after_free"
  proof -
    have "heap_ok (log_step lvl s3)" "stage_of (log_step lvl s3) = stage_of s2"
      using s3 that by (auto simp: log_step_def)
    with that race_final show ?thesis by metis
  qed
  show ?thesis
    using tested rest race_copied [OF s3(1), of lvl e d] s3(2,3)
    by (auto simp: run s2_def [symmetric] s3_def [symmetric] split: option.splits if_splits)
qed

section \<open>Properties\<close>

text \<open>
  C32. What becomes of a log statement while the configuration is read anew, for every way the
  calls of the watcher's thread can fall between its steps. It reads a logger that was
  deleted exactly when a reading with a new logger falls between taking the pointer and
  reading the level, or, for a record that passes, between \<open>Get\<close> and the copy
  \<open>LogStream\<close> makes; everywhere else readings do no harm: after the copy the record goes to
  the logger that was current at \<open>Get\<close>, although the level was tested against the one
  before. Left alone, the statement does what the model of the macro says.
\<close>
theorem reload_race_exact:
  assumes "heap_ok s" and "stage_of s = Begun"
  shows "stage_of (race lvl (map reload_event a @ Log_step # map reload_event b @ Log_step #
      map reload_event c @ Log_step # map reload_event d @ Log_step # map reload_event e @ [Log_step]) s) =
    (case lm_logger (run_all config_callback a (manager_in s)) of
       None \<Rightarrow> Ended None
     | Some lg \<Rightarrow>
         if replaces b then Use_after_free
         else if log_num (level lg) = 0 \<or> level lg > lvl then Ended None
         else
           (case LogManager_Get (run_all config_callback (a @ b @ c) (manager_in s)) of
              None \<Rightarrow> Ended None
            | Some lg' \<Rightarrow> if replaces d then Use_after_free else Ended (Some lg'))) \<and>
    stage_of (race lvl (replicate 5 (Log_step :: 'n race_event)) s) =
      Ended (if ShouldLog \<lparr>lm = Some (manager_in s), cw = w\<rparr> lvl
             then LogSystem_Get \<lparr>lm = Some (manager_in s), cw = w\<rparr> else None)"
proof -
  let ?no = "[] :: (('n yaml_api \<times> (string \<Rightarrow> bool) \<times> string) \<times> string) list"
  have five: "replicate 5 (Log_step :: 'n race_event) = [Log_step, Log_step, Log_step, Log_step, Log_step]"
    by (simp add: eval_nat_numeral)
  have "stage_of (race lvl (replicate 5 (Log_step :: 'n race_event)) s) =
      Ended (if ShouldLog \<lparr>lm = Some (manager_in s), cw = w\<rparr> lvl
             then LogSystem_Get \<lparr>lm = Some (manager_in s), cw = w\<rparr> else None)"
    using race_statement [OF assms, of lvl "?no" "?no" "?no" "?no" "?no"]
    by (auto simp: five race_simps reloads_def run_all_def replaces_def ShouldLog_def LogSystem_GetLevel_def
        LogManager_GetLevel_def LogSystem_Get_def LogManager_Get_def Let_def log_least not_less split: option.splits)
  then show ?thesis using race_statement [OF assms] by (simp only: race_simps) simp
qed

text \<open>A logger of level info, and a configuration that is read between \<open>Get\<close> and the copy.\<close>

definition sample_heap :: log_heap where
  "sample_heap = \<lparr>loggers = [Some \<lparr>level = log.info, sinks = []\<rparr>], logger_ptr = Some 0,
     log_paused = False, stage_of = Begun\<rparr>"

theorem reload_race_exact_witness:
  "stage_of (race log.error [Log_step, Log_step, Log_step,
     Reload (sample_yaml, \<lambda>_. True, []) ''good'', Log_step, Log_step] sample_heap) = Use_after_free"
proof -
  let ?u = "((sample_yaml, \<lambda>_ :: string. True, [] :: string), ''good'')"
  have "new_logger ?u \<noteq> None"
    by (simp add: new_logger_def ParseLogConfig_def parse_sinks_def sample_yaml_def string_to_log_def Let_def)
  then have "replaces [?u]" "\<not> replaces ([] :: ((nat yaml_api \<times> (string \<Rightarrow> bool) \<times> string) \<times> string) list)"
    by (simp_all add: replaces_def)
  moreover have "heap_ok sample_heap" "stage_of sample_heap = Begun"
      "manager_in sample_heap = \<lparr>lm_logger = Some \<lparr>level = log.info, sinks = []\<rparr>, paused = False\<rparr>"
    by (simp_all add: heap_ok_def sample_heap_def manager_in_def)
  moreover have "\<not> log.info > log.error" "log_num log.info \<noteq> 0" by (simp_all add: less_log_def)
  ultimately show ?thesis
    using reload_race_exact [THEN conjunct1, of sample_heap log.error "[]" "[]" "[]" "[?u]" "[]"]
    by (simp add: run_all_def LogManager_Get_def)
qed

end
