(* ===== verification/ForkedLog.thy ===== *)
theory ForkedLog
  imports Logging
begin

text \<open>
  A log file across \<open>fork\<close> (\<open>http_server.cc\<close>, \<open>https_server.cc\<close>, \<open>logging.cc\<close>): the
  parent opens the file for appending before it serves, a worker has a copy of the stream
  with whatever the parent had not flushed, writes to the same file, and leaves through
  \<open>_exit\<close>, which runs no destructor, so that no stream is flushed.
\<close>

text \<open>The copy of the stream a child gets; \<open>on_disk\<close> is the file, which is shared.\<close>

definition fork_stream :: "fstream \<Rightarrow> fstream" where
  "fork_stream s = s"

text \<open>The file as a worker leaves it, which logged the records \<open>is\<close> before \<open>_exit(0)\<close>.\<close>

definition worker_file ::
    "(json \<Rightarrow> string option) \<Rightarrow> format \<Rightarrow> LogInfo list \<Rightarrow> fstream \<Rightarrow> string outcome" where
  "worker_file jdump f is s =
     obind (FileSink_run jdump f is (fork_stream s)) (\<lambda>(_, s'). Ret (on_disk s'))"

text \<open>The parent's stream after a number of workers, each with the records it logged.\<close>

fun workers_file ::
    "(json \<Rightarrow> string option) \<Rightarrow> format \<Rightarrow> LogInfo list list \<Rightarrow> fstream \<Rightarrow> fstream outcome" where
  "workers_file jdump f [] s = Ret s"
| "workers_file jdump f (is # iss) s =
     obind (worker_file jdump f is s) (\<lambda>d. workers_file jdump f iss (s\<lparr>on_disk := d\<rparr>))"

text \<open>The records up to the last important one.\<close>

fun flushed_part :: "LogInfo list \<Rightarrow> LogInfo list" where
  "flushed_part [] = []"
| "flushed_part (i # is) =
     (if \<exists>j \<in> set (i # is). important_log (li_status j) then i # flushed_part is else [])"

text \<open>What a worker adds to the file, when the parent had \<open>b\<close> in its buffer.\<close>

definition worker_adds :: "(json \<Rightarrow> string option) \<Rightarrow> format \<Rightarrow> string \<Rightarrow> LogInfo list \<Rightarrow> string" where
  "worker_adds jdump f b is =
     (if \<exists>i \<in> set is. important_log (li_status i) then b @ logged_text jdump f (flushed_part is) else [])"

lemma FileSink_run_disk:
  assumes "faults s = []" "spills s = []" "\<forall>i \<in> set is. \<exists>t. apply_format jdump f i = Ret t"
  shows "\<exists>bs s'. FileSink_run jdump f is s = Ret (bs, s') \<and>
    on_disk s' = on_disk s @ worker_adds jdump f (buffered s) is"
  using assms
proof (induction "is" arbitrary: s)
  case (Cons i "is")
  obtain t where t: "apply_format jdump f i = Ret t" using Cons.prems(3) by auto
  let ?s = "s\<lparr>buffered := buffered s @ t @ [CHR 0x0A]\<rparr>"
  define s1 where "s1 = (if important_log (li_status i)
    then ?s\<lparr>on_disk := on_disk ?s @ buffered ?s, buffered := []\<rparr> else ?s)"
  have step: "FileSink_log jdump f i s = Ret (True, s1)"
    using FileSink_log_healthy [OF Cons.prems(1) t] Cons.prems(2) by (simp add: s1_def Let_def)
  obtain bs s' where "FileSink_run jdump f is s1 = Ret (bs, s')"
      "on_disk s' = on_disk s1 @ worker_adds jdump f (buffered s1) is"
    using Cons.IH [of s1] Cons.prems by (auto simp: s1_def)
  moreover have "flushed_part is = []" if "\<forall>j \<in> set is. \<not> important_log (li_status j)"
    using that by (cases "is") auto
  ultimately show ?case
    using t by (auto simp: step worker_adds_def s1_def)
qed (simp add: worker_adds_def)

section \<open>Properties\<close>

text \<open>
  C34. Log records across \<open>fork\<close>, as long as the stream does not fail and no buffer runs full
  (one that does is written out early, with what is in it). A worker that logs nothing
  important leaves the file as it was: all its records are lost. A worker with an important
  one among its records writes again everything the parent had not flushed, then its own up
  to the last important one, and loses the rest. The parent's buffer stays, so when an important record
  of the parent follows, the records that waited there are in the file once for every such
  worker, and once more.
\<close>
theorem workers_repeat_and_lose_records:
  assumes "faults s = []" "spills s = []"
    and "\<forall>is \<in> set iss. \<forall>i \<in> set is. \<exists>t. apply_format jdump f i = Ret t"
    and "apply_format jdump f i = Ret t" "important_log (li_status i)"
  shows "\<exists>s1 s2. workers_file jdump f iss s = Ret s1 \<and> FileSink_log jdump f i s1 = Ret (True, s2) \<and>
    on_disk s2 = on_disk s @ concat (map (\<lambda>is.
        if \<exists>j \<in> set is. important_log (li_status j)
        then buffered s @ logged_text jdump f (flushed_part is) else []) iss) @
      buffered s @ t @ [CHR 0x0A]"
proof -
  have "workers_file jdump f iss s = Ret
      (s\<lparr>on_disk := on_disk s @ concat (map (worker_adds jdump f (buffered s)) iss)\<rparr>)"
    using assms(1,2,3)
  proof (induction iss arbitrary: s)
    case (Cons "is" iss)
    obtain d where "worker_file jdump f is s = Ret d" "d = on_disk s @ worker_adds jdump f (buffered s) is"
      using FileSink_run_disk [of s "is" jdump f] Cons.prems
      by (auto simp: worker_file_def fork_stream_def)
    with Cons.IH [of "s\<lparr>on_disk := d\<rparr>"] Cons.prems show ?case by simp
  qed simp
  then show ?thesis
    using FileSink_log_healthy [OF _ assms(4)] assms(1,2,5)
    by (simp add: Let_def worker_adds_def [abs_def])
qed

theorem workers_repeat_and_lose_records_witness:
  "\<exists>s1 s2. workers_file (\<lambda>_. Some ''x'') Format_json [[sample_record], [sample_record]]
      \<lparr>buffered = ''a'', on_disk = [], faults = [], spills = []\<rparr> = Ret s1 \<and>
     FileSink_log (\<lambda>_. Some ''x'') Format_json sample_record s1 = Ret (True, s2) \<and>
     on_disk s2 = ''ax'' @ [CHR 0x0A] @ ''ax'' @ [CHR 0x0A] @ ''ax'' @ [CHR 0x0A]"
proof -
  have imp: "important_log (li_status sample_record)"
    by (simp add: sample_record_def LogStream_new_def)
  have fmt: "apply_format (\<lambda>_. Some ''x'') Format_json i = Ret ''x''" for i
    by (simp add: JsonFormat_def)
  show ?thesis
    using workers_repeat_and_lose_records [of "\<lparr>buffered = ''a'', on_disk = [], faults = [], spills = []\<rparr>"
        "[[sample_record], [sample_record]]" "\<lambda>_. Some ''x''" Format_json sample_record "''x''"] imp fmt
    by auto
qed

end
