(* ===== verification/SharedLog.thy ===== *)
theory SharedLog
  imports ForkedLog
begin

text \<open>
  The log file of a server and its workers while all of them log (\<open>logging.cc\<close> in the
  processes of \<open>http_server.cc\<close> and \<open>https_server.cc\<close>). The file is opened with
  \<open>std::ios::app\<close> before the first \<open>fork\<close>, so that what a process writes goes behind what
  is there. A process is a number; a run is any sequence of forks and logged records (one
  that logs before it is forked has the stream of the parent as it was at the start).
  \<open>journal\<close> is the abstract view: the file is a list of records, and every process has a
  list of records that wait.
\<close>

datatype log_event = Forks nat nat | Logs nat LogInfo

record shared_file =
  disk :: string
  own :: "nat \<Rightarrow> fstream"   \<comment> \<open>the stream object of each process\<close>

fun shared_step ::
    "(json \<Rightarrow> string option) \<Rightarrow> format \<Rightarrow> log_event \<Rightarrow> shared_file \<Rightarrow> shared_file outcome" where
  "shared_step jdump f (Forks p c) st = Ret (st\<lparr>own := (own st)(c := fork_stream (own st p))\<rparr>)"
| "shared_step jdump f (Logs p i) st =
     obind (FileSink_log jdump f i ((own st p)\<lparr>on_disk := disk st\<rparr>)) (\<lambda>(_, s').
       Ret (st\<lparr>disk := on_disk s', own := (own st)(p := s')\<rparr>))"

fun shared_run ::
    "(json \<Rightarrow> string option) \<Rightarrow> format \<Rightarrow> log_event list \<Rightarrow> shared_file \<Rightarrow> shared_file outcome" where
  "shared_run jdump f [] st = Ret st"
| "shared_run jdump f (e # es) st = obind (shared_step jdump f e st) (shared_run jdump f es)"

section \<open>The journal\<close>

record journal =
  written :: "LogInfo list"
  waiting :: "nat \<Rightarrow> LogInfo list"

fun journal_step :: "log_event \<Rightarrow> journal \<Rightarrow> journal" where
  "journal_step (Forks p c) j = j\<lparr>waiting := (waiting j)(c := waiting j p)\<rparr>"
| "journal_step (Logs p i) j =
     (if important_log (li_status i)
      then j\<lparr>written := written j @ waiting j p @ [i], waiting := (waiting j)(p := [])\<rparr>
      else j\<lparr>waiting := (waiting j)(p := waiting j p @ [i])\<rparr>)"

definition journal_run :: "log_event list \<Rightarrow> journal \<Rightarrow> journal" where
  "journal_run es j = foldl (\<lambda>j e. journal_step e j) j es"

text \<open>What the file and the buffers look like for a journal, on streams that do not fail.\<close>

definition shows_journal ::
    "(json \<Rightarrow> string option) \<Rightarrow> format \<Rightarrow> string \<Rightarrow> journal \<Rightarrow> shared_file \<Rightarrow> bool" where
  "shows_journal jdump f d j st \<longleftrightarrow>
     disk st = d @ logged_text jdump f (written j) \<and>
     (\<forall>p. faults (own st p) = [] \<and> spills (own st p) = [] \<and>
          buffered (own st p) = logged_text jdump f (waiting j p))"

definition loggable :: "(json \<Rightarrow> string option) \<Rightarrow> format \<Rightarrow> log_event \<Rightarrow> bool" where
  "loggable jdump f e \<longleftrightarrow> (case e of Forks p c \<Rightarrow> True | Logs p i \<Rightarrow> \<exists>t. apply_format jdump f i = Ret t)"

lemma shared_step_journal:
  assumes "shows_journal jdump f d j st" "loggable jdump f e"
  shows "\<exists>st'. shared_step jdump f e st = Ret st' \<and> shows_journal jdump f d (journal_step e j) st'"
proof (cases e)
  case (Forks p c)
  with assms show ?thesis by (simp add: shows_journal_def fork_stream_def)
next
  case (Logs p i)
  with assms(2) obtain t where t: "apply_format jdump f i = Ret t" by (auto simp: loggable_def)
  with assms(1) Logs show ?thesis
    using FileSink_log_healthy [of "(own st p)\<lparr>on_disk := disk st\<rparr>" jdump f i t]
    by (simp add: shows_journal_def Let_def)
qed

lemma shared_run_journal:
  assumes "shows_journal jdump f d j st" "list_all (loggable jdump f) es"
  shows "\<exists>st'. shared_run jdump f es st = Ret st' \<and> shows_journal jdump f d (journal_run es j) st'"
  using assms
proof (induction es arbitrary: j st)
  case (Cons e es)
  with shared_step_journal [of jdump f d j st e] show ?case
    by (auto simp: journal_run_def)
qed (simp add: journal_run_def)

section \<open>Properties\<close>

text \<open>
  C33. As long as no stream fails and no buffer runs full, the log file of any number of
  processes is a sequence of whole records, however their log statements and forks
  interleave. (A full buffer is written out where it ends, which may be inside a record.)
  The file refines a journal: an important record of a process appends what waits
  in that process and itself in one piece, another record waits in its process, and a fork
  copies what waits. No record of one process tears or overwrites that of another.
\<close>
theorem shared_log_refines_journal:
  assumes "\<And>p. own st p = s" "faults s = []" "spills s = []"
    and "buffered s = logged_text jdump f pending_records"
    and "\<And>p i. Logs p i \<in> set es \<Longrightarrow> \<exists>t. apply_format jdump f i = Ret t"
    and "j = journal_run es \<lparr>written = [], waiting = (\<lambda>_. pending_records)\<rparr>"
  shows "\<exists>st'. shared_run jdump f es st = Ret st' \<and>
    disk st' = disk st @ logged_text jdump f (written j) \<and>
    (\<forall>p. buffered (own st' p) = logged_text jdump f (waiting j p))"
proof -
  have "list_all (loggable jdump f) es"
    using assms(5) by (auto simp: list_all_iff loggable_def split: log_event.split)
  then show ?thesis
    using shared_run_journal [of jdump f "disk st" "\<lparr>written = [], waiting = (\<lambda>_. pending_records)\<rparr>" st es]
      assms(1-4,6)
    by (auto simp: shows_journal_def)
qed

definition note_record :: LogInfo where
  "note_record = sample_record\<lparr>li_status := info\<rparr>"

theorem shared_log_refines_journal_witness:
  "\<exists>st'. shared_run (\<lambda>_. Some ''x'') Format_json
      [Logs 0 note_record, Forks 0 1, Logs 0 note_record, Logs 1 sample_record, Logs 0 sample_record]
      \<lparr>disk = [], own = (\<lambda>_. \<lparr>buffered = [], on_disk = [], faults = [], spills = []\<rparr>)\<rparr> = Ret st' \<and>
    disk st' = concat (replicate 5 (''x'' @ [CHR 0x0A]))"
proof -
  let ?f = "logged_text (\<lambda>_. Some ''x'') Format_json"
  let ?es = "[Logs 0 note_record, Forks 0 1, Logs 0 note_record, Logs 1 sample_record, Logs 0 sample_record]"
  let ?s = "\<lparr>buffered = [], on_disk = [], faults = [], spills = []\<rparr>"
  have status: "li_status sample_record = error" "li_status note_record = info"
    by (simp_all add: sample_record_def note_record_def LogStream_new_def)
  have fmt: "JsonFormat (\<lambda>_. Some ''x'') i = Ret ''x''" for i
    by (simp add: JsonFormat_def)
  have "written (journal_run ?es \<lparr>written = [], waiting = (\<lambda>_. [])\<rparr>) =
      [note_record, sample_record, note_record, note_record, sample_record]"
    by (simp add: journal_run_def status)
  moreover have "?f [note_record, sample_record, note_record, note_record, sample_record] =
      concat (replicate 5 (''x'' @ [CHR 0x0A]))"
    by (simp add: fmt numeral_eq_Suc)
  ultimately show ?thesis
    using shared_log_refines_journal [where st = "\<lparr>disk = [], own = (\<lambda>_. ?s)\<rparr>" and s = ?s
        and jdump = "\<lambda>_. Some ''x''" and f = Format_json and pending_records = "[]" and es = ?es] fmt
    by auto
qed

end
