(* ===== verification/LogTime.thy ===== *)
theory LogTime
  imports Prelude
begin

text \<open>
  \<open>logging/src/logging.cc\<close>: \<open>time_to_string\<close>, the time stamp of a log record. A time point
  is the number of ticks of the system clock since the epoch, \<open>tick_rate\<close> of them to the
  second; \<open>localtime_r\<close> is a parameter. The date is printed as \<open>fmt\<close> documents
  \<open>%Y-%m-%d %H:%M:%S\<close>.
\<close>

text \<open>The broken-down time, with the year and the month as in the calendar.\<close>

record calendar_time =
  tm_year :: int
  tm_mon :: nat
  tm_mday :: nat
  tm_hour :: nat
  tm_min :: nat
  tm_sec :: nat

text \<open>\<open>floor<seconds>\<close> rounds down, \<open>duration_cast\<close> rounds towards zero.\<close>

definition floor_seconds :: "int \<Rightarrow> int \<Rightarrow> int" where
  "floor_seconds tick_rate tp = tp div tick_rate"

definition cast_to_ms :: "int \<Rightarrow> int \<Rightarrow> int" where
  "cast_to_ms tick_rate d = sgn d * (\<bar>d\<bar> * 1000 div tick_rate)"

definition show_int :: "int \<Rightarrow> string" where
  "show_int i = (if i < 0 then CHR ''-'' # dec (nat (- i)) else dec (nat i))"

text \<open>A year takes four places, the sign included.\<close>

definition show_year :: "int \<Rightarrow> string" where
  "show_year y = (if y < 0 then CHR ''-'' # pad0 3 (dec (nat (- y))) else pad0 4 (dec (nat y)))"

definition show2 :: "nat \<Rightarrow> string" where
  "show2 n = pad0 2 (dec n)"

text \<open>\<open>{:03}\<close>: zeros between the sign and the digits.\<close>

definition show_int3 :: "int \<Rightarrow> string" where
  "show_int3 i = (if i < 0 then CHR ''-'' # pad0 2 (dec (nat (- i))) else pad0 3 (dec (nat i)))"

definition time_to_string :: "(int \<Rightarrow> calendar_time) \<Rightarrow> int \<Rightarrow> int \<Rightarrow> string" where
  "time_to_string localtime tick_rate tp =
     (let sec = floor_seconds tick_rate tp;
          ms = cast_to_ms tick_rate (tp - sec * tick_rate);
          tm = localtime sec in
      show_year (tm_year tm) @ ''-'' @ show2 (tm_mon tm) @ ''-'' @ show2 (tm_mday tm) @ '' '' @
      show2 (tm_hour tm) @ '':'' @ show2 (tm_min tm) @ '':'' @ show2 (tm_sec tm) @ ''.'' @ show_int3 ms)"

section \<open>Widths\<close>

lemma length_pad0: "length (pad0 w s) = max w (length s)"
  by (simp add: pad0_def)

lemma length_dec: "0 < w \<Longrightarrow> n < 10 ^ w \<Longrightarrow> length (dec n) \<le> w"
  by (simp add: dec_def length_show_base)

lemma length_padded: "0 < w \<Longrightarrow> n < 10 ^ w \<Longrightarrow> length (pad0 w (dec n)) = w"
  using length_dec [of w n] by (simp add: length_pad0)

definition in_range :: "calendar_time \<Rightarrow> bool" where
  "in_range t \<longleftrightarrow> 0 \<le> tm_year t \<and> tm_year t < 10000 \<and> tm_mon t < 100 \<and> tm_mday t < 100 \<and>
     tm_hour t < 100 \<and> tm_min t < 100 \<and> tm_sec t < 100"

lemma fraction:
  fixes tick_rate tp :: int
  assumes "0 < tick_rate"
  defines "d \<equiv> tp - floor_seconds tick_rate tp * tick_rate"
  shows "cast_to_ms tick_rate d = tp mod tick_rate * 1000 div tick_rate"
    "0 \<le> cast_to_ms tick_rate d" "cast_to_ms tick_rate d < 1000"
proof -
  have d: "d = tp mod tick_rate" by (simp add: d_def floor_seconds_def minus_div_mult_eq_mod)
  have range: "0 \<le> d" "d < tick_rate" using assms(1) by (simp_all add: d)
  then have cast: "cast_to_ms tick_rate d = d * 1000 div tick_rate"
    by (cases "d = 0") (simp_all add: cast_to_ms_def)
  then show "cast_to_ms tick_rate d = tp mod tick_rate * 1000 div tick_rate" by (simp add: d)
  show "0 \<le> cast_to_ms tick_rate d" using cast range assms(1) by (simp add: pos_imp_zdiv_nonneg_iff)
  have "d * 1000 div tick_rate * tick_rate \<le> d * 1000"
    using div_mult_mod_eq [of "d * 1000" tick_rate] assms(1) pos_mod_sign [of tick_rate "d * 1000"] by linarith
  also have "\<dots> < 1000 * tick_rate" using range by simp
  finally show "cast_to_ms tick_rate d < 1000" using cast assms(1) by simp
qed

section \<open>Properties\<close>

text \<open>
  The time stamp of a log record has a fixed form: for every reading of the clock, also one
  before the epoch, it is the date and time to the second, a dot, and the milliseconds of
  that second in three digits, never negative and never above 999; with a year of at most
  four digits it has 23 characters.
\<close>
theorem time_stamp_shape:
  assumes "0 < tick_rate" and "in_range (localtime (tp div tick_rate))"
  shows "length (time_to_string localtime tick_rate tp) = 23 \<and>
    (\<exists>date ms. time_to_string localtime tick_rate tp = date @ ''.'' @ pad0 3 (dec ms) \<and>
       length date = 19 \<and> ms < 1000 \<and> int ms = tp mod tick_rate * 1000 div tick_rate)"
proof -
  let ?tm = "localtime (tp div tick_rate)"
  let ?d = "tp - floor_seconds tick_rate tp * tick_rate"
  define ms where "ms = nat (cast_to_ms tick_rate ?d)"
  note frac = fraction [OF assms(1), of tp]
  have ms: "int ms = tp mod tick_rate * 1000 div tick_rate" "ms < 1000"
    using frac by (simp_all add: ms_def)
  have last3: "show_int3 (cast_to_ms tick_rate ?d) = pad0 3 (dec ms)"
    using frac(2) by (simp add: show_int3_def ms_def)
  define date where "date = show_year (tm_year ?tm) @ ''-'' @ show2 (tm_mon ?tm) @ ''-'' @ show2 (tm_mday ?tm) @
    '' '' @ show2 (tm_hour ?tm) @ '':'' @ show2 (tm_min ?tm) @ '':'' @ show2 (tm_sec ?tm)"
  have printed: "time_to_string localtime tick_rate tp = date @ ''.'' @ pad0 3 (dec ms)"
    by (simp add: time_to_string_def Let_def last3 date_def) (simp add: floor_seconds_def)
  have "nat (tm_year ?tm) < 10 ^ 4" using assms(2) by (simp add: in_range_def nat_less_iff)
  then have "length (show_year (tm_year ?tm)) = 4"
    using assms(2) length_padded [of 4 "nat (tm_year ?tm)"] by (simp add: show_year_def in_range_def)
  moreover have "length (show2 n) = 2" if "n < 100" for n
    using length_padded [of 2 n] that by (simp add: show2_def)
  ultimately have "length date = 19" using assms(2) by (simp add: date_def in_range_def)
  moreover have "length (pad0 3 (dec ms)) = 3" using length_padded [of 3 ms] ms(2) by simp
  ultimately show ?thesis using printed ms by auto
qed

text \<open>Half a second before the epoch, on a clock of microseconds.\<close>

definition eve_of_epoch :: calendar_time where
  "eve_of_epoch = \<lparr>tm_year = 1969, tm_mon = 12, tm_mday = 31, tm_hour = 23, tm_min = 59, tm_sec = 59\<rparr>"

theorem time_stamp_shape_witness:
  "length (time_to_string (\<lambda>_. eve_of_epoch) 1000000 (- 500000)) = 23"
  using time_stamp_shape [of 1000000 "\<lambda>_. eve_of_epoch" "- 500000"]
  by (simp add: in_range_def eve_of_epoch_def)

end
