(* ===== verification/Spec2Isabelle.thy ===== *)
theory Spec2Isabelle
  imports LoggedMain LogDelivery Syslog System ReloadRace SharedLog LogTime
begin

text \<open>
  A verification library for the HTTP and HTTPS server of this repository. The program
  accepts connections on a socket, forks a process per client, reads one request, parses
  it, routes it to a registered handler and sends one JSON response.

  Theories and the code they model (paths under \<open>src/src/\<close>):

  \<^item> \<open>Prelude\<close>: how a C++ call ends (\<open>outcome\<close>: a value, an exception, the end of the
    process, no return), conversions between \<open>size_t\<close> and \<open>int\<close>, \<open>string_view\<close>
    operations, printing of numbers.
  \<^item> \<open>Status\<close>: \<open>common/.../status/{http,retcode,log}.{h,cc}\<close>, all enumerations and
    conversions. \<open>Uuid\<close>: \<open>common/src/uuid.cc\<close> on 64-bit words.
  \<^item> \<open>Containers\<close>: \<open>std::unordered_map\<close> as the sources use it, with the contracts of
    its key equality and hash (locales \<open>key_equality\<close>, \<open>hashed_keys\<close>).
  \<^item> \<open>Message\<close>: \<open>server/.../http_message.{h,cc}\<close>; requests, responses, the envelope.
    The record \<open>world\<close> holds the random draws and clock readings a call consumes.
  \<^item> \<open>RoutingTree\<close>, \<open>Router\<close>: \<open>routing/.../routing_tree.h\<close>, \<open>router.{h,cc}\<close>. The tree
    refines a table keyed by method and segments; the locale \<open>route_registry\<close> is the
    contract of registration and lookup from which the rule "the first registration wins"
    follows. \<open>HashedTree\<close>: the same files with the keyed hash maps as the code builds them
    (a functor in every map, contexts that may fail, one bucket searched), which refine
    the plain tree; \<open>main\<close> runs on these.
  \<^item> \<open>Codec\<close>, \<open>CodecRoundTrip\<close>, \<open>Pipeline\<close>: \<open>http_codec.{h,cc}\<close>. The parser with its
    narrowed positions equals a reference parser; printed requests are parsed back and
    serialised responses are read back by a client; \<open>process\<close> refines a specification.
  \<^item> \<open>Connection\<close>, \<open>Delivery\<close>: \<open>http_connection.{h,cc}\<close>, \<open>https_connection.{h,cc}\<close>.
    The other end of the socket is a script of arrivals and accepted lengths. The locale
    \<open>byte_sender\<close> is the contract of the two \<open>send\<close> functions.
  \<^item> \<open>Server\<close>, \<open>Intake\<close>: \<open>http_server.{h,cc}\<close>, \<open>https_server.{h,cc}\<close>. Binding with
    the results of the system calls as parameters; the intake cycles as step relations
    over the parent and its children, with invariants through the locale
    \<open>guarded_machine\<close>. \<open>Worker\<close>: what a forked child does from \<open>fork\<close> to \<open>_exit\<close>, for
    any client: at most one response, everything closed, an end when the peer is gone
    (locale \<open>part_sender\<close>). \<open>System\<close>: the TLS parent and all its workers as one step
    relation, whose invariant lifts both to every reachable state of the server.
  \<^item> \<open>Crypto\<close>: \<open>routing/.../crypto.{h,cc}\<close>. Every functor a routing tree can get by
    copying, moving, assigning and exchanging computes the same hash, and meets the
    contract \<open>hashed_keys\<close> under which searching one bucket is enough.
  \<^item> \<open>Logging\<close>: \<open>logging/.../logging.{h,cc}\<close> and the \<open>LogStream\<close> of
    \<open>logging_system.{h,cc}\<close>; formats, sinks over a file stream or a standard output that
    may fail, the logger.
    \<open>LogSystem\<close>: \<open>logging_manager.{h,cc}\<close>, \<open>logging_system.{h,cc}\<close>; the configuration,
    the static system and its life as a machine of calls, which may throw for want of a thread. \<open>Watcher\<close>: the thread of
    \<open>config/impl/macos.{h,cc}\<close> over a script of events (locale \<open>returning_callback\<close>), and
    the configuration in force after it. \<open>ReloadRace\<close>: that thread beside a log statement,
    every interleaving. \<open>ForkedLog\<close>: a log file across \<open>fork\<close> and \<open>_exit\<close>;
    \<open>SharedLog\<close>: that file while all processes log, as a journal of whole records.
    \<open>LogTime\<close>: time stamps. \<open>Syslog\<close>: \<open>syslog.h\<close>, \<open>common/.../tostring.h\<close>.
  \<^item> \<open>LoggedCodec\<close>: the codec with its log statements. The other theories leave logging
    out; this one shows that it changes nothing as long as records can be printed (locale
    \<open>returning_log\<close>), and that a record the JSON format cannot print ends the process.
    \<open>LogExposure\<close>: what a malformed request does to the log, through the console format
    and through the flush behind a warning.
  \<^item> \<open>LoggedConnection\<close>: both connections with their log statements, from construction to
    destruction. \<open>LoggedWorker\<close>: relation \<open>follows\<close>, locale \<open>ending_log\<close> (a log statement
    returns or ends the process), by which a worker with log statements does what the one
    without them does. \<open>LogDelivery\<close>: the outputs a connection leaves are those of a sequence
    of statements (locale \<open>telling_log\<close>, met by the macro), which say which answer was made
    and whether all of it was sent (locale \<open>telling_sender\<close>, met by both \<open>send\<close> functions).
  \<^item> \<open>LoggedServer\<close>: the parent of both servers with its log statements (locale \<open>clean_log\<close>
    and its extension \<open>clean_system\<close>: over texts that are \<open>clean\<close> a statement returns),
    interpreted for arbitrary and for ASCII texts. \<open>LoggedMain\<close>: the registration of
    handlers and \<open>main\<close> with their log statements.
  \<^item> \<open>ServerMain\<close>: \<open>main/server.cc\<close>. This theory: properties of the whole path.

  Parameters for code outside the repository: the JSON library (\<open>jparse\<close>, \<open>jdump\<close>,
  \<open>dump_line\<close>), the YAML library (\<open>yaml_api\<close>), \<open>fmt\<close> (\<open>vformat\<close>), the operating system
  (\<open>sys\<close>, the scripts of \<open>endpoint\<close> and of the watcher), OpenSSL (the same scripts,
  \<open>tls_api\<close>, \<open>evp\<close>, \<open>ctx_calls\<close>), \<open>std::hash\<close>, and the memory behind the receive buffer.

  Bounds and fuel. Positions are \<open>int\<close> in the parser, so its theorems ask for inputs
  below \<open>2 ^ 31\<close> bytes; the connections never hand over more than 8191. The header loop
  has fuel one more than the length of its text and is shown never to use it up. Every
  other loop is total: the receive loops by the size of the script, the send loops by its
  length, the bind loop by the number of addresses, the watcher's loop by the events.
  \<open>Diverge\<close> stands for a call that blocks for ever.

  Not modelled: signals (a \<open>SIGPIPE\<close> on a closed socket); a MAC that fails
  for one call and works for the next on the same text; the messages of \<open>syslog.h\<close> inside the
  logging code, and a failure of the standard output when one of them is printed; memory reordering between the
  watcher's thread and a log statement (\<open>ReloadRace\<close> interleaves whole reads
  and writes); moves of a routing tree or a watcher, which the program never makes; the
  unfinished \<open>server/manager\<close>, which is not built, and the benchmarks, which
  are switched off.
\<close>

section \<open>Properties across components\<close>

text \<open>A client that sends its request to \<open>GET /uni\<close> in one segment and takes any answer.\<close>

definition sample_request :: string where
  "sample_request = print_request ''GET'' ''/uni'' ''HTTP/1.1'' [(''Host'', ''x'')] []"

definition sample_client :: endpoint where
  "sample_client = sample_endpoint\<lparr>arrivals := [Bytes sample_request], sends := [Accepts 1000]\<rparr>"

lemma sample_facts:
  "printable ''GET'' ''/uni'' ''HTTP/1.1'' [(''Host'', ''x'')]"
  "length sample_request = 30" "arrivals sample_client = [Bytes sample_request]"
  "wire sample_client = []" "sends sample_client = [Accepts 1000]"
proof -
  show "printable ''GET'' ''/uni'' ''HTTP/1.1'' [(''Host'', ''x'')]" by code_simp
  show "length sample_request = 30"
    by (simp add: sample_request_def print_request_def request_line_def header_lines_def crlf_def)
qed (simp_all add: sample_client_def sample_endpoint_def)

lemma uni_route:
  "first_handler rt_accepts route_key (map reg_entry main_registrations) GET ''/uni'' = Some uni_handler"
  by (simp add: first_handler_def main_registrations_def rt_accepts_def registrable_def)

text \<open>The answer of the application to \<open>GET /uni\<close>.\<close>

definition uni_response :: "world \<Rightarrow> Response" where
  "uni_response w = fst (makeResp_fresh Success uni_result w)"

lemma uni_expected:
  assumes "printable ''GET'' ''/uni'' version hs"
  shows "expected_answer jparse main_registrations (print_request ''GET'' ''/uni'' version hs []) w =
    Ret (makeResp_fresh Success uni_result (snd (fresh_uuid w)))"
proof -
  have get: "to_method ''GET'' = GET" by (simp add: to_method_lower ci_lower_names)
  show ?thesis
    by (simp add: expected_answer_def parse_ref_print [OF assms] route_answer_def get uni_route
        uni_handler_def makeResp_fresh_def fresh_uuid_def)
qed

text \<open>
  C1. One TLS connection from end to end: a request that arrives in one segment the framing
  accepts is parsed, routed to the first matching handler, answered and sent; the client
  reads back the status, headers and body of that answer and nothing else. This rests on
  the exact receive loop, the refinement of \<open>process\<close>, the contract of the sender and the
  framing of responses.
\<close>
theorem https_end_to_end:
  assumes "arrivals ep = Bytes s # as" "s \<noteq> []" "length s < 8192"
    and "0 < bufsize conn" "\<not> bufsize conn dvd length s"
    and "run_registrations rs (RouterManager_Init m0) = Ret (bs, m)"
    and "expected_answer jparse rs s w = Ret (resp, w')" "response_ok resp"
    and "serialize jdump resp = Ret out" "length out < 2 ^ 31" "willing (sends ep) (length out)"
  shows "\<exists>ep' body. HttpsConnection_process jparse jdump m conn ep w =
      Ret (True, conn\<lparr>conn_req := s\<rparr>, ep', w') \<and> wire ep' = wire ep @ out \<and>
    arrivals ep' = as \<and> jdump (resp_body resp) = Some body \<and>
    read_response out =
      Some (http_code (resp_status resp), wire_headers (length body) (resp_headers resp), body, [])"
proof -
  obtain body where body: "jdump (resp_body resp) = Some body"
    using assms(9) by (auto simp: serialize_def split: option.splits)
  have "read_response out =
      Some (http_code (resp_status resp), wire_headers (length body) (resp_headers resp), body, [])"
    using serialized_readable [where jdump = jdump, OF assms(8) body, of "[]"] assms(9) by simp
  moreover obtain script where "HttpsConnection_process jparse jdump m conn ep w =
      Ret (True, conn\<lparr>conn_req := s\<rparr>, ep\<lparr>arrivals := as, sends := script, wire := wire ep @ out\<rparr>, w')"
    using https_process_segment [OF assms(1-7,9-11)] by blast
  ultimately show ?thesis using body by simp
qed

theorem https_end_to_end_witness:
  "\<exists>conn' ep' w' fields body. HttpsConnection_process (\<lambda>_. Parse_error) (\<lambda>_. Some ''{}'')
      (manager_of (Some main_registrations)) (new_connection default_client 1024) sample_client
      sample_world = Ret (True, conn', ep', w') \<and>
    read_response (wire ep') = Some (200, fields, body, [])"
proof -
  let ?w = "snd (fresh_uuid sample_world)"
  obtain bs where m: "run_registrations main_registrations (RouterManager_Init None) =
      Ret (bs, manager_of (Some main_registrations))"
    by (simp add: run_registrations_manager)
  have answer: "expected_answer (\<lambda>_. Parse_error) main_registrations sample_request sample_world =
      Ret (uni_response ?w, snd (makeResp_fresh Success uni_result ?w))"
    using uni_expected [OF sample_facts(1)] by (simp add: sample_request_def uni_response_def)
  obtain out where out: "serialize (\<lambda>_. Some ''{}'') (uni_response ?w) = Ret out"
    by (simp add: serialize_def)
  have "length out \<le> 1000" using out unfolding uni_response_def by (rule builtin_text_short)
  then have taken: "length out < 2 ^ 31" "willing (sends sample_client) (length out)"
    by (simp_all add: sample_facts willing_once)
  have ok: "response_ok (uni_response ?w)" by (simp add: uni_response_def builtin_fresh_ok)
  have seg: "sample_request \<noteq> []" "length sample_request < 8192"
      "0 < bufsize (new_connection default_client 1024)"
      "\<not> bufsize (new_connection default_client 1024) dvd length sample_request"
    using sample_facts(2) by (auto simp: new_connection_def dest: dvd_imp_le)
  have "http_code (resp_status (uni_response ?w)) = 200" by (simp add: uni_response_def)
  with https_end_to_end [OF sample_facts(3) seg m answer ok out taken]
  show ?thesis by (fastforce simp: sample_facts(4))
qed

text \<open>
  C6. The application of \<open>main\<close> works: a client that sends a well-formed \<open>GET /uni\<close>
  request over TLS in one segment, of a length below 8192 that is not a multiple of 1024,
  and takes the answer, reads a response with status 200 whose body is the text of the
  envelope the code builds: \<open>retCode\<close> is 20000, the enumerator of \<open>Success\<close>, then its text,
  the time and the message of the handler. The README and a comment in \<open>retcode.h\<close> give 0
  for \<open>retCode\<close>; the program does not send that.
\<close>
theorem uni_is_served:
  assumes "printable ''GET'' ''/uni'' version hs"
    and "s = print_request ''GET'' ''/uni'' version hs []"
    and "length s < 8192" "\<not> 1024 dvd length s" "arrivals ep = [Bytes s]"
    and "serialize jdump (uni_response (snd (fresh_uuid w))) = Ret out"
    and "length out < 2 ^ 31" "willing (sends ep) (length out)"
  shows "\<exists>conn' ep' w' fields body.
    HttpsConnection_process jparse jdump (manager_of (Some main_registrations))
      (new_connection c kReceptionBufSize) ep w = Ret (True, conn', ep', w') \<and>
    wire ep' = wire ep @ out \<and> read_response out = Some (200, fields, body, []) \<and>
    jdump (JObject [(''retCode'', JInt 20000), (''retMesg'', JString ''Success''),
      (''time'', JInt (clock w (ticks w))), (''result'', uni_result)]) = Some body"
proof -
  let ?w = "snd (fresh_uuid w)"
  let ?resp = "uni_response ?w"
  obtain bs where m: "run_registrations main_registrations (RouterManager_Init None) =
      Ret (bs, manager_of (Some main_registrations))"
    by (simp add: run_registrations_manager)
  have answer: "expected_answer jparse main_registrations s w =
      Ret (?resp, snd (makeResp_fresh Success uni_result ?w))"
    using uni_expected [OF assms(1)] assms(2) by (simp add: uni_response_def)
  have ok: "response_ok ?resp" by (simp add: uni_response_def builtin_fresh_ok)
  obtain body where body: "jdump (resp_body ?resp) = Some body"
    using assms(6) by (auto simp: serialize_def split: option.splits)
  have "s \<noteq> []" using assms(2) by (simp add: print_request_def request_line_def)
  then obtain script where "HttpsConnection_process jparse jdump (manager_of (Some main_registrations))
      (new_connection c kReceptionBufSize) ep w =
    Ret (True, (new_connection c kReceptionBufSize)\<lparr>conn_req := s\<rparr>,
      ep\<lparr>arrivals := [], sends := script, wire := wire ep @ out\<rparr>,
      snd (makeResp_fresh Success uni_result ?w))"
    using https_process_segment [OF assms(5) _ assms(3) _ _ m answer assms(6-8),
        of "new_connection c kReceptionBufSize"] assms(4)
    by (auto simp: new_connection_def kReceptionBufSize_def)
  moreover have "resp_body ?resp = JObject [(''retCode'', JInt 20000), (''retMesg'', JString ''Success''),
      (''time'', JInt (clock w (ticks w))), (''result'', uni_result)]"
    by (simp add: uni_response_def makeResp_fresh_def makeResp_def get_timestamp_ms_def fresh_uuid_def)
  moreover have "http_code (resp_status ?resp) = 200" by (simp add: uni_response_def)
  ultimately show ?thesis
    using serialized_readable [where jdump = jdump, OF ok body, of "[]"] assms(6) body by simp
qed

theorem uni_is_served_witness:
  "\<exists>conn' ep' w' fields body. HttpsConnection_process (\<lambda>_. Parse_error) (\<lambda>_. Some ''{}'')
      (manager_of (Some main_registrations)) (new_connection default_client kReceptionBufSize)
      sample_client sample_world = Ret (True, conn', ep', w') \<and>
    read_response (wire ep') = Some (200, fields, body, [])"
proof -
  obtain out where out: "serialize (\<lambda>_. Some ''{}'') (uni_response (snd (fresh_uuid sample_world))) = Ret out"
    by (simp add: serialize_def)
  have "length out \<le> 1000" using out unfolding uni_response_def by (rule builtin_text_short)
  then have taken: "length out < 2 ^ 31" "willing (sends sample_client) (length out)"
    by (simp_all add: sample_facts willing_once)
  have seg: "length sample_request < 8192" "\<not> 1024 dvd length sample_request"
    using sample_facts(2) by (auto dest: dvd_imp_le)
  from uni_is_served [OF sample_facts(1) sample_request_def seg sample_facts(3) out taken]
  show ?thesis by (fastforce simp: sample_facts(4))
qed

end
